(* ===== verification/Prelude.thy ===== *)
theory Prelude
  imports Complex_Main "HOL-Library.Word"
begin

unbundle bit_operations_syntax

text \<open>
  Shared vocabulary of the development: how a C function that may stop the
  process is modelled, the combinators that sequence such functions, and the
  generic lemmas on lists and words that the component theories share.

  A C function that can end the process, or whose behaviour the language leaves
  undefined for some state, returns a value of type \<open>'a result\<close>: \<open>Inl\<close> carries
  the reason, \<open>Inr\<close> the value.  \<open>Exit n\<close> is a call of \<open>exit (n)\<close> (also through
  \<open>panic\<close>), \<open>Assertion\<close> a failed \<open>assert\<close>, \<open>Undefined\<close> an access outside an
  object, a use of NULL or of an indeterminate value, and \<open>Out_of_fuel\<close> is the
  answer of a fuel-bounded loop that was not given enough fuel.
\<close>

section \<open>Results\<close>

datatype failure = Exit int | Assertion | Undefined | Out_of_fuel

type_synonym 'a result = "failure + 'a"

definition ebind :: "'a result \<Rightarrow> ('a \<Rightarrow> 'b result) \<Rightarrow> 'b result" where
  "ebind m f = (case m of Inl e \<Rightarrow> Inl e | Inr x \<Rightarrow> f x)"

definition c_assert :: "bool \<Rightarrow> 's \<Rightarrow> 's result" where
  "c_assert b s = (if b then Inr s else Inl Assertion)"

definition deref :: "'a option \<Rightarrow> 'a result" where
  "deref p = (case p of None \<Rightarrow> Inl Undefined | Some x \<Rightarrow> Inr x)"

definition nth_c :: "'a list \<Rightarrow> nat \<Rightarrow> 'a result" where
  "nth_c xs i = (if i < length xs then Inr (xs ! i) else Inl Undefined)"

definition update_c :: "'a list \<Rightarrow> nat \<Rightarrow> 'a \<Rightarrow> 'a list result" where
  "update_c xs i x = (if i < length xs then Inr (xs[i := x]) else Inl Undefined)"

text \<open>Inversion rules for a result that is known to be a value.\<close>

named_theorems Inr_iff

lemma ebind_simps [simp]:
  "ebind (Inl e) f = Inl e"
  "ebind (Inr x) f = f x"
  by (simp_all add: ebind_def)

lemma ebind_cong [fundef_cong]:
  "m = m' \<Longrightarrow> (\<And>x. m' = Inr x \<Longrightarrow> f x = g x) \<Longrightarrow> ebind m f = ebind m' g"
  by (cases m') auto

lemma ebind_Inr_iff [Inr_iff]: "ebind m f = Inr y \<longleftrightarrow> (\<exists>x. m = Inr x \<and> f x = Inr y)"
  by (cases m) auto

lemma ebind_assoc: "ebind (ebind m f) g = ebind m (\<lambda>x. ebind (f x) g)"
  by (cases m) auto

lemma ebind_Inr_right [simp]: "ebind m Inr = m"
  by (cases m) auto

lemma c_assert_Inr_iff [Inr_iff]: "c_assert b s = Inr t \<longleftrightarrow> b \<and> s = t"
  by (simp add: c_assert_def)

lemma c_assert_True [simp]: "c_assert True s = Inr s"
  by (simp add: c_assert_def)

lemma c_assert_False [simp]: "c_assert False s = Inl Assertion"
  by (simp add: c_assert_def)

lemma deref_simps [simp]: "deref None = Inl Undefined" "deref (Some x) = Inr x"
  by (simp_all add: deref_def)

lemma deref_Inr_iff [Inr_iff]: "deref p = Inr x \<longleftrightarrow> p = Some x"
  by (cases p) auto

lemma nth_c_Inr_iff [Inr_iff]: "nth_c xs i = Inr x \<longleftrightarrow> i < length xs \<and> xs ! i = x"
  by (simp add: nth_c_def)

lemma nth_c_in [simp]: "i < length xs \<Longrightarrow> nth_c xs i = Inr (xs ! i)"
  by (simp add: nth_c_def)

lemma update_c_Inr_iff [Inr_iff]: "update_c xs i x = Inr ys \<longleftrightarrow> i < length xs \<and> ys = xs[i := x]"
  by (auto simp: update_c_def)

lemma update_c_in [simp]: "i < length xs \<Longrightarrow> update_c xs i x = Inr (xs[i := x])"
  by (simp add: update_c_def)

section \<open>Partial correctness of results\<close>

text \<open>
  \<open>returns P m\<close>: if \<open>m\<close> is a value it satisfies \<open>P\<close>.  The rules in \<open>wp\<close> decompose
  it along the combinators, so that an invariant proof is a chain of rule
  applications, one per call of the C code.
\<close>

definition returns :: "('a \<Rightarrow> bool) \<Rightarrow> 'a result \<Rightarrow> bool" where
  "returns P m \<longleftrightarrow> (\<forall>x. m = Inr x \<longrightarrow> P x)"

named_theorems wp

lemma returns_Inl [wp, simp]: "returns P (Inl e)"
  by (simp add: returns_def)

lemma returns_Inr [simp]: "returns P (Inr x) \<longleftrightarrow> P x"
  by (simp add: returns_def)

lemma returns_InrI [wp]: "P x \<Longrightarrow> returns P (Inr x)"
  by simp

lemma returns_ebind: "returns P (ebind m f) \<longleftrightarrow> returns (\<lambda>x. returns P (f x)) m"
  by (cases m) (auto simp: returns_def)

lemma returns_ebindI [wp]:
  "returns Q m \<Longrightarrow> (\<And>x. Q x \<Longrightarrow> returns P (f x)) \<Longrightarrow> returns P (ebind m f)"
  by (cases m) (auto simp: returns_def)

lemma returns_weaken: "returns Q m \<Longrightarrow> (\<And>x. Q x \<Longrightarrow> P x) \<Longrightarrow> returns P m"
  by (auto simp: returns_def)

lemma returns_conj: "returns P m \<Longrightarrow> returns Q m \<Longrightarrow> returns (\<lambda>x. P x \<and> Q x) m"
  by (auto simp: returns_def)

lemma returnsD: "returns P m \<Longrightarrow> m = Inr x \<Longrightarrow> P x"
  by (simp add: returns_def)

lemma returns_c_assert [wp]: "(b \<Longrightarrow> P s) \<Longrightarrow> returns P (c_assert b s)"
  by (cases b) auto

lemma returns_if [wp]:
  "(b \<Longrightarrow> returns P m) \<Longrightarrow> (\<not> b \<Longrightarrow> returns P n) \<Longrightarrow> returns P (if b then m else n)"
  by simp

section \<open>Iterating over a list\<close>

fun efold :: "('a \<Rightarrow> 's \<Rightarrow> 's result) \<Rightarrow> 'a list \<Rightarrow> 's \<Rightarrow> 's result" where
  "efold f [] s = Inr s"
| "efold f (x # xs) s = ebind (f x s) (efold f xs)"

lemma efold_append: "efold f (xs @ ys) s = ebind (efold f xs s) (efold f ys)"
  by (induction xs arbitrary: s) (auto simp: ebind_def split: sum.splits)

lemma returns_efold [wp]:
  assumes "I s" and "\<And>x s. x \<in> set xs \<Longrightarrow> I s \<Longrightarrow> returns I (f x s)"
  shows "returns I (efold f xs s)"
  using assms
proof (induction xs arbitrary: s)
  case Nil
  then show ?case by simp
next
  case (Cons x xs)
  show ?case
    unfolding efold.simps
    by (rule returns_ebindI [where Q = I]) (use Cons in auto)
qed

lemma efold_cong [fundef_cong]:
  "xs = ys \<Longrightarrow> s = t \<Longrightarrow> (\<And>x u. x \<in> set ys \<Longrightarrow> f x u = g x u) \<Longrightarrow> efold f xs s = efold g ys t"
proof (induction ys arbitrary: xs s t)
  case (Cons y ys)
  then show ?case by (auto intro: ebind_cong)
qed simp

section \<open>C strings\<close>

text \<open>
  A NUL-terminated string is the list of the characters before the terminator;
  a buffer with its terminator is \<open>cstr\<close> of the memory it points into.
\<close>

abbreviation NUL :: char where "NUL \<equiv> CHR 0x00"
abbreviation LF :: char where "LF \<equiv> CHR 0x0A"
abbreviation CR :: char where "CR \<equiv> CHR 0x0D"
abbreviation TAB :: char where "TAB \<equiv> CHR 0x09"

definition cstr :: "string \<Rightarrow> string" where
  "cstr s = takeWhile (\<lambda>c. c \<noteq> NUL) s"

lemma cstr_no_NUL: "NUL \<notin> set s \<Longrightarrow> cstr s = s"
  unfolding cstr_def by (rule takeWhile_eq_all_conv [THEN iffD2]) blast

lemma cstr_length: "length (cstr s) \<le> length s"
  by (simp add: cstr_def length_takeWhile_le)

lemma NUL_notin_cstr [simp]: "NUL \<notin> set (cstr s)"
  using set_takeWhileD [of NUL "\<lambda>c. c \<noteq> NUL" s] by (auto simp: cstr_def)

lemma cstr_cstr [simp]: "cstr (cstr s) = cstr s"
  by (simp add: cstr_no_NUL)

section \<open>Machine words\<close>

type_synonym u32 = "32 word"
type_synonym u64 = "64 word"

lemma unat_add_no_wrap:
  fixes a b :: "'a::len word"
  assumes "unat a + unat b < 2 ^ LENGTH('a)"
  shows "unat (a + b) = unat a + unat b"
  using assms by (simp add: unat_word_ariths)

lemma unat_Suc_below:
  fixes i n :: "'a::len word"
  assumes "unat i < unat n"
  shows "unat (i + 1) = Suc (unat i)"
proof -
  have "unat n < 2 ^ LENGTH('a)" by (rule unsigned_less)
  with assms have "Suc (unat i) < 2 ^ LENGTH('a)" by linarith
  then show ?thesis by (simp add: unat_word_ariths)
qed

lemma unat_sub_le:
  fixes a b :: "'a::len word"
  assumes "unat b \<le> unat a"
  shows "unat (a - b) = unat a - unat b"
  using assms by (simp add: unat_sub_if')

end
