(* ===== verification/Linked_List.thy ===== *)
theory Linked_List
  imports Prelude
begin

text \<open>
  \<^verbatim>\<open>src/src/lib/list.c\<close>: the singly linked list with a dummy head that holds the
  timers.  The nodes live in an explicit memory \<open>'a mem\<close> from addresses to
  allocated nodes; a list is the address of its dummy head, whose \<open>data\<close> field is
  never written (\<open>None\<close>).  \<open>malloc\<close> is an argument of the operation that calls it:
  \<open>None\<close> is NULL, \<open>Some a\<close> a fresh address.  \<open>free\<close> removes the address from the
  memory, so a later access through it is \<open>Undefined\<close>.

  \<open>list_rep m l xs\<close> relates the memory to the sequence of node addresses and
  values; the lemmas show that every operation implements the obvious one on
  that sequence, in particular that the in-place \<open>list_remove_if_true\<close> is a filter,
  and that \<open>list_for_each\<close> visits exactly the nodes present when it started even
  when its action pushes new nodes.
\<close>

section \<open>The code\<close>

record 'a node =
  data :: "'a option"
  nxt :: "nat option"

type_synonym 'a mem = "nat \<Rightarrow> 'a node option"

definition is_list_empty :: "'a mem \<Rightarrow> nat \<Rightarrow> bool result" where
  "is_list_empty m l = ebind (deref (m l)) (\<lambda>h. Inr (nxt h = None))"

text \<open>
  The two \<open>malloc\<close> calls of \<open>list_create\<close>: whether the one of \<open>struct List\<close>
  succeeds, and the result of the one of the dummy head.
\<close>

definition list_create :: "bool \<Rightarrow> nat option \<Rightarrow> 'a mem \<Rightarrow> nat option \<times> 'a mem" where
  "list_create struct_ok head m =
     (if \<not> struct_ok then (None, m)
      else case head of
             None \<Rightarrow> (None, m)
           | Some d \<Rightarrow> (Some d, m(d \<mapsto> \<lparr>data = None, nxt = None\<rparr>)))"

definition list_free :: "'a mem \<Rightarrow> nat \<Rightarrow> 'a mem" where
  "list_free m l = m(l := None)"

definition list_push :: "'a mem \<Rightarrow> nat \<Rightarrow> 'a \<Rightarrow> nat option \<Rightarrow> (bool \<times> 'a mem) result" where
  "list_push m l x a =
     (case a of
        None \<Rightarrow> Inr (False, m)
      | Some n \<Rightarrow>
          ebind (deref (m l)) (\<lambda>h.
            Inr (True, m(n \<mapsto> \<lparr>data = Some x, nxt = nxt h\<rparr>, l \<mapsto> h\<lparr>nxt := Some n\<rparr>))))"

definition list_top :: "'a mem \<Rightarrow> nat \<Rightarrow> 'a result" where
  "list_top m l =
     ebind (deref (m l)) (\<lambda>h. ebind (deref (nxt h)) (\<lambda>n.
       ebind (deref (m n)) (\<lambda>nd. deref (data nd))))"

definition list_pop :: "'a mem \<Rightarrow> nat \<Rightarrow> ('a \<times> 'a mem) result" where
  "list_pop m l =
     ebind (deref (m l)) (\<lambda>h. ebind (deref (nxt h)) (\<lambda>n.
       ebind (deref (m n)) (\<lambda>nd. ebind (deref (data nd)) (\<lambda>x.
         Inr (x, m(l \<mapsto> h\<lparr>nxt := nxt nd\<rparr>, n := None))))))"

text \<open>
  The two loops.  An action sees and may change the memory and a state of the
  caller; its fields are read again after it ran, as the C code does.  The fuel
  bounds the number of iterations (a circular list would loop for ever).
\<close>

type_synonym ('a, 's) action = "'a \<Rightarrow> 'a mem \<times> 's \<Rightarrow> (bool \<times> 'a mem \<times> 's) result"

fun remove_loop :: "nat \<Rightarrow> ('a, 's) action \<Rightarrow> nat \<Rightarrow> 'a mem \<times> 's \<Rightarrow> ('a mem \<times> 's) result" where
  "remove_loop 0 act n ms = Inl Out_of_fuel"
| "remove_loop (Suc k) act n (m, s) =
     ebind (deref (m n)) (\<lambda>nd.
       case nxt nd of
         None \<Rightarrow> Inr (m, s)
       | Some a \<Rightarrow>
           ebind (deref (m a)) (\<lambda>an. ebind (deref (data an)) (\<lambda>x.
             ebind (act x (m, s)) (\<lambda>(b, m1, s1).
               ebind (deref (m1 n)) (\<lambda>nd1. ebind (deref (nxt nd1)) (\<lambda>oldnext.
                 if b then
                   ebind (deref (m1 oldnext)) (\<lambda>on.
                     remove_loop k act n
                       (m1(n \<mapsto> nd1\<lparr>nxt := nxt on\<rparr>, oldnext := None), s1))
                 else remove_loop k act oldnext (m1, s1)))))))"

definition list_remove_if_true ::
    "nat \<Rightarrow> ('a, 's) action \<Rightarrow> nat \<Rightarrow> 'a mem \<times> 's \<Rightarrow> ('a mem \<times> 's) result" where
  "list_remove_if_true fuel act l ms = remove_loop fuel act l ms"

fun for_each_loop ::
    "nat \<Rightarrow> ('a, 's) action \<Rightarrow> nat option \<Rightarrow> 'a mem \<times> 's \<Rightarrow> ('a mem \<times> 's) result" where
  "for_each_loop k act None ms = Inr ms"
| "for_each_loop 0 act (Some n) ms = Inl Out_of_fuel"
| "for_each_loop (Suc k) act (Some n) (m, s) =
     ebind (deref (m n)) (\<lambda>nd. ebind (deref (data nd)) (\<lambda>x.
       ebind (act x (m, s)) (\<lambda>(_, m1, s1).
         ebind (deref (m1 n)) (\<lambda>nd1. for_each_loop k act (nxt nd1) (m1, s1)))))"

definition list_for_each ::
    "nat \<Rightarrow> ('a, 's) action \<Rightarrow> nat \<Rightarrow> 'a mem \<times> 's \<Rightarrow> ('a mem \<times> 's) result" where
  "list_for_each fuel act l ms =
     ebind (deref (fst ms l)) (\<lambda>h. for_each_loop fuel act (nxt h) ms)"

section \<open>Abstraction\<close>

fun chain :: "'a mem \<Rightarrow> nat option \<Rightarrow> (nat \<times> 'a) list \<Rightarrow> bool" where
  "chain m p [] \<longleftrightarrow> p = None"
| "chain m p ((a, x) # as) \<longleftrightarrow>
     p = Some a \<and>
     (case m a of None \<Rightarrow> False | Some nd \<Rightarrow> data nd = Some x \<and> chain m (nxt nd) as)"

definition list_rep :: "'a mem \<Rightarrow> nat \<Rightarrow> (nat \<times> 'a) list \<Rightarrow> bool" where
  "list_rep m l as \<longleftrightarrow>
     (case m l of None \<Rightarrow> False | Some h \<Rightarrow> chain m (nxt h) as) \<and> distinct (l # map fst as)"

definition elems :: "'a mem \<Rightarrow> nat \<Rightarrow> 'a list \<Rightarrow> bool" where
  "elems m l xs \<longleftrightarrow> (\<exists>as. list_rep m l as \<and> map snd as = xs)"

lemma chain_cong: "(\<And>a. a \<in> fst ` set as \<Longrightarrow> m' a = m a) \<Longrightarrow> chain m' p as = chain m p as"
proof (induction as arbitrary: p)
  case (Cons ax as)
  then have "m' (fst ax) = m (fst ax)" and "\<And>q. chain m' q as = chain m q as"
    by auto
  then show ?case by (cases ax) (simp split: option.split)
qed simp

lemma chain_upd [simp]: "a \<notin> fst ` set as \<Longrightarrow> chain (m(a := v)) p as = chain m p as"
  by (rule chain_cong) auto

lemma list_rep_alloc: "list_rep m l as \<Longrightarrow> a \<in> insert l (fst ` set as) \<Longrightarrow> m a \<noteq> None"
proof -
  have "chain m p as \<Longrightarrow> a \<in> fst ` set as \<Longrightarrow> m a \<noteq> None" for p
  proof (induction as arbitrary: p)
    case (Cons ax as)
    then show ?case by (cases ax) (simp split: option.splits, blast)
  qed simp
  then show "list_rep m l as \<Longrightarrow> a \<in> insert l (fst ` set as) \<Longrightarrow> m a \<noteq> None"
    by (auto simp: list_rep_def split: option.splits)
qed

lemma list_create_elems:
  assumes "list_create True (Some d) m = (r, m')"
  shows "r = Some d \<and> elems m' d []"
  using assms by (auto simp: list_create_def elems_def list_rep_def)

lemma list_push_elems:
  assumes "elems m l xs" and "m a = None"
  shows "\<exists>m'. list_push m l x (Some a) = Inr (True, m') \<and> elems m' l (x # xs)"
proof -
  obtain as where as: "list_rep m l as" "map snd as = xs"
    using assms(1) by (auto simp: elems_def)
  then have fresh: "a \<noteq> l" "a \<notin> fst ` set as"
    using assms(2) list_rep_alloc [OF as(1)] by blast+
  obtain h where h: "m l = Some h" "chain m (nxt h) as" "l \<notin> fst ` set as" "distinct (map fst as)"
    using as(1) by (auto simp: list_rep_def split: option.splits)
  let ?m' = "m(a \<mapsto> \<lparr>data = Some x, nxt = nxt h\<rparr>, l \<mapsto> h\<lparr>nxt := Some a\<rparr>)"
  have "list_rep ?m' l ((a, x) # as)"
    using h fresh by (auto simp: list_rep_def)
  then show ?thesis
    using h(1) as(2) by (auto simp: list_push_def elems_def intro!: exI [of _ "(a, x) # as"])
qed

lemma list_pop_elems:
  assumes "elems m l (x # xs)"
  shows "\<exists>m'. list_pop m l = Inr (x, m') \<and> elems m' l xs"
proof -
  obtain a as where as: "list_rep m l ((a, x) # as)" "map snd as = xs"
    using assms by (auto simp: elems_def)
  then obtain h n where h: "m l = Some h" "nxt h = Some a" "m a = Some n" "data n = Some x"
      "chain m (nxt n) as" "l \<noteq> a" "l \<notin> fst ` set as" "a \<notin> fst ` set as" "distinct (map fst as)"
    by (auto simp: list_rep_def split: option.splits)
  have "list_rep (m(l \<mapsto> h\<lparr>nxt := nxt n\<rparr>, a := None)) l as"
    using h by (auto simp: list_rep_def)
  then show ?thesis
    using h as(2) by (auto simp: list_pop_def elems_def)
qed

lemma list_top_elems: "elems m l (x # xs) \<Longrightarrow> list_top m l = Inr x"
  by (auto simp: elems_def list_rep_def list_top_def split: option.splits)

lemma is_list_empty_elems: "elems m l xs \<Longrightarrow> is_list_empty m l = Inr (xs = [])"
  unfolding elems_def list_rep_def is_list_empty_def
  by (auto split: option.splits) (metis chain.elims(2) list.simps(8) option.distinct(1))+

section \<open>The loops refine list functions\<close>

text \<open>
  What \<open>list_remove_if_true\<close> computes on the sequence, for an action that leaves
  the memory of the list alone: the state is threaded through every element in
  order, and the elements for which the action said \<open>true\<close> are dropped.
\<close>

fun drop_if :: "('a \<Rightarrow> 's \<Rightarrow> bool \<times> 's) \<Rightarrow> (nat \<times> 'a) list \<Rightarrow> 's \<Rightarrow> (nat \<times> 'a) list \<times> 's" where
  "drop_if p [] s = ([], s)"
| "drop_if p (ax # as) s =
     (let (b, s1) = p (snd ax) s; (bs, s2) = drop_if p as s1 in (if b then bs else ax # bs, s2))"

lemma drop_if_subset: "set (fst (drop_if p as s)) \<subseteq> set as"
  by (induction as arbitrary: s) (auto simp: Let_def case_prod_beta split: if_splits)

lemma drop_if_distinct:
  "distinct (map fst as) \<Longrightarrow> distinct (map fst (fst (drop_if p as s)))"
proof (induction as arbitrary: s)
  case (Cons ax as)
  then show ?case
    using drop_if_subset [of p as "snd (p (snd ax) s)"] by (auto simp: Let_def case_prod_beta)
qed simp

lemma drop_if_pure: "drop_if (\<lambda>x s. (P x, s)) as s = (filter (\<lambda>ax. \<not> P (snd ax)) as, s)"
  by (induction as) auto

lemma remove_loop_rep:
  assumes act: "\<And>x m s. act x (m, s) = Inr (fst (p x s), m, snd (p x s))"
    and "m n = Some nd" "chain m (nxt nd) as" "distinct (n # map fst as)" "length as < k"
  shows "\<exists>m' nd'. remove_loop k act n (m, s) = Inr (m', snd (drop_if p as s))
           \<and> m' n = Some nd' \<and> data nd' = data nd \<and> chain m' (nxt nd') (fst (drop_if p as s))
           \<and> (\<forall>a. a \<notin> insert n (fst ` set as) \<longrightarrow> m' a = m a)
           \<and> (\<forall>a \<in> fst ` set as. a \<notin> fst ` set (fst (drop_if p as s)) \<longrightarrow> m' a = None)"
  using assms(2-)
proof (induction as arbitrary: k n m nd s)
  case Nil
  then show ?case by (cases k) auto
next
  case (Cons ax as)
  obtain a x where ax: "ax = (a, x)" by (cases ax)
  obtain j where k: "k = Suc j" "length as < j" using Cons.prems(4) by (cases k) auto
  obtain an where an: "nxt nd = Some a" "m a = Some an" "data an = Some x" "chain m (nxt an) as"
    using Cons.prems(2) by (auto simp: ax split: option.splits)
  have dist: "n \<noteq> a" "n \<notin> fst ` set as" "a \<notin> fst ` set as" "distinct (map fst as)"
    using Cons.prems(3) by (auto simp: ax)
  obtain b s1 where p: "p x s = (b, s1)" by (cases "p x s")
  have act1: "act x (m, s) = Inr (b, m, s1)" using act [of x m s] p by simp
  obtain bs s2 where dr: "drop_if p as s1 = (bs, s2)" by (cases "drop_if p as s1")
  show ?case
  proof (cases b)
    case True
    let ?m1 = "m(n \<mapsto> nd\<lparr>nxt := nxt an\<rparr>, a := None)"
    obtain m' nd' where IH: "remove_loop j act n (?m1, s1) = Inr (m', s2)"
      "m' n = Some nd'" "data nd' = data nd" "chain m' (nxt nd') bs"
      "\<forall>c. c \<notin> insert n (fst ` set as) \<longrightarrow> m' c = ?m1 c"
      "\<forall>c \<in> fst ` set as. c \<notin> fst ` set bs \<longrightarrow> m' c = None"
      using Cons.IH [of ?m1 n "nd\<lparr>nxt := nxt an\<rparr>" j s1, unfolded dr fst_conv snd_conv] an dist k
      by fastforce
    have "m' a = None" using IH(5) dist by auto
    then show ?thesis
      using True IH an dist act1 p dr Cons.prems(1) by (auto simp: k ax)
  next
    case False
    obtain m' an' where IH: "remove_loop j act a (m, s1) = Inr (m', s2)"
      "m' a = Some an'" "data an' = data an" "chain m' (nxt an') bs"
      "\<forall>c. c \<notin> insert a (fst ` set as) \<longrightarrow> m' c = m c"
      "\<forall>c \<in> fst ` set as. c \<notin> fst ` set bs \<longrightarrow> m' c = None"
      using Cons.IH [of m a an j s1, unfolded dr fst_conv snd_conv] an dist k by fastforce
    have "m' n = Some nd" using IH(5) dist Cons.prems(1) by auto
    then show ?thesis
      using False IH an dist act1 p dr Cons.prems(1) by (auto simp: k ax)
  qed
qed

lemma list_remove_if_true_rep:
  assumes act: "\<And>x m s. act x (m, s) = Inr (fst (p x s), m, snd (p x s))"
    and "list_rep m l as" "length as < fuel"
  shows "\<exists>m'. list_remove_if_true fuel act l (m, s) = Inr (m', snd (drop_if p as s))
           \<and> list_rep m' l (fst (drop_if p as s))
           \<and> (\<forall>a \<in> fst ` set as. a \<notin> fst ` set (fst (drop_if p as s)) \<longrightarrow> m' a = None)"
proof -
  obtain h where h: "m l = Some h" "chain m (nxt h) as" "distinct (l # map fst as)"
    using assms(2) by (auto simp: list_rep_def split: option.splits)
  obtain m' h' where m': "remove_loop fuel act l (m, s) = Inr (m', snd (drop_if p as s))"
    "m' l = Some h'" "chain m' (nxt h') (fst (drop_if p as s))"
    "\<forall>a \<in> fst ` set as. a \<notin> fst ` set (fst (drop_if p as s)) \<longrightarrow> m' a = None"
    using remove_loop_rep [where p = p and act = act, OF act h assms(3), of s] by blast
  have "distinct (l # map fst (fst (drop_if p as s)))"
    using h(3) drop_if_subset [of p as s] drop_if_distinct [of as p s] by auto
  with m' show ?thesis by (auto simp: list_remove_if_true_def list_rep_def)
qed

text \<open>
  \<open>list_for_each\<close> is the fold of its action over the values that were in the list
  when it started, as long as the action leaves those nodes alone: it may push
  new nodes (which are linked in front of the first one) or change its own state.
\<close>

definition keeps_nodes :: "('a, 's) action \<Rightarrow> nat set \<Rightarrow> bool" where
  "keeps_nodes act A \<longleftrightarrow>
     (\<forall>x m s b m' s'. act x (m, s) = Inr (b, m', s') \<longrightarrow> (\<forall>a \<in> A. m' a = m a))"

lemma keeps_nodesD:
  "keeps_nodes act A \<Longrightarrow> act x (m, s) = Inr (b, m', s') \<Longrightarrow> a \<in> A \<Longrightarrow> m' a = m a"
  unfolding keeps_nodes_def by blast

lemma for_each_loop_fold:
  assumes "keeps_nodes act (fst ` set as)" "chain m p as" "length as < k"
  shows "for_each_loop k act p (m, s) =
           efold (\<lambda>x ms. ebind (act x ms) (\<lambda>(_, ms'). Inr ms')) (map snd as) (m, s)"
  using assms
proof (induction as arbitrary: k p m s)
  case Nil
  then show ?case by simp
next
  case (Cons ax as)
  obtain a x where ax: "ax = (a, x)" by (cases ax)
  obtain j where k: "k = Suc j" "length as < j" using Cons.prems(3) by (cases k) auto
  obtain an where an: "p = Some a" "m a = Some an" "data an = Some x" "chain m (nxt an) as"
    using Cons.prems(2) by (auto simp: ax split: option.splits)
  have keep: "keeps_nodes act (fst ` set as)"
    using Cons.prems(1) by (auto simp: keeps_nodes_def)
  show ?case
  proof (cases "act x (m, s)")
    case (Inr r)
    obtain b m1 s1 where r: "r = (b, m1, s1)" by (cases r) auto
    have same: "\<And>c. c \<in> fst ` set (ax # as) \<Longrightarrow> m1 c = m c"
      using keeps_nodesD [OF Cons.prems(1)] Inr r by blast
    then have "chain m1 (nxt an) as" "m1 a = Some an"
      using an chain_cong [of as m1 m "nxt an"] by (auto simp: ax)
    with Cons.IH [OF keep _ k(2)] show ?thesis
      using Inr r an by (simp add: ax k)
  qed (use an in \<open>simp add: ax k\<close>)
qed

lemma list_for_each_fold:
  assumes "keeps_nodes act (fst ` set as)" "list_rep m l as" "length as < fuel"
  shows "list_for_each fuel act l (m, s) =
           efold (\<lambda>x ms. ebind (act x ms) (\<lambda>(_, ms'). Inr ms')) (map snd as) (m, s)"
  using assms for_each_loop_fold [OF assms(1) _ assms(3)]
  by (auto simp: list_for_each_def list_rep_def split: option.splits)

section \<open>The interface its clients use\<close>

text \<open>The \<open>while (!is_list_empty (l)) { a = list_pop (l); ... }\<close> loop of the clients.\<close>

fun pop_all :: "('m \<Rightarrow> 'l \<Rightarrow> bool result) \<Rightarrow> ('m \<Rightarrow> 'l \<Rightarrow> ('a \<times> 'm) result)
    \<Rightarrow> nat \<Rightarrow> 'm \<Rightarrow> 'l \<Rightarrow> ('a list \<times> 'm) result" where
  "pop_all is_emp pp 0 m l = Inl Out_of_fuel"
| "pop_all is_emp pp (Suc k) m l =
     ebind (is_emp m l) (\<lambda>e.
       if e then Inr ([], m)
       else ebind (pp m l) (\<lambda>(x, m1).
              ebind (pop_all is_emp pp k m1 l) (\<lambda>(xs, m2). Inr (x # xs, m2))))"

locale lifo_list =
  fixes contents :: "'m \<Rightarrow> 'l \<Rightarrow> 'a list \<Rightarrow> bool"
    and free_addr :: "'m \<Rightarrow> nat \<Rightarrow> bool"
    and is_emp :: "'m \<Rightarrow> 'l \<Rightarrow> bool result"
    and pu :: "'m \<Rightarrow> 'l \<Rightarrow> 'a \<Rightarrow> nat option \<Rightarrow> (bool \<times> 'm) result"
    and pp :: "'m \<Rightarrow> 'l \<Rightarrow> ('a \<times> 'm) result"
  assumes is_emp_law: "contents m l xs \<Longrightarrow> is_emp m l = Inr (xs = [])"
    and push_law: "contents m l xs \<Longrightarrow> free_addr m a \<Longrightarrow>
          \<exists>m'. pu m l x (Some a) = Inr (True, m') \<and> contents m' l (x # xs)"
    and push_null: "pu m l x None = Inr (False, m)"
    and pop_law: "contents m l (x # xs) \<Longrightarrow> \<exists>m'. pp m l = Inr (x, m') \<and> contents m' l xs"
begin

lemma pop_all_contents:
  "contents m l xs \<Longrightarrow> length xs < k \<Longrightarrow>
   \<exists>m'. pop_all is_emp pp k m l = Inr (xs, m') \<and> contents m' l []"
proof (induction xs arbitrary: k m)
  case Nil
  then show ?case using is_emp_law [OF Nil.prems(1)] by (cases k) auto
next
  case (Cons x xs)
  obtain j where k: "k = Suc j" "length xs < j" using Cons.prems(2) by (cases k) auto
  obtain m1 where m1: "pp m l = Inr (x, m1)" "contents m1 l xs"
    using pop_law [OF Cons.prems(1)] by blast
  show ?case
    using Cons.IH [OF m1(2) k(2)] is_emp_law [OF Cons.prems(1)] m1(1) by (auto simp: k(1))
qed

lemma push_pop:
  assumes "contents m l xs" "free_addr m a" "pu m l x (Some a) = Inr (b, m')"
  shows "b \<and> (\<exists>m''. pp m' l = Inr (x, m'') \<and> contents m'' l xs)"
  using push_law [OF assms(1,2), of x] pop_law [of m' l x xs] assms(3) by auto

end

interpretation ll: lifo_list elems "\<lambda>m a. m a = None" is_list_empty list_push list_pop
proof
  fix m :: "'a mem" and l xs
  show "elems m l xs \<Longrightarrow> is_list_empty m l = Inr (xs = [])"
    by (rule is_list_empty_elems)
next
  fix m :: "'a mem" and l xs a x
  show "elems m l xs \<Longrightarrow> m a = None \<Longrightarrow>
      \<exists>m'. list_push m l x (Some a) = Inr (True, m') \<and> elems m' l (x # xs)"
    by (rule list_push_elems)
next
  fix m :: "'a mem" and l x
  show "list_push m l x None = Inr (False, m)" by (simp add: list_push_def)
next
  fix m :: "'a mem" and l x xs
  show "elems m l (x # xs) \<Longrightarrow> \<exists>m'. list_pop m l = Inr (x, m') \<and> elems m' l xs"
    by (rule list_pop_elems)
qed

section \<open>Properties\<close>

text \<open>
  C4: \<open>list_remove_if_true\<close>, which relinks the list in place while it walks it,
  is a filter: every node whose value satisfies the test is unlinked and freed,
  the others stay, in their order, at their addresses.
\<close>

theorem list_remove_if_true_filters:
  assumes "list_rep m l as" and "length as < fuel"
  shows "\<exists>m'. list_remove_if_true fuel (\<lambda>x (m, s). Inr (P x, m, s)) l (m, s) = Inr (m', s)
           \<and> list_rep m' l (filter (\<lambda>ax. \<not> P (snd ax)) as)
           \<and> (\<forall>a \<in> fst ` set (filter (\<lambda>ax. P (snd ax)) as). m' a = None)"
proof -
  have "distinct (map fst as)" using assms(1) by (simp add: list_rep_def)
  then have once: "a \<notin> fst ` set (filter (\<lambda>ax. \<not> P (snd ax)) as)"
    if "a \<in> fst ` set (filter (\<lambda>ax. P (snd ax)) as)" for a
    using that by (auto simp: distinct_map dest: inj_onD)
  have "\<exists>m'. list_remove_if_true fuel (\<lambda>x (m, s). Inr (P x, m, s)) l (m, s)
              = Inr (m', snd (drop_if (\<lambda>x s. (P x, s)) as s))
      \<and> list_rep m' l (fst (drop_if (\<lambda>x s. (P x, s)) as s))
      \<and> (\<forall>a \<in> fst ` set as. a \<notin> fst ` set (fst (drop_if (\<lambda>x s. (P x, s)) as s)) \<longrightarrow> m' a = None)"
    by (rule list_remove_if_true_rep [OF _ assms]) simp
  then obtain m' where m': "list_remove_if_true fuel (\<lambda>x (m, s). Inr (P x, m, s)) l (m, s) = Inr (m', s)"
      "list_rep m' l (filter (\<lambda>ax. \<not> P (snd ax)) as)"
      "\<forall>a \<in> fst ` set as. a \<notin> fst ` set (filter (\<lambda>ax. \<not> P (snd ax)) as) \<longrightarrow> m' a = None"
    by (auto simp only: drop_if_pure fst_conv snd_conv)
  moreover have "\<forall>a \<in> fst ` set (filter (\<lambda>ax. P (snd ax)) as). m' a = None"
    using m'(3) once by (meson filter_is_subset image_mono subsetD)
  ultimately show ?thesis by blast
qed

definition list_567 :: "nat mem" where
  "list_567 = [0 \<mapsto> \<lparr>data = None, nxt = Some 1\<rparr>, 1 \<mapsto> \<lparr>data = Some 5, nxt = Some 2\<rparr>,
               2 \<mapsto> \<lparr>data = Some 6, nxt = Some 3\<rparr>, 3 \<mapsto> \<lparr>data = Some 7, nxt = None\<rparr>]"

lemma list_567_rep: "list_rep list_567 0 [(1, 5), (2, 6), (3, 7)]"
  by (simp add: list_rep_def list_567_def)

theorem list_remove_if_true_filters_witness:
  "\<exists>m'. list_remove_if_true 4 (\<lambda>x (m, s). Inr (even x, m, s)) 0 (list_567, ()) = Inr (m', ())
     \<and> list_rep m' 0 [(1, 5), (3, 7)] \<and> m' 2 = None"
  using list_remove_if_true_filters [OF list_567_rep, of 4 even "()"] by simp

end
