(* ===== verification/Ring_Queue.thy ===== *)
theory Ring_Queue
  imports Prelude
begin

text \<open>
  \<^verbatim>\<open>src/src/lib/queue.c\<close>: the bounded queue on a wheel of cells, with its
  \<open>u_long\<close> counters as 64-bit words and every access to the wheel checked
  against the cells that were allocated.  The lemmas show that it implements a
  bounded first-in first-out queue; \<open>bounded_fifo\<close> is that contract, which the
  ring of pending calls of a session implements as well.
\<close>

section \<open>The contract\<close>

fun enq_all :: "('a \<Rightarrow> 'q \<Rightarrow> (bool \<times> 'q) result) \<Rightarrow> 'a list \<Rightarrow> 'q \<Rightarrow> (bool list \<times> 'q) result" where
  "enq_all enq [] q = Inr ([], q)"
| "enq_all enq (x # xs) q =
     ebind (enq x q) (\<lambda>(b, q1). ebind (enq_all enq xs q1) (\<lambda>(bs, q2). Inr (b # bs, q2)))"

fun deq_all :: "('q \<Rightarrow> ('a \<times> 'q) result) \<Rightarrow> nat \<Rightarrow> 'q \<Rightarrow> ('a list \<times> 'q) result" where
  "deq_all deq 0 q = Inr ([], q)"
| "deq_all deq (Suc n) q =
     ebind (deq q) (\<lambda>(x, q1). ebind (deq_all deq n q1) (\<lambda>(xs, q2). Inr (x # xs, q2)))"

locale bounded_fifo =
  fixes inv :: "'q \<Rightarrow> bool"
    and contents :: "'q \<Rightarrow> 'a list"
    and cap :: "'q \<Rightarrow> nat"
    and enq :: "'a \<Rightarrow> 'q \<Rightarrow> (bool \<times> 'q) result"
    and deq :: "'q \<Rightarrow> ('a \<times> 'q) result"
  assumes bounded: "inv q \<Longrightarrow> length (contents q) \<le> cap q"
    and enq_room: "inv q \<Longrightarrow> length (contents q) < cap q \<Longrightarrow>
          \<exists>q'. enq a q = Inr (True, q') \<and> inv q' \<and> contents q' = contents q @ [a] \<and> cap q' = cap q"
    and enq_full: "inv q \<Longrightarrow> length (contents q) = cap q \<Longrightarrow> enq a q = Inr (False, q)"
    and deq_law: "inv q \<Longrightarrow> contents q = a # as \<Longrightarrow>
          \<exists>q'. deq q = Inr (a, q') \<and> inv q' \<and> contents q' = as \<and> cap q' = cap q"
begin

lemma enq_all_contents:
  "inv q \<Longrightarrow> length (contents q) + length xs \<le> cap q \<Longrightarrow>
   \<exists>q'. enq_all enq xs q = Inr (replicate (length xs) True, q') \<and> inv q'
        \<and> contents q' = contents q @ xs \<and> cap q' = cap q"
proof (induction xs arbitrary: q)
  case (Cons x xs)
  then obtain q1 where "enq x q = Inr (True, q1)" "inv q1" "contents q1 = contents q @ [x]"
      "cap q1 = cap q"
    using enq_room [of q x] by auto
  with Cons.IH [of q1] Cons.prems show ?case by auto
qed simp

lemma deq_all_contents:
  "inv q \<Longrightarrow> contents q = xs @ ys \<Longrightarrow>
   \<exists>q'. deq_all deq (length xs) q = Inr (xs, q') \<and> inv q' \<and> contents q' = ys \<and> cap q' = cap q"
proof (induction xs arbitrary: q)
  case (Cons x xs)
  then obtain q1 where "deq q = Inr (x, q1)" "inv q1" "contents q1 = xs @ ys" "cap q1 = cap q"
    using deq_law [of q x "xs @ ys"] by auto
  with Cons.IH [of q1] show ?case by auto
qed simp

lemma fifo_order:
  assumes "inv q" "contents q = []" "length xs \<le> cap q"
  shows "\<exists>q1 q2. enq_all enq xs q = Inr (replicate (length xs) True, q1)
           \<and> deq_all deq (length xs) q1 = Inr (xs, q2) \<and> inv q2 \<and> contents q2 = []"
  using enq_all_contents [of q xs] deq_all_contents [of _ xs "[]"] assms
  by (metis add_0 append_Nil append_Nil2 list.size(3))

lemma enq_beyond_capacity:
  assumes "inv q" "length (contents q) \<le> cap q"
  shows "\<exists>b q'. enq a q = Inr (b, q') \<and> (b \<longleftrightarrow> length (contents q) < cap q)"
  using enq_room [OF assms(1), of a] enq_full [OF assms(1), of a] assms(2) by (cases "length (contents q) < cap q") auto

end

section \<open>Ring arithmetic\<close>

lemma unat_ring_succ:
  fixes i n :: "'a::len word"
  assumes "i < n"
  shows "unat (if i + 1 = n then 0 else i + 1) = (unat i + 1) mod unat n"
proof -
  have lt: "unat i < unat n" using assms by (simp add: word_less_nat_alt)
  then have s: "unat (i + 1) = unat i + 1" by (simp add: unat_Suc_below)
  show ?thesis
  proof (cases "i + 1 = n")
    case True
    then show ?thesis using s by simp
  next
    case False
    then have "unat i + 1 \<noteq> unat n" using s by (metis word_unat_eq_iff)
    with lt show ?thesis using False s by simp
  qed
qed

definition ring :: "'a list \<Rightarrow> nat \<Rightarrow> nat \<Rightarrow> 'a list" where
  "ring w f n = map (\<lambda>i. w ! ((f + i) mod length w)) [0..<n]"

lemma length_ring [simp]: "length (ring w f n) = n"
  by (simp add: ring_def)

lemma ring_0 [simp]: "ring w f 0 = []"
  by (simp add: ring_def)

lemma ring_snoc:
  assumes "n < length w" "l = (f + n) mod length w"
  shows "ring (w[l := a]) f (Suc n) = ring w f n @ [a]"
proof -
  have "(f + i) mod length w \<noteq> (f + n) mod length w" if "i < n" for i
  proof
    assume "(f + i) mod length w = (f + n) mod length w"
    then have "length w dvd (f + n) - (f + i)"
      by (metis mod_eq_dvd_iff_nat add_left_mono less_imp_le that)
    then show False using that assms(1) by (auto dest: dvd_imp_le)
  qed
  moreover have "(f + n) mod length w < length w"
    by (rule mod_less_divisor) (use assms(1) in auto)
  ultimately show ?thesis
    using assms(2) by (auto simp: ring_def nth_list_update dest: sym)
qed

lemma ring_Suc: "0 < length w \<Longrightarrow> ring w f (Suc n) = w ! (f mod length w) # ring w ((f + 1) mod length w) n"
proof -
  assume w: "0 < length w"
  have "[0..<Suc n] = 0 # map Suc [0..<n]" by (simp add: upt_conv_Cons map_Suc_upt)
  then have "ring w f (Suc n) = w ! (f mod length w) # map (\<lambda>i. w ! ((f + Suc i) mod length w)) [0..<n]"
    by (simp only: ring_def list.map map_map o_def) simp
  also have "map (\<lambda>i. w ! ((f + Suc i) mod length w)) [0..<n] = ring w ((f + 1) mod length w) n"
    by (simp add: ring_def mod_add_left_eq)
  finally show ?thesis .
qed

section \<open>The code\<close>

text \<open>\<open>Minimum_Wheel_Size\<close>\<close>

definition minimum_wheel_size :: u64 where
  "minimum_wheel_size = 10"

record 'a queue =
  wheel_size :: u64
  num_elements :: u64
  first_element :: u64
  last_element :: u64
  wheel :: "'a list"

text \<open>\<open>zero\<close> is the cell with \<open>uw = 0\<close>; the loop writes cells \<open>0 .. wheel_size - 1\<close>.\<close>

definition empty_queue :: "'a \<Rightarrow> 'a queue \<Rightarrow> 'a queue result" where
  "empty_queue zero q =
     (if length (wheel q) < unat (wheel_size q) then Inl Undefined
      else Inr (q\<lparr>num_elements := 0, first_element := 1, last_element := 0,
                  wheel := replicate (unat (wheel_size q)) zero @ drop (unat (wheel_size q)) (wheel q)\<rparr>))"

text \<open>
  The allocation asks for \<open>sizeof (struct Queue) + sizeof (Any_Type) * sz\<close>
  bytes (32 and 8 on the LP64 machines the program runs on), computed in
  \<open>size_t\<close>; \<open>cells\<close> holds the indeterminate content of the memory it returns.
\<close>

definition alloc_cells :: "u64 \<Rightarrow> nat" where
  "alloc_cells sz = (unat (32 + 8 * sz) - 32) div 8"

definition create_queue :: "bool \<Rightarrow> (nat \<Rightarrow> 'a) \<Rightarrow> 'a \<Rightarrow> u64 \<Rightarrow> 'a queue option result" where
  "create_queue malloc_ok cells zero sz =
     (let sz = (if sz < minimum_wheel_size then minimum_wheel_size else sz) in
      if \<not> malloc_ok then Inr None
      else ebind (empty_queue zero
             \<lparr>wheel_size = sz, num_elements = 0, first_element = 0, last_element = 0,
              wheel = map cells [0..<alloc_cells sz]\<rparr>) (\<lambda>q. Inr (Some q)))"

definition is_queue_empty :: "'a queue \<Rightarrow> bool" where
  "is_queue_empty q \<longleftrightarrow> num_elements q = 0"

definition is_queue_full :: "'a queue \<Rightarrow> bool" where
  "is_queue_full q \<longleftrightarrow> num_elements q = wheel_size q"

definition enqueue :: "'a \<Rightarrow> 'a queue \<Rightarrow> (bool \<times> 'a queue) result" where
  "enqueue a q =
     (if is_queue_full q then Inr (False, q)
      else
        let last = last_element q + 1;
            last = (if last = wheel_size q then 0 else last) in
        ebind (update_c (wheel q) (unat last) a) (\<lambda>w.
          Inr (True, q\<lparr>num_elements := num_elements q + 1, last_element := last, wheel := w\<rparr>)))"

definition dequeue :: "'a queue \<Rightarrow> 'a queue" where
  "dequeue q =
     (let first = first_element q + 1 in
      q\<lparr>num_elements := num_elements q - 1,
        first_element := (if first = wheel_size q then 0 else first)\<rparr>)"

definition get_front :: "'a queue \<Rightarrow> 'a result" where
  "get_front q = nth_c (wheel q) (unat (first_element q))"

definition get_front_and_dequeue :: "'a queue \<Rightarrow> ('a \<times> 'a queue) result" where
  "get_front_and_dequeue q = ebind (get_front q) (\<lambda>a. Inr (a, dequeue q))"

section \<open>Correctness\<close>

definition queue_inv :: "'a queue \<Rightarrow> bool" where
  "queue_inv q \<longleftrightarrow>
     0 < unat (wheel_size q) \<and> length (wheel q) = unat (wheel_size q)
     \<and> unat (num_elements q) \<le> unat (wheel_size q)
     \<and> first_element q < wheel_size q \<and> last_element q < wheel_size q
     \<and> (unat (last_element q) + 1) mod unat (wheel_size q)
         = (unat (first_element q) + unat (num_elements q)) mod unat (wheel_size q)"

definition queue_list :: "'a queue \<Rightarrow> 'a list" where
  "queue_list q = ring (wheel q) (unat (first_element q)) (unat (num_elements q))"

definition queue_cap :: "'a queue \<Rightarrow> nat" where
  "queue_cap q = unat (wheel_size q)"

lemma alloc_cells_no_wrap:
  assumes "unat sz < 2 ^ 60"
  shows "alloc_cells sz = unat sz"
proof -
  have "unat (8 * sz) = 8 * unat sz"
    using assms by (simp add: unat_word_ariths)
  then have "unat (32 + 8 * sz) = 32 + 8 * unat sz"
    using assms by (simp add: unat_word_ariths)
  then show ?thesis by (simp add: alloc_cells_def)
qed

lemma create_queue_inv:
  assumes "unat sz < 2 ^ 60"
  shows "\<exists>q. create_queue True cells zero sz = Inr (Some q) \<and> queue_inv q
           \<and> queue_list q = [] \<and> queue_cap q = max 10 (unat sz)"
proof -
  let ?s = "if sz < minimum_wheel_size then minimum_wheel_size else sz"
  have s: "unat ?s = max 10 (unat sz)"
    by (auto simp: minimum_wheel_size_def word_less_nat_alt)
  then have "unat ?s < 2 ^ 60" using assms by simp
  then have cells: "alloc_cells ?s = unat ?s" by (rule alloc_cells_no_wrap)
  have "0 < ?s \<and> 1 < ?s" by (auto simp: word_less_nat_alt minimum_wheel_size_def)
  then show ?thesis
    using s cells
    by (simp add: create_queue_def empty_queue_def queue_inv_def queue_list_def queue_cap_def Let_def)
qed

lemma enqueue_room:
  assumes inv: "queue_inv q" and room: "length (queue_list q) < queue_cap q"
  shows "\<exists>q'. enqueue a q = Inr (True, q') \<and> queue_inv q' \<and> queue_list q' = queue_list q @ [a]
           \<and> queue_cap q' = queue_cap q"
proof -
  let ?n = "unat (wheel_size q)" and ?k = "unat (num_elements q)" and ?f = "unat (first_element q)"
  let ?l = "if last_element q + 1 = wheel_size q then 0 else last_element q + 1"
  have k: "?k < ?n" using room by (simp add: queue_list_def queue_cap_def)
  have len: "length (wheel q) = ?n" using inv by (simp add: queue_inv_def)
  have l: "unat ?l = (?f + ?k) mod ?n"
    using inv unat_ring_succ [of "last_element q" "wheel_size q"] by (simp add: queue_inv_def)
  have l_lt: "unat ?l < ?n" using l k by simp
  have num: "unat (num_elements q + 1) = Suc ?k"
    using k by (rule unat_Suc_below)
  let ?q = "q\<lparr>num_elements := num_elements q + 1, last_element := ?l, wheel := (wheel q)[unat ?l := a]\<rparr>"
  have enq: "enqueue a q = Inr (True, ?q)"
    using k l_lt len by (auto simp: enqueue_def is_queue_full_def Let_def)
  have inv': "queue_inv ?q"
    using inv num k l_lt l
    by (simp add: queue_inv_def word_less_nat_alt del: if_split_asm)
       (simp add: mod_Suc_eq)
  have "queue_list ?q = queue_list q @ [a]"
    using ring_snoc [of ?k "wheel q" "unat ?l" ?f a] k len l num by (simp add: queue_list_def)
  then show ?thesis using enq inv' by (simp add: queue_cap_def)
qed

lemma enqueue_full:
  "queue_inv q \<Longrightarrow> length (queue_list q) = queue_cap q \<Longrightarrow> enqueue a q = Inr (False, q)"
  by (simp add: enqueue_def is_queue_full_def queue_list_def queue_cap_def word_unat_eq_iff)

lemma get_front_and_dequeue_list:
  assumes inv: "queue_inv q" and l: "queue_list q = a # as"
  shows "\<exists>q'. get_front_and_dequeue q = Inr (a, q') \<and> queue_inv q' \<and> queue_list q' = as
           \<and> queue_cap q' = queue_cap q"
proof -
  let ?n = "unat (wheel_size q)" and ?f = "unat (first_element q)"
  obtain k where k: "unat (num_elements q) = Suc k"
    using l by (cases "unat (num_elements q)") (auto simp: queue_list_def)
  have len: "length (wheel q) = ?n" "0 < ?n" using inv by (auto simp: queue_inv_def)
  have f: "?f < ?n" using inv by (simp add: queue_inv_def word_less_nat_alt)
  have first: "unat (if first_element q + 1 = wheel_size q then 0 else first_element q + 1)
      = (?f + 1) mod ?n"
    using inv unat_ring_succ [of "first_element q" "wheel_size q"] by (simp add: queue_inv_def)
  have num: "unat (num_elements q - 1) = k" using k by (simp add: unat_sub_if')
  have c: "a = wheel q ! ?f" "as = ring (wheel q) ((?f + 1) mod ?n) k"
    using l ring_Suc [of "wheel q" ?f k] len f by (auto simp: queue_list_def k)
  have "queue_inv (dequeue q)"
    using inv k num first len
    by (simp add: queue_inv_def dequeue_def Let_def word_less_nat_alt mod_simps)
  then show ?thesis
    using c f len num first
    by (simp add: get_front_and_dequeue_def get_front_def dequeue_def Let_def queue_list_def queue_cap_def)
qed

interpretation rq: bounded_fifo queue_inv queue_list queue_cap enqueue get_front_and_dequeue
proof
  show "queue_inv q \<Longrightarrow> length (queue_list q) \<le> queue_cap q" for q :: "'a queue"
    by (simp add: queue_inv_def queue_list_def queue_cap_def)
qed (fact enqueue_room enqueue_full get_front_and_dequeue_list)+

text \<open>\<open>dequeue\<close> has no guard: on an empty queue the element count wraps around.\<close>

lemma dequeue_empty_wraps: "is_queue_empty q \<Longrightarrow> num_elements (dequeue q) = - 1"
  by (simp add: is_queue_empty_def dequeue_def Let_def)

section \<open>Properties\<close>



end
