(* ===== verification/Binary_Heap.thy ===== *)
theory Binary_Heap
  imports Prelude "HOL-Library.Multiset"
begin

text \<open>
  \<^verbatim>\<open>src/src/lib/heap.c\<close>: the array heap.  The elements are in the cells
  \<open>1 .. num_elements\<close> of \<open>storage\<close>, which has as many cells as were allocated
  (\<open>array_size\<close> of them, so cell \<open>array_size\<close> is already outside).  Every access is
  checked.  \<open>compare x y\<close> means that \<open>y\<close> must be nearer to the root than \<open>x\<close>; the
  order lemmas are about a callback that compares keys.

  The lemmas show that \<open>insert\<close> keeps the heap order and adds its element, that
  \<open>remove_min\<close> removes exactly the element at the root, and that \<open>percolate\<close> does
  not restore the heap order.
\<close>

section \<open>The code\<close>

definition minimum_heap_size :: nat where
  "minimum_heap_size = 10"

record 'a heap =
  array_size :: nat
  heap_count :: nat
  compare :: "'a \<Rightarrow> 'a \<Rightarrow> bool"
  storage :: "'a list"

definition create_heap :: "bool \<Rightarrow> (nat \<Rightarrow> 'a) \<Rightarrow> nat \<Rightarrow> ('a \<Rightarrow> 'a \<Rightarrow> bool) \<Rightarrow> 'a heap option" where
  "create_heap malloc_ok cells sz cmp =
     (let sz = (if sz < minimum_heap_size then minimum_heap_size else sz) in
      if \<not> malloc_ok then None
      else Some \<lparr>array_size = sz, heap_count = 0, compare = cmp, storage = map cells [0..<sz]\<rparr>)"

definition is_heap_empty :: "'a heap \<Rightarrow> bool" where
  "is_heap_empty h \<longleftrightarrow> heap_count h = 0"

definition is_heap_full :: "'a heap \<Rightarrow> bool" where
  "is_heap_full h \<longleftrightarrow> array_size h = heap_count h"

definition num_heap_elements :: "'a heap \<Rightarrow> nat" where
  "num_heap_elements h = heap_count h"

fun insert_loop :: "('a \<Rightarrow> 'a \<Rightarrow> bool) \<Rightarrow> 'a \<Rightarrow> nat \<Rightarrow> 'a list \<Rightarrow> 'a list result" where
  "insert_loop cmp a i st =
     (if i > 1 then
        ebind (nth_c st (i div 2)) (\<lambda>p.
          if cmp p a then ebind (update_c st i p) (insert_loop cmp a (i div 2))
          else update_c st i a)
      else update_c st i a)"

declare insert_loop.simps [simp del]

definition heap_insert :: "'a \<Rightarrow> 'a heap \<Rightarrow> (bool \<times> 'a heap) result" where
  "heap_insert a h =
     (if is_heap_full h then Inr (False, h)
      else ebind (insert_loop (compare h) a (heap_count h + 1) (storage h)) (\<lambda>st.
             Inr (True, h\<lparr>heap_count := heap_count h + 1, storage := st\<rparr>)))"

text \<open>
  The loop of \<open>percolate\<close>, with both comparisons as they are in the code: the
  first one compares cell \<open>child + 1\<close> with itself, the second one looks at cell
  \<open>child + 1\<close> while the assignment copies cell \<open>child\<close>.
\<close>

fun percolate_loop :: "nat \<Rightarrow> ('a \<Rightarrow> 'a \<Rightarrow> bool) \<Rightarrow> 'a \<Rightarrow> nat \<Rightarrow> nat \<Rightarrow> 'a list \<Rightarrow> 'a list result" where
  "percolate_loop 0 cmp dest n hole st = Inl Out_of_fuel"
| "percolate_loop (Suc k) cmp dest n hole st =
     (if hole * 2 \<le> n then
        ebind (if hole * 2 \<noteq> n
               then ebind (nth_c st (hole * 2 + 1)) (\<lambda>c. Inr (if cmp c c then hole * 2 + 1 else hole * 2))
               else Inr (hole * 2)) (\<lambda>child.
          ebind (nth_c st (child + 1)) (\<lambda>x.
            if cmp x dest
            then ebind (nth_c st child) (\<lambda>c.
                   ebind (update_c st hole c) (percolate_loop k cmp dest n child))
            else update_c st hole dest))
      else update_c st hole dest)"

definition percolate :: "'a heap \<Rightarrow> nat \<Rightarrow> 'a heap result" where
  "percolate h hole =
     ebind (nth_c (storage h) hole) (\<lambda>dest.
       ebind (percolate_loop (Suc (heap_count h)) (compare h) dest (heap_count h) hole (storage h))
         (\<lambda>st. Inr (h\<lparr>storage := st\<rparr>)))"

text \<open>\<open>zero\<close> is the \<open>Any_Type temp = {0}\<close> returned for an empty heap.\<close>

definition remove_min :: "'a \<Rightarrow> 'a heap \<Rightarrow> ('a \<times> 'a heap) result" where
  "remove_min zero h =
     (if is_heap_empty h then Inr (zero, h)
      else ebind (nth_c (storage h) 1) (\<lambda>mn.
             ebind (nth_c (storage h) (heap_count h)) (\<lambda>x.
               ebind (update_c (storage h) 1 x) (\<lambda>st.
                 ebind (percolate (h\<lparr>storage := st, heap_count := heap_count h - 1\<rparr>) 1)
                   (\<lambda>h'. Inr (mn, h'))))))"

definition poll_min :: "'a \<Rightarrow> 'a heap \<Rightarrow> 'a result" where
  "poll_min zero h = (if is_heap_empty h then Inr zero else nth_c (storage h) 1)"

definition heap_for_each :: "('a \<Rightarrow> 's \<Rightarrow> 's result) \<Rightarrow> 'a heap \<Rightarrow> 's \<Rightarrow> 's result" where
  "heap_for_each action h s =
     efold (\<lambda>i s. ebind (nth_c (storage h) i) (\<lambda>x. action x s)) [1..<Suc (heap_count h)] s"

section \<open>Correctness\<close>

definition heap_elems :: "'a heap \<Rightarrow> 'a multiset" where
  "heap_elems h = mset (take (heap_count h) (drop 1 (storage h)))"

definition heap_wf :: "'a heap \<Rightarrow> bool" where
  "heap_wf h \<longleftrightarrow> length (storage h) = array_size h \<and> heap_count h < array_size h"

definition heap_ordered :: "('a \<Rightarrow> 'k::linorder) \<Rightarrow> 'a list \<Rightarrow> nat \<Rightarrow> bool" where
  "heap_ordered key st n \<longleftrightarrow> (\<forall>j. 2 \<le> j \<and> j \<le> n \<longrightarrow> key (st ! (j div 2)) \<le> key (st ! j))"

lemma create_heap_wf: "create_heap True cells sz cmp = Some h \<Longrightarrow> heap_wf h \<and> heap_elems h = {#}"
  by (auto simp: create_heap_def heap_wf_def heap_elems_def minimum_heap_size_def Let_def)

text \<open>A cell update moves the hole: with the hole filled, it is a swap.\<close>

lemma mset_move_hole:
  assumes "i < length st" "k < length st"
  shows "mset (st[i := st ! k, k := a]) = mset (st[i := a])"
proof -
  let ?s = "st[i := a]"
  have "mset (?s[k := ?s ! i, i := ?s ! k]) = mset ?s"
    using assms by (intro mset_swap) auto
  moreover have "?s[k := ?s ! i, i := ?s ! k] = st[i := st ! k, k := a]"
    using assms by (intro nth_equalityI) (auto simp: nth_list_update)
  ultimately show ?thesis by simp
qed

lemma mset_middle:
  assumes "length s = length t" "mset s = mset t" "s ! 0 = t ! 0" "n < length t"
    and "\<And>j. n < j \<Longrightarrow> j < length t \<Longrightarrow> s ! j = t ! j"
  shows "mset (take n (drop 1 s)) = mset (take n (drop 1 t))"
proof -
  have split: "mset u = {#u ! 0#} + mset (take n (drop 1 u)) + mset (drop (Suc n) u)"
    if "n < length u" for u :: "'a list"
  proof -
    have "u = u ! 0 # drop 1 u" using that by (cases u) auto
    moreover have "drop 1 u = take n (drop 1 u) @ drop (Suc n) u" by (cases u) auto
    ultimately have "mset u = mset (u ! 0 # take n (drop 1 u) @ drop (Suc n) u)" by metis
    then show ?thesis by simp
  qed
  have "drop (Suc n) s = drop (Suc n) t"
    using assms by (intro nth_equalityI) auto
  with split [of s] split [of t] assms show ?thesis by auto
qed

lemma insert_loop_ok:
  assumes "1 \<le> i" "i \<le> n" "n < length st"
  shows "\<exists>st'. insert_loop cmp a i st = Inr st' \<and> length st' = length st
           \<and> mset st' = mset (st[i := a]) \<and> st' ! 0 = st ! 0 \<and> (\<forall>j > i. st' ! j = st ! j)"
  using assms
proof (induction cmp a i st rule: insert_loop.induct)
  case (1 cmp a i st)
  note bnd = "1.prems"
  show ?case
  proof (cases "i > 1 \<and> cmp (st ! (i div 2)) a")
    case True
    let ?st = "st[i := st ! (i div 2)]"
    have half: "1 \<le> i div 2" "i div 2 < i" using True by auto
    obtain st' where st': "insert_loop cmp a (i div 2) ?st = Inr st'" "length st' = length st"
      "mset st' = mset (?st[i div 2 := a])" "st' ! 0 = ?st ! 0" "\<forall>j > i div 2. st' ! j = ?st ! j"
      using "1.IH" [of "st ! (i div 2)" ?st] True half bnd by auto
    have "mset st' = mset (st[i := a])"
      using st'(3) mset_move_hole [of i st "i div 2" a] half bnd by simp
    moreover have "st' ! 0 = st ! 0" "\<forall>j > i. st' ! j = st ! j"
      using st'(4,5) half by auto
    ultimately show ?thesis
      using True st' bnd half by (subst insert_loop.simps) auto
  next
    case False
    then show ?thesis using bnd by (subst insert_loop.simps) auto
  qed
qed

text \<open>The order with a hole at cell \<open>i\<close> waiting for \<open>a\<close>.\<close>

definition hole_ordered :: "('a \<Rightarrow> 'k::linorder) \<Rightarrow> 'a \<Rightarrow> nat \<Rightarrow> nat \<Rightarrow> 'a list \<Rightarrow> bool" where
  "hole_ordered key a i n st \<longleftrightarrow>
     (\<forall>j. 2 \<le> j \<and> j \<le> n \<and> j \<noteq> i \<longrightarrow>
        (if j div 2 = i then key a \<le> key (st ! j) \<and> (i > 1 \<longrightarrow> key (st ! (i div 2)) \<le> key (st ! j))
         else key (st ! (j div 2)) \<le> key (st ! j)))"

lemma hole_ordered_up:
  assumes "hole_ordered key a i n st" "1 < i" "i \<le> n" "n < length st" "key a < key (st ! (i div 2))"
  shows "hole_ordered key a (i div 2) n (st[i := st ! (i div 2)])"
  unfolding hole_ordered_def
proof (intro allI impI)
  fix j assume j: "2 \<le> j \<and> j \<le> n \<and> j \<noteq> i div 2"
  let ?p = "i div 2" and ?st = "st[i := st ! (i div 2)]"
  have H: "\<And>j. 2 \<le> j \<and> j \<le> n \<and> j \<noteq> i \<Longrightarrow>
      (if j div 2 = i then key a \<le> key (st ! j) \<and> (i > 1 \<longrightarrow> key (st ! ?p) \<le> key (st ! j))
       else key (st ! (j div 2)) \<le> key (st ! j))"
    using assms(1) unfolding hole_ordered_def by blast
  have len: "i < length st" using assms by simp
  have pp: "?p \<noteq> i" "?p < i" "1 \<le> ?p" using assms(2) by auto
  have gp: "?p div 2 \<noteq> i" "?p > 1 \<longrightarrow> ?p div 2 \<noteq> ?p" using pp by auto
  have up: "?p > 1 \<Longrightarrow> key (st ! (?p div 2)) \<le> key (st ! ?p)"
    using H [of ?p] pp gp assms(3) by auto
  show "if j div 2 = ?p then key a \<le> key (?st ! j) \<and> (?p > 1 \<longrightarrow> key (?st ! (?p div 2)) \<le> key (?st ! j))
        else key (?st ! (j div 2)) \<le> key (?st ! j)"
  proof (cases "j = i")
    case True
    then show ?thesis using len gp up assms(5) by auto
  next
    case False
    then have Hj: "if j div 2 = i then key a \<le> key (st ! j) \<and> key (st ! ?p) \<le> key (st ! j)
        else key (st ! (j div 2)) \<le> key (st ! j)"
      using H [of j] j assms(2) by auto
    show ?thesis
    proof (cases "j div 2 = ?p")
      case jp: True
      then have le: "key (st ! ?p) \<le> key (st ! j)" using Hj pp by auto
      then have "key a \<le> key (st ! j)" using assms(5) by auto
      moreover have "?p > 1 \<Longrightarrow> key (st ! (?p div 2)) \<le> key (st ! j)" using up le by auto
      ultimately show ?thesis using jp False gp by auto
    next
      case np: False
      then show ?thesis using Hj False len by (auto split: if_splits)
    qed
  qed
qed

lemma hole_ordered_fill:
  assumes "hole_ordered key a i n st" "1 \<le> i" "i < length st"
    and "i > 1 \<Longrightarrow> key (st ! (i div 2)) \<le> key a"
  shows "heap_ordered key (st[i := a]) n"
  unfolding heap_ordered_def
proof (intro allI impI)
  fix j assume j: "2 \<le> j \<and> j \<le> n"
  show "key (st[i := a] ! (j div 2)) \<le> key (st[i := a] ! j)"
  proof (cases "j = i")
    case True
    then have "i div 2 \<noteq> i" using j by auto
    then show ?thesis using True j assms(3,4) by auto
  next
    case False
    then have H: "if j div 2 = i then key a \<le> key (st ! j) \<and> (i > 1 \<longrightarrow> key (st ! (i div 2)) \<le> key (st ! j))
        else key (st ! (j div 2)) \<le> key (st ! j)"
      using assms(1) j unfolding hole_ordered_def by blast
    then show ?thesis using False assms(3) by (cases "j div 2 = i") auto
  qed
qed

lemma insert_loop_order:
  assumes cmp: "\<And>x y. cmp x y \<longleftrightarrow> key y < key x"
    and "1 \<le> i" "i \<le> n" "n < length st" "hole_ordered key a i n st"
    and "insert_loop cmp a i st = Inr st'"
  shows "heap_ordered key st' n"
  using assms
proof (induction cmp a i st rule: insert_loop.induct)
  case (1 c a i st)
  note prems = "1.prems"
  show ?case
  proof (cases "i > 1 \<and> key a < key (st ! (i div 2))")
    case True
    let ?st = "st[i := st ! (i div 2)]"
    have d: "i div 2 < length st" "i < length st" "1 < i" "1 \<le> i div 2" "i div 2 \<le> n"
      using True prems(3,4) by auto
    have "insert_loop c a i st = insert_loop c a (i div 2) ?st"
      using True d prems(1) by (subst insert_loop.simps) simp
    then have call: "insert_loop c a (i div 2) ?st = Inr st'" using prems(6) by simp
    have "hole_ordered key a (i div 2) n ?st"
      using hole_ordered_up [OF prems(5)] prems(3,4) True by blast
    moreover have "c (st ! (i div 2)) a" using True prems(1) by blast
    ultimately show ?thesis
      using "1.IH" [of "st ! (i div 2)" ?st, OF d(3) _ _ _ prems(1)] call d prems(4) by simp
  next
    case False
    have d: "i div 2 < length st" "i < length st" using prems(3,4) by auto
    have "insert_loop c a i st = Inr (st[i := a])"
      using False d prems(1) by (subst insert_loop.simps) auto
    then have "st' = st[i := a]" using prems(6) by simp
    moreover have "i > 1 \<Longrightarrow> key (st ! (i div 2)) \<le> key a" using False by auto
    ultimately show ?thesis
      using hole_ordered_fill [OF prems(5,2) d(2)] by simp
  qed
qed

lemma heap_insert_correct:
  assumes wf: "heap_wf h" and room: "Suc (heap_count h) < array_size h"
  shows "\<exists>h'. heap_insert a h = Inr (True, h') \<and> heap_wf h' \<and> heap_elems h' = heap_elems h + {#a#}
           \<and> heap_count h' = Suc (heap_count h)"
proof -
  let ?n = "Suc (heap_count h)"
  have len: "?n < length (storage h)" using assms by (simp add: heap_wf_def)
  obtain st where st: "insert_loop (compare h) a ?n (storage h) = Inr st"
    "length st = length (storage h)" "mset st = mset ((storage h)[?n := a])"
    "st ! 0 = storage h ! 0" "\<forall>j > ?n. st ! j = storage h ! j"
    using insert_loop_ok [of ?n ?n "storage h" "compare h" a] len by auto
  have "mset (take ?n (drop 1 st)) = mset (take ?n (drop 1 ((storage h)[?n := a])))"
    by (rule mset_middle) (use st len in auto)
  moreover have "take ?n (drop 1 ((storage h)[?n := a])) = take (heap_count h) (drop 1 (storage h)) @ [a]"
    using len by (simp add: take_Suc_conv_app_nth drop_update_swap)
  ultimately show ?thesis
    using st(1,2) assms by (simp add: heap_insert_def is_heap_full_def heap_wf_def heap_elems_def)
qed

lemma heap_insert_order:
  assumes wf: "heap_wf h" and room: "Suc (heap_count h) < array_size h"
    and cmp: "\<And>x y. compare h x y \<longleftrightarrow> key y < key x"
    and ord: "heap_ordered key (storage h) (heap_count h)"
    and ins: "heap_insert a h = Inr (True, h')"
  shows "heap_ordered key (storage h') (heap_count h')"
proof -
  let ?n = "Suc (heap_count h)"
  have len: "?n < length (storage h)" using wf room by (simp add: heap_wf_def)
  obtain st where st: "insert_loop (compare h) a ?n (storage h) = Inr st"
    "h' = h\<lparr>heap_count := ?n, storage := st\<rparr>"
    using ins by (auto simp: heap_insert_def Inr_iff split: if_splits)
  have "hole_ordered key a ?n ?n (storage h)"
    using ord by (auto simp: hole_ordered_def heap_ordered_def)
  then have "heap_ordered key st ?n"
    using insert_loop_order [OF cmp _ _ len _ st(1)] by auto
  then show ?thesis by (simp add: st(2))
qed

text \<open>
  The last free cell is outside the allocation: a heap of \<open>n\<close> cells whose elements
  start at cell 1 has room for \<open>n - 1\<close>, but \<open>is_heap_full\<close> allows \<open>n\<close>.
\<close>

lemma insert_loop_outside: "length st \<le> i \<Longrightarrow> insert_loop cmp a i st = Inl Undefined"
  by (subst insert_loop.simps) (auto simp: nth_c_def update_c_def)

lemma heap_insert_last_cell:
  assumes "heap_wf h" "Suc (heap_count h) = array_size h"
  shows "\<not> is_heap_full h \<and> heap_insert a h = Inl Undefined"
  using assms insert_loop_outside [of "storage h" "Suc (heap_count h)" "compare h" a]
  by (auto simp: heap_insert_def is_heap_full_def heap_wf_def)

lemma percolate_loop_ok:
  assumes "\<And>x. \<not> cmp x x" "1 \<le> hole" "hole \<le> n" "Suc n < length st" "n - hole < k"
  shows "\<exists>st'. percolate_loop k cmp dest n hole st = Inr st' \<and> length st' = length st
           \<and> mset st' = mset (st[hole := dest]) \<and> st' ! 0 = st ! 0 \<and> (\<forall>j > n. st' ! j = st ! j)"
  using assms(2-)
proof (induction k arbitrary: hole st)
  case (Suc k)
  show ?case
  proof (cases "hole * 2 \<le> n \<and> cmp (st ! (hole * 2 + 1)) dest")
    case True
    let ?c = "hole * 2" and ?st = "st[hole := st ! (hole * 2)]"
    obtain st' where st': "percolate_loop k cmp dest n ?c ?st = Inr st'" "length st' = length st"
      "mset st' = mset (?st[?c := dest])" "st' ! 0 = ?st ! 0" "\<forall>j > n. st' ! j = ?st ! j"
    proof -
      have "n - ?c < k" "1 \<le> ?c" "?c \<le> n" "Suc n < length ?st" using True Suc.prems by auto
      from Suc.IH [OF this(2-4) this(1)] show ?thesis using that by auto
    qed
    have "mset st' = mset (st[hole := dest])"
      using st'(3) mset_move_hole [of hole st ?c dest] True Suc.prems by simp
    then show ?thesis
      using True st' Suc.prems assms(1) by (auto simp: ebind_def)
  next
    case False
    then show ?thesis using Suc.prems assms(1) by (auto simp: ebind_def)
  qed
qed simp

lemma remove_min_correct:
  assumes wf: "heap_wf h" and ne: "0 < heap_count h" and irr: "\<And>x. \<not> compare h x x"
  shows "\<exists>h'. remove_min zero h = Inr (storage h ! 1, h') \<and> heap_wf h'
           \<and> heap_elems h = heap_elems h' + {#storage h ! 1#} \<and> heap_count h' = heap_count h - 1"
proof -
  obtain n where n: "heap_count h = Suc n" using ne by (cases "heap_count h") auto
  let ?s = "storage h" let ?st = "?s[1 := ?s ! Suc n]"
  have len: "Suc n < length ?s" using wf n by (simp add: heap_wf_def)
  have cut: "take (Suc n) (drop 1 ?s) = take n (drop 1 ?s) @ [?s ! Suc n]"
    using len by (simp add: take_Suc_conv_app_nth)
  obtain st' where st': "percolate_loop (Suc n) (compare h) (?s ! Suc n) n 1 ?st = Inr st'"
    "length st' = length ?s" "0 < n \<Longrightarrow> mset st' = mset ?st" "st' ! 0 = ?s ! 0"
    "0 < n \<Longrightarrow> \<forall>j > n. st' ! j = ?st ! j"
  proof (cases "n = 0")
    case True
    then show ?thesis using that [of "?st"] len by simp
  next
    case False
    then show ?thesis
    proof -
      have "1 \<le> n" "Suc n < length ?st" "n - 1 < Suc n" using False len by auto
      from percolate_loop_ok [where cmp = "compare h" and dest = "?s ! Suc n", OF irr le_refl this] show ?thesis
        using that by (auto simp del: percolate_loop.simps)
    qed
  qed
  have "mset (take n (drop 1 st')) = mset (take n (drop 1 ?st))"
  proof (cases "n = 0")
    case False
    then show ?thesis by (intro mset_middle) (use st' len in auto)
  qed simp
  moreover have "mset (take n (drop 1 ?st)) + {#?s ! 1#} = mset (take (Suc n) (drop 1 ?s))"
  proof (cases n)
    case 0
    then show ?thesis using cut by simp
  next
    case (Suc m)
    have "drop 1 ?s = ?s ! 1 # drop 2 ?s" using len by (simp add: Cons_nth_drop_Suc numeral_2_eq_2)
    moreover have "drop 1 ?st = ?s ! Suc n # drop 2 ?s"
      using len by (metis Cons_nth_drop_Suc One_nat_def Suc_lessD calculation drop_update_swap
        le_refl length_list_update list_update_code(2) diff_self_eq_0 zero_less_Suc)
    ultimately show ?thesis using cut Suc by simp
  qed
  ultimately have "mset (take (Suc n) (drop 1 ?s)) = mset (take n (drop 1 st')) + {#?s ! 1#}" by simp
  then show ?thesis
    using st' len wf n
    by (simp add: remove_min_def is_heap_empty_def percolate_def heap_wf_def heap_elems_def)
qed

text \<open>
  With the second comparison misplaced, the heap order is lost: after removing 1
  from the heap of 1, 2, 3 the element at the root is 3, although 2 is left.
\<close>

definition heap_123 :: "nat heap" where
  "heap_123 = \<lparr>array_size = 10, heap_count = 3, compare = (\<lambda>x y. y < x),
               storage = [0, 1, 2, 3, 0, 0, 0, 0, 0, 0]\<rparr>"

lemma remove_min_loses_order:
  "heap_wf heap_123 \<and> heap_ordered id (storage heap_123) (heap_count heap_123)
   \<and> (\<exists>h. remove_min 0 heap_123 = Inr (1, h) \<and> heap_elems h = {#2, 3#} \<and> poll_min 0 h = Inr 3)"
proof -
  have "heap_ordered id (storage heap_123) 3"
    unfolding heap_ordered_def
  proof (intro allI impI)
    fix j :: nat assume "2 \<le> j \<and> j \<le> 3"
    then have "j = 2 \<or> j = 3" by arith
    then show "id (storage heap_123 ! (j div 2)) \<le> id (storage heap_123 ! j)"
      by (auto simp: heap_123_def)
  qed
  moreover have "remove_min 0 heap_123 =
      Inr (1, heap_123\<lparr>heap_count := 2, storage := [0, 3, 2, 3, 0, 0, 0, 0, 0, 0]\<rparr>)"
    by (simp add: remove_min_def is_heap_empty_def percolate_def heap_123_def nth_c_def update_c_def
        numeral_2_eq_2 numeral_3_eq_3)
  ultimately show ?thesis
    by (simp add: heap_wf_def heap_elems_def poll_min_def is_heap_empty_def heap_123_def)
qed

section \<open>Properties\<close>

text \<open>
  While there is a free cell, \<open>insert\<close> adds exactly its element, keeps the heap
  order for the order of a key that the callback compares, and leaves the smallest
  element at the root.
\<close>

lemma heap_ordered_root:
  assumes "heap_ordered key st n" "1 \<le> j" "j \<le> n"
  shows "key (st ! 1) \<le> key (st ! j)"
  using assms(2,3)
proof (induction j rule: less_induct)
  case (less j)
  show ?case
  proof (cases "j = 1")
    case False
    then have "1 \<le> j div 2" "j div 2 < j" using less.prems by auto
    then have "key (st ! 1) \<le> key (st ! (j div 2))" using less by auto
    also have "\<dots> \<le> key (st ! j)" using assms(1) False less.prems by (simp add: heap_ordered_def)
    finally show ?thesis .
  qed simp
qed

theorem heap_insert_keeps_heap:
  assumes "heap_wf h" "Suc (heap_count h) < array_size h"
    and "\<And>x y. compare h x y \<longleftrightarrow> key y < key x"
    and "heap_ordered key (storage h) (heap_count h)"
  shows "\<exists>h'. heap_insert a h = Inr (True, h') \<and> heap_wf h' \<and> heap_elems h' = heap_elems h + {#a#}
           \<and> heap_ordered key (storage h') (heap_count h')
           \<and> (\<forall>j \<in> {1..heap_count h'}. key (storage h' ! 1) \<le> key (storage h' ! j))"
  using heap_insert_correct [OF assms(1,2), of a] heap_insert_order [OF assms, of a]
    heap_ordered_root by fastforce

definition empty_heap :: "nat heap" where
  "empty_heap = \<lparr>array_size = 10, heap_count = 0, compare = (\<lambda>x y. y < x), storage = replicate 10 0\<rparr>"

theorem heap_insert_keeps_heap_witness:
  "\<exists>h'. heap_insert 7 empty_heap = Inr (True, h') \<and> heap_elems h' = {#7#}"
  using heap_insert_keeps_heap [of empty_heap id 7]
  by (auto simp: empty_heap_def heap_wf_def heap_ordered_def heap_elems_def)

end
