(* ===== verification/Timer.thy ===== *)
theory Timer
  imports Linked_List
begin

text \<open>
  \<^verbatim>\<open>src/src/timer.c\<close>: the timers.  The three lists of the file hold timers by
  address; they are the value sequences that \<open>Linked_List\<close> shows \<open>list.c\<close> to
  implement, head first: \<open>list_push\<close> is a cons (when its \<open>malloc\<close> succeeds),
  \<open>list_pop\<close> takes the head, \<open>list_for_each\<close> is a fold over the values present when
  it starts (\<open>list_for_each_fold\<close>), \<open>list_remove_if_true\<close> is \<open>drop_if\<close>
  (\<open>list_remove_if_true_rep\<close>).

  The environment is part of the state: \<open>clock k\<close> is what the \<open>k\<close>-th call of
  \<open>gettimeofday\<close> returns, \<open>malloc_ok k\<close> whether the \<open>k\<close>-th \<open>malloc\<close> of the file
  succeeds; the address it returns is \<open>k\<close>, so no two live objects share one.
  The state is an extensible record: the rest of the program's state is its
  \<open>more\<close> part, which timer callbacks may change.

  The lemmas show the pool invariant (no timer is on two lists, every listed timer
  is allocated) and what \<open>timer_tick\<close> does to which timer.
\<close>

section \<open>State\<close>

record 'cb timer =
  time_started :: real
  timeout_delay :: real
  has_expired :: bool
  timeout_callback :: "'cb option"
  timer_subject :: nat

record 'cb tstate =
  tmr :: "nat \<Rightarrow> 'cb timer option"
  passive_timers :: "nat list"
  active_timers :: "nat list"
  persistent_timers :: "nat list"
  now :: real
  use_timer_cache :: bool
  clock :: "nat \<Rightarrow> real"
  clock_reads :: nat
  malloc_ok :: "nat \<Rightarrow> bool"
  mallocs :: nat

definition num_timers :: nat where
  "num_timers = 25"

text \<open>The contents after \<open>memset (t, 0, sizeof (struct Timer))\<close>.\<close>

definition zero_timer :: "'cb timer" where
  "zero_timer = \<lparr>time_started = 0, timeout_delay = 0, has_expired = False,
                 timeout_callback = None, timer_subject = 0\<rparr>"

definition malloc :: "('cb, 'z) tstate_scheme \<Rightarrow> nat option \<times> ('cb, 'z) tstate_scheme" where
  "malloc s = (if malloc_ok s (mallocs s) then Some (mallocs s) else None,
               s\<lparr>mallocs := Suc (mallocs s)\<rparr>)"

text \<open>\<open>list_push\<close> of \<open>list.c\<close> on a list of timers: the node comes from \<open>malloc\<close>.\<close>

definition push_timer :: "nat \<Rightarrow> nat list \<Rightarrow> ('cb, 'z) tstate_scheme
    \<Rightarrow> bool \<times> nat list \<times> ('cb, 'z) tstate_scheme" where
  "push_timer t xs s =
     (case malloc s of (None, s1) \<Rightarrow> (False, xs, s1) | (Some _, s1) \<Rightarrow> (True, t # xs, s1))"

section \<open>The code\<close>

definition timer_now_forced :: "('cb, 'z) tstate_scheme \<Rightarrow> real \<times> ('cb, 'z) tstate_scheme" where
  "timer_now_forced s = (clock s (clock_reads s), s\<lparr>clock_reads := Suc (clock_reads s)\<rparr>)"

definition timer_now :: "('cb, 'z) tstate_scheme \<Rightarrow> real \<times> ('cb, 'z) tstate_scheme" where
  "timer_now s = (if use_timer_cache s then (now s, s) else timer_now_forced s)"

text \<open>
  The three \<open>list_create\<close> calls of \<open>timer_init\<close> (two allocations each, the second
  only after the first), then the loop that fills the pool.
\<close>

fun init_lists :: "nat \<Rightarrow> ('cb, 'z) tstate_scheme \<Rightarrow> bool \<times> ('cb, 'z) tstate_scheme" where
  "init_lists 0 s = (True, s)"
| "init_lists (Suc k) s =
     (case malloc s of
        (None, s1) \<Rightarrow> (False, s1)
      | (Some _, s1) \<Rightarrow>
          (case malloc s1 of (None, s2) \<Rightarrow> (False, s2) | (Some _, s2) \<Rightarrow> init_lists k s2))"

fun init_pool :: "nat \<Rightarrow> ('cb, 'z) tstate_scheme \<Rightarrow> bool \<times> ('cb, 'z) tstate_scheme" where
  "init_pool 0 s = (True, s)"
| "init_pool (Suc k) s =
     (case malloc s of
        (None, s1) \<Rightarrow> (False, s1)
      | (Some a, s1) \<Rightarrow>
          (case push_timer a (passive_timers s1) (s1\<lparr>tmr := (tmr s1)(a \<mapsto> zero_timer)\<rparr>) of
             (False, _, s2) \<Rightarrow> (False, s2)
           | (True, xs, s2) \<Rightarrow> init_pool k (s2\<lparr>passive_timers := xs\<rparr>)))"

definition timer_init :: "('cb, 'z) tstate_scheme \<Rightarrow> bool \<times> ('cb, 'z) tstate_scheme" where
  "timer_init s =
     (case init_lists 3 (s\<lparr>passive_timers := [], active_timers := [], persistent_timers := []\<rparr>) of
        (False, s1) \<Rightarrow> (False, s1)
      | (True, s1) \<Rightarrow>
          (case init_pool num_timers s1 of
             (False, s2) \<Rightarrow> (False, s2)
           | (True, s2) \<Rightarrow> (case timer_now_forced s2 of (n, s3) \<Rightarrow> (True, s3\<lparr>now := n\<rparr>))))"

definition free_timers :: "nat list \<Rightarrow> ('cb, 'z) tstate_scheme \<Rightarrow> ('cb, 'z) tstate_scheme" where
  "free_timers ts s = s\<lparr>tmr := (\<lambda>a. if a \<in> set ts then None else tmr s a)\<rparr>"

definition timer_free_all :: "('cb, 'z) tstate_scheme \<Rightarrow> ('cb, 'z) tstate_scheme" where
  "timer_free_all s =
     (let s1 = (free_timers (passive_timers s) s)\<lparr>passive_timers := []\<rparr>;
          s2 = (free_timers (active_timers s1) s1)\<lparr>active_timers := []\<rparr>
      in (free_timers (persistent_timers s2) s2)\<lparr>persistent_timers := []\<rparr>)"

text \<open>
  A timeout callback gets the timer and its subject.  It runs while
  \<open>list_for_each\<close> is under way, and may schedule and cancel timers.
\<close>

type_synonym ('cb, 'z) callback =
  "'cb \<Rightarrow> nat \<Rightarrow> nat \<Rightarrow> ('cb, 'z) tstate_scheme \<Rightarrow> ('cb, 'z) tstate_scheme result"

definition timer_has_expired :: "('cb, 'z) callback \<Rightarrow> nat
    \<Rightarrow> ('cb, 'z) tstate_scheme \<Rightarrow> (bool \<times> ('cb, 'z) tstate_scheme) result" where
  "timer_has_expired cb t s =
     ebind (deref (tmr s t)) (\<lambda>ti.
       if \<not> has_expired ti then
         (case timer_now s of (n, s1) \<Rightarrow>
            if time_started ti + timeout_delay ti < n then
              ebind (deref (timeout_callback ti)) (\<lambda>f.
                ebind (cb f t (timer_subject ti)
                         (s1\<lparr>tmr := (tmr s1)(t \<mapsto> ti\<lparr>has_expired := True\<rparr>)\<rparr>)) (\<lambda>s2.
                  Inr (True, s2)))
            else Inr (False, s1))
       else Inr (False, s))"

definition timer_deactivate :: "nat \<Rightarrow> ('cb, 'z) tstate_scheme
    \<Rightarrow> (bool \<times> ('cb, 'z) tstate_scheme) result" where
  "timer_deactivate t s =
     ebind (deref (tmr s t)) (\<lambda>ti.
       if has_expired ti
       then (case push_timer t (passive_timers s) s of
               (_, xs, s1) \<Rightarrow> Inr (True, s1\<lparr>passive_timers := xs\<rparr>))
       else Inr (False, s))"

text \<open>\<open>list_remove_if_true\<close> with an action that may stop the program.\<close>

fun deactivate_loop :: "nat list \<Rightarrow> ('cb, 'z) tstate_scheme
    \<Rightarrow> (nat list \<times> ('cb, 'z) tstate_scheme) result" where
  "deactivate_loop [] s = Inr ([], s)"
| "deactivate_loop (t # ts) s =
     ebind (timer_deactivate t s) (\<lambda>(b, s1).
       ebind (deactivate_loop ts s1) (\<lambda>(us, s2). Inr (if b then us else t # us, s2)))"

definition timer_tick :: "('cb, 'z) callback \<Rightarrow> ('cb, 'z) tstate_scheme
    \<Rightarrow> ('cb, 'z) tstate_scheme result" where
  "timer_tick cb s =
     (case timer_now_forced s of (n, s1) \<Rightarrow>
        let s2 = s1\<lparr>now := n\<rparr> in
        ebind (efold (\<lambda>t u. ebind (timer_has_expired cb t u) (\<lambda>(_, v). Inr v)) (active_timers s2) s2)
          (\<lambda>s3. ebind (deactivate_loop (active_timers s3) s3) (\<lambda>(ts, s4).
            Inr (s4\<lparr>active_timers := ts\<rparr>))))"

text \<open>
  \<open>timer_schedule\<close>: the condition \<open>delay > 0 || true\<close> always selects the active
  list.  A failed \<open>list_push\<close> is ignored, as in the code: the timer is returned but
  is on no list.
\<close>

definition timer_schedule :: "'cb \<Rightarrow> nat \<Rightarrow> real \<Rightarrow> ('cb, 'z) tstate_scheme
    \<Rightarrow> nat option \<times> ('cb, 'z) tstate_scheme" where
  "timer_schedule timeout subject delay s =
     (let (a, s1) = (case passive_timers s of
                       t # ts \<Rightarrow> (Some t, s\<lparr>passive_timers := ts\<rparr>)
                     | [] \<Rightarrow> malloc s)
      in case a of
           None \<Rightarrow> (None, s1)
         | Some t \<Rightarrow>
             (let (n, s2) = timer_now s1;
                  s3 = s2\<lparr>tmr := (tmr s2)(t \<mapsto> zero_timer
                            \<lparr>timeout_callback := Some timeout, has_expired := False,
                             timer_subject := subject, time_started := n,
                             timeout_delay := delay\<rparr>)\<rparr>;
                  (b, xs, s4) = push_timer t (active_timers s3) s3
              in (Some t, s4\<lparr>active_timers := xs\<rparr>)))"

definition timer_cancel :: "nat \<Rightarrow> ('cb, 'z) tstate_scheme \<Rightarrow> ('cb, 'z) tstate_scheme result" where
  "timer_cancel t s =
     ebind (deref (tmr s t)) (\<lambda>ti. Inr (s\<lparr>tmr := (tmr s)(t \<mapsto> ti\<lparr>has_expired := True\<rparr>)\<rparr>))"

section \<open>The pool invariant\<close>

definition timers_inv :: "('cb, 'z) tstate_scheme \<Rightarrow> bool" where
  "timers_inv s \<longleftrightarrow>
     distinct (passive_timers s @ active_timers s) \<and> persistent_timers s = []
     \<and> (\<forall>t \<in> set (passive_timers s @ active_timers s). tmr s t \<noteq> None)
     \<and> (\<forall>t \<in> set (active_timers s). \<forall>ti. tmr s t = Some ti \<longrightarrow> timeout_callback ti \<noteq> None)
     \<and> (\<forall>t. tmr s t \<noteq> None \<longrightarrow> t < mallocs s)"

lemma push_timer_eq:
  "push_timer t xs s = (malloc_ok s (mallocs s), if malloc_ok s (mallocs s) then t # xs else xs,
                        s\<lparr>mallocs := Suc (mallocs s)\<rparr>)"
  by (simp add: push_timer_def malloc_def)

lemma timers_invD:
  assumes "timers_inv s"
  shows "distinct (passive_timers s)" "distinct (active_timers s)"
    "set (passive_timers s) \<inter> set (active_timers s) = {}" "persistent_timers s = []"
    "t \<in> set (passive_timers s) \<Longrightarrow> tmr s t \<noteq> None"
    "t \<in> set (active_timers s) \<Longrightarrow> tmr s t \<noteq> None"
    "t \<in> set (active_timers s) \<Longrightarrow> tmr s t = Some ti \<Longrightarrow> timeout_callback ti \<noteq> None"
    "tmr s t \<noteq> None \<Longrightarrow> t < mallocs s"
  using assms unfolding timers_inv_def by simp_all

lemma timers_inv_fresh:
  assumes "timers_inv s" "mallocs s \<le> t"
  shows "tmr s t = None" "t \<notin> set (passive_timers s)" "t \<notin> set (active_timers s)"
  using timers_invD(5,6,8) [OF assms(1), of t] assms(2) by (cases "tmr s t"; auto)+

lemma init_lists_keeps: "init_lists k s = (b, s') \<Longrightarrow> \<exists>n \<ge> mallocs s. s' = s\<lparr>mallocs := n\<rparr>"
proof (induction k arbitrary: s)
  case 0
  then show ?case by (auto intro: exI [of _ "mallocs s"])
next
  case (Suc k)
  let ?s = "s\<lparr>mallocs := Suc (Suc (mallocs s))\<rparr>"
  show ?case
  proof (cases "malloc_ok s (mallocs s) \<and> malloc_ok s (Suc (mallocs s))")
    case True
    then have "init_lists k ?s = (b, s')" using Suc.prems by (simp add: malloc_def)
    from Suc.IH [OF this] obtain n where "mallocs ?s \<le> n" "s' = ?s\<lparr>mallocs := n\<rparr>" by blast
    then show ?thesis by (intro exI [of _ n]) simp
  next
    case False
    then have "s' = s\<lparr>mallocs := Suc (mallocs s)\<rparr> \<or> s' = ?s"
      using Suc.prems by (auto simp: malloc_def split: if_splits)
    then show ?thesis
      by (auto intro: exI [of _ "Suc (mallocs s)"] exI [of _ "Suc (Suc (mallocs s))"])
  qed
qed

lemma timers_inv_alloc: "timers_inv s \<Longrightarrow> mallocs s \<le> n \<Longrightarrow> timers_inv (s\<lparr>mallocs := n\<rparr>)"
  unfolding timers_inv_def by (auto intro: less_le_trans)

lemma timers_inv_new:
  assumes "timers_inv s"
  shows "timers_inv (s\<lparr>tmr := (tmr s)(mallocs s \<mapsto> ti), mallocs := Suc (Suc (mallocs s))\<rparr>)"
proof -
  have "mallocs s \<notin> set (passive_timers s)" "mallocs s \<notin> set (active_timers s)"
    using timers_inv_fresh [OF assms order_refl] by auto
  then show ?thesis using assms by (auto simp: timers_inv_def less_Suc_eq)
qed

lemma timers_inv_pool:
  assumes "timers_inv s" "t \<notin> set (passive_timers s)" "t \<notin> set (active_timers s)" "tmr s t \<noteq> None"
  shows "timers_inv (s\<lparr>passive_timers := t # passive_timers s\<rparr>)"
  using assms by (auto simp: timers_inv_def)

lemma init_pool_inv:
  "timers_inv s \<Longrightarrow> active_timers s = [] \<Longrightarrow> init_pool k s = (b, s') \<Longrightarrow>
   timers_inv s' \<and> active_timers s' = [] \<and> (b \<longrightarrow> length (passive_timers s') = length (passive_timers s) + k)"
proof (induction k arbitrary: s)
  case (Suc k)
  let ?a = "mallocs s"
  let ?t = "s\<lparr>tmr := (tmr s)(?a \<mapsto> zero_timer), mallocs := Suc (Suc ?a)\<rparr>"
  let ?s = "?t\<lparr>passive_timers := ?a # passive_timers ?t\<rparr>"
  have new: "?a \<notin> set (passive_timers ?t)" "?a \<notin> set (active_timers ?t)"
    using timers_inv_fresh [OF Suc.prems(1) order_refl] by auto
  have inv: "timers_inv ?s"
    by (rule timers_inv_pool [OF timers_inv_new [OF Suc.prems(1)] new]) simp
  show ?case
  proof (cases "malloc_ok s ?a \<and> malloc_ok s (Suc ?a)")
    case True
    then have "init_pool k ?s = (b, s')"
      using Suc.prems(3) by (simp add: malloc_def push_timer_def)
    from Suc.IH [OF inv _ this] show ?thesis using Suc.prems(2) by simp
  next
    case False
    then have "\<not> b \<and> (s' = s\<lparr>mallocs := Suc ?a\<rparr> \<or> s' = ?t)"
      using Suc.prems(3) by (auto simp: malloc_def push_timer_def split: if_splits)
    then show ?thesis
      using timers_inv_alloc [OF Suc.prems(1), of "Suc ?a"] timers_inv_new [OF Suc.prems(1)] Suc.prems(2)
      by auto
  qed
qed simp

lemma timer_init_inv:
  assumes "timers_inv (s\<lparr>passive_timers := [], active_timers := [], persistent_timers := []\<rparr>)"
    and "timer_init s = (True, s')"
  shows "timers_inv s' \<and> length (passive_timers s') = num_timers \<and> active_timers s' = []"
proof -
  let ?s = "s\<lparr>passive_timers := [], active_timers := [], persistent_timers := []\<rparr>"
  obtain s1 where s1: "init_lists 3 ?s = (True, s1)"
    using assms(2) by (auto simp: timer_init_def split: prod.splits bool.splits)
  obtain s2 where s2: "init_pool num_timers s1 = (True, s2)"
    using assms(2) s1 by (auto simp: timer_init_def split: prod.splits bool.splits)
  obtain n where n: "mallocs ?s \<le> n" "s1 = ?s\<lparr>mallocs := n\<rparr>"
    using init_lists_keeps [OF s1] by blast
  have "timers_inv s1" unfolding n(2) by (rule timers_inv_alloc [OF assms(1) n(1)])
  from init_pool_inv [OF this _ s2] n(2)
  have "timers_inv s2" "active_timers s2 = []" "length (passive_timers s2) = num_timers" by auto
  moreover have "s' = s2\<lparr>clock_reads := Suc (clock_reads s2), now := clock s2 (clock_reads s2)\<rparr>"
    using assms(2) s1 s2 by (simp add: timer_init_def timer_now_forced_def)
  ultimately show ?thesis by (simp add: timers_inv_def)
qed

text \<open>
  What running callbacks may do to the timers that are active: nothing is unlinked,
  new timers are linked in front, and an expired timer stays expired.
\<close>

definition later :: "'cb timer \<Rightarrow> 'cb timer \<Rightarrow> bool" where
  "later ti ti' \<longleftrightarrow> time_started ti' = time_started ti \<and> timeout_delay ti' = timeout_delay ti
     \<and> (has_expired ti \<longrightarrow> has_expired ti')"

definition grows :: "('cb, 'z) tstate_scheme \<Rightarrow> ('cb, 'z) tstate_scheme \<Rightarrow> bool" where
  "grows s s' \<longleftrightarrow>
     (\<exists>new. active_timers s' = new @ active_timers s)
     \<and> now s' = now s \<and> use_timer_cache s' = use_timer_cache s
     \<and> (\<forall>t \<in> set (active_timers s). \<forall>ti. tmr s t = Some ti \<longrightarrow> (\<exists>ti'. tmr s' t = Some ti' \<and> later ti ti'))"

lemma later_refl [simp]: "later ti ti"
  by (simp add: later_def)

lemma grows_refl [simp]: "grows s s"
  by (auto simp: grows_def)

lemma growsD:
  assumes "grows s s'"
  shows "set (active_timers s) \<subseteq> set (active_timers s')" "now s' = now s"
    "use_timer_cache s' = use_timer_cache s"
    "t \<in> set (active_timers s) \<Longrightarrow> tmr s t = Some ti \<Longrightarrow> \<exists>ti'. tmr s' t = Some ti' \<and> later ti ti'"
  using assms by (auto simp: grows_def)

lemma grows_trans:
  assumes "grows s t" "grows t u"
  shows "grows s u"
proof -
  have "\<exists>new. active_timers u = new @ active_timers s"
    using assms by (auto simp: grows_def)
  moreover have "\<exists>ti'. tmr u a = Some ti' \<and> later ti ti'"
    if a: "a \<in> set (active_timers s)" "tmr s a = Some ti" for a ti
  proof -
    obtain t1 where t1: "tmr t a = Some t1" "later ti t1" using growsD(4) [OF assms(1) a] by blast
    have "a \<in> set (active_timers t)" using growsD(1) [OF assms(1)] a(1) by blast
    from growsD(4) [OF assms(2) this t1(1)] t1(2) show ?thesis by (auto simp: later_def)
  qed
  ultimately show ?thesis using growsD(2,3) [OF assms(1)] growsD(2,3) [OF assms(2)]
    by (simp add: grows_def)
qed

lemma timer_cancel_inv:
  assumes "timers_inv s" "timer_cancel t s = Inr s'"
  shows "timers_inv s' \<and> grows s s'"
proof -
  obtain ti where ti: "tmr s t = Some ti" "s' = s\<lparr>tmr := (tmr s)(t \<mapsto> ti\<lparr>has_expired := True\<rparr>)\<rparr>"
    using assms(2) by (auto simp: timer_cancel_def Inr_iff)
  have "grows s s'" using ti by (auto simp: grows_def later_def)
  moreover have "timers_inv s'" using assms(1) ti by (simp add: timers_inv_def)
  ultimately show ?thesis by simp
qed

lemma timer_now_cases:
  obtains n k where "timer_now s = (n, s\<lparr>clock_reads := k\<rparr>)" "use_timer_cache s \<Longrightarrow> n = now s"
  by (cases "use_timer_cache s")
     (auto simp: timer_now_def timer_now_forced_def intro: that [of "now s" "clock_reads s"] that)

lemma timers_inv_clock [simp]:
  "timers_inv (s\<lparr>clock_reads := k\<rparr>) = timers_inv s" "timers_inv (s\<lparr>now := r\<rparr>) = timers_inv s"
  by (simp_all add: timers_inv_def)

lemma grows_clock [simp]: "grows s (s\<lparr>clock_reads := k\<rparr>)"
  by (auto simp: grows_def)

text \<open>
  The three ways \<open>timer_schedule\<close> ends: no memory, a scheduled timer, or a timer
  whose list node could not be allocated.
\<close>

lemma timer_schedule_cases:
  assumes "timers_inv s" "timer_schedule f x d s = (r, s')"
  obtains (no_memory) "r = None" "passive_timers s = []" "s' = s\<lparr>mallocs := Suc (mallocs s)\<rparr>"
  | (scheduled) t n k m b where "r = Some t" "t \<notin> set (active_timers s)" "mallocs s \<le> m" "t < m"
      "use_timer_cache s \<Longrightarrow> n = now s" "tmr s t = None \<longrightarrow> mallocs s \<le> t"
      "s' = s\<lparr>passive_timers := filter (\<lambda>u. u \<noteq> t) (passive_timers s), clock_reads := k, mallocs := m,
              tmr := (tmr s)(t \<mapsto> \<lparr>time_started = n, timeout_delay = d, has_expired = False,
                                    timeout_callback = Some f, timer_subject = x\<rparr>),
              active_timers := (if b then t # active_timers s else active_timers s)\<rparr>"
proof (cases "passive_timers s")
  case Nil
  obtain n k where now: "timer_now (s\<lparr>mallocs := Suc (mallocs s)\<rparr>)
      = (n, s\<lparr>mallocs := Suc (mallocs s), clock_reads := k\<rparr>)" "use_timer_cache s \<Longrightarrow> n = now s"
    using timer_now_cases [of "s\<lparr>mallocs := Suc (mallocs s)\<rparr>"] by simp metis
  show ?thesis
  proof (cases "malloc_ok s (mallocs s)")
    case True
    let ?m = "Suc (mallocs s)"
    show ?thesis
      by (rule scheduled [where t = "mallocs s" and m = "Suc ?m" and n = n and k = k and b = "malloc_ok s ?m"])
         (use assms(2) Nil True now timers_inv_fresh [OF assms(1) order_refl] in
           \<open>auto simp: timer_schedule_def malloc_def push_timer_eq zero_timer_def Let_def\<close>)
  next
    case False
    show ?thesis
      by (rule no_memory) (use assms(2) Nil False in \<open>auto simp: timer_schedule_def malloc_def\<close>)
  qed
next
  case (Cons t ts)
  obtain n k where now: "timer_now (s\<lparr>passive_timers := ts\<rparr>)
      = (n, s\<lparr>passive_timers := ts, clock_reads := k\<rparr>)" "use_timer_cache s \<Longrightarrow> n = now s"
    using timer_now_cases [of "s\<lparr>passive_timers := ts\<rparr>"] by simp metis
  have t: "t \<notin> set ts" "t \<notin> set (active_timers s)" "tmr s t \<noteq> None"
    using timers_invD(1,3,5) [OF assms(1)] Cons by auto
  then have "filter (\<lambda>u. u \<noteq> t) ts = ts" by (auto simp: filter_id_conv)
  show ?thesis
    by (rule scheduled [where t = t and m = "Suc (mallocs s)" and n = n and k = k
          and b = "malloc_ok s (mallocs s)"])
       (use assms(2) Cons now t timers_invD(8) [OF assms(1), of t] \<open>filter _ _ = _\<close> in
         \<open>auto simp: timer_schedule_def malloc_def push_timer_eq zero_timer_def Let_def\<close>)
qed

lemma timer_schedule_inv:
  assumes "timers_inv s" "timer_schedule f x d s = (r, s')"
  shows "timers_inv s' \<and> grows s s'"
  using assms
proof (cases rule: timer_schedule_cases)
  case no_memory
  then show ?thesis using timers_inv_alloc [OF assms(1), of "Suc (mallocs s)"] by (auto simp: grows_def)
next
  case (scheduled t n k m b)
  then show ?thesis using assms(1) unfolding timers_inv_def grows_def
    by (auto intro: less_le_trans)
qed

section \<open>What a tick does\<close>

lemma timer_deactivate_cases:
  assumes "timer_deactivate t s = Inr (b, s')"
  obtains (kept) ti where "tmr s t = Some ti" "\<not> has_expired ti" "\<not> b" "s' = s"
  | (moved) ti p where "tmr s t = Some ti" "has_expired ti" "b"
      "p = passive_timers s \<or> p = t # passive_timers s"
      "s' = s\<lparr>passive_timers := p, mallocs := Suc (mallocs s)\<rparr>"
proof -
  obtain ti where ti: "tmr s t = Some ti" "b = has_expired ti"
    using assms by (auto simp: timer_deactivate_def Inr_iff split: if_splits prod.splits)
  show ?thesis
  proof (cases b)
    case False
    then have "timer_deactivate t s = Inr (False, s)" using ti by (simp add: timer_deactivate_def)
    then have "\<not> b" "s' = s" using assms by auto
    then show ?thesis using kept [OF ti(1)] ti(2) by blast
  next
    case True
    let ?p = "if malloc_ok s (mallocs s) then t # passive_timers s else passive_timers s"
    have "has_expired ti" using ti True by simp
    then have "timer_deactivate t s = Inr (True, s\<lparr>passive_timers := ?p, mallocs := Suc (mallocs s)\<rparr>)"
      using ti(1) by (simp add: timer_deactivate_def push_timer_eq)
    then have "s' = s\<lparr>passive_timers := ?p, mallocs := Suc (mallocs s)\<rparr>" using assms by simp
    moreover have "?p = passive_timers s \<or> ?p = t # passive_timers s" by simp
    ultimately show ?thesis using moved [OF ti(1) \<open>has_expired ti\<close> True] by blast
  qed
qed

lemma timers_inv_move:
  assumes "timers_inv (s\<lparr>active_timers := t # ts\<rparr>)" "p = passive_timers s \<or> p = t # passive_timers s"
  shows "timers_inv (s\<lparr>passive_timers := p, mallocs := Suc (mallocs s), active_timers := ts\<rparr>)"
  using assms(2)
proof
  assume "p = passive_timers s"
  then show ?thesis using assms(1) by (auto simp: timers_inv_def less_Suc_eq)
next
  assume "p = t # passive_timers s"
  then show ?thesis using assms(1) by (auto simp: timers_inv_def less_Suc_eq)
qed

lemma timers_inv_tail:
  "timers_inv (s\<lparr>active_timers := t # ts\<rparr>) \<Longrightarrow> timers_inv (s\<lparr>active_timers := ts\<rparr>)"
  by (auto simp: timers_inv_def)

lemma deactivate_loop_inv:
  assumes "timers_inv (s\<lparr>active_timers := ts\<rparr>)" "deactivate_loop ts s = Inr (us, s')"
  shows "timers_inv (s'\<lparr>active_timers := us\<rparr>)
     \<and> (\<exists>p m. s' = s\<lparr>passive_timers := p, mallocs := m\<rparr> \<and> set p \<subseteq> set (passive_timers s) \<union> set ts)
     \<and> us = filter (\<lambda>t. \<not> has_expired (the (tmr s t))) ts"
  using assms
proof (induction ts arbitrary: s us)
  case Nil
  then show ?case
    by (auto intro!: exI [of _ "passive_timers s'"] exI [of _ "mallocs s'"])
next
  case (Cons t ts)
  obtain b s1 vs where step: "timer_deactivate t s = Inr (b, s1)" "deactivate_loop ts s1 = Inr (vs, s')"
      "us = (if b then vs else t # vs)"
    using Cons.prems(2) by (auto simp: Inr_iff)
  from step(1) show ?case
  proof (cases rule: timer_deactivate_cases)
    case (kept ti)
    have "timers_inv (s1\<lparr>active_timers := ts\<rparr>)" using timers_inv_tail Cons.prems(1) kept(4) by blast
    from Cons.IH [OF this step(2)] obtain p m where
      IH: "timers_inv (s'\<lparr>active_timers := vs\<rparr>)" "s' = s\<lparr>passive_timers := p, mallocs := m\<rparr>"
        "set p \<subseteq> set (passive_timers s) \<union> set ts"
        "vs = filter (\<lambda>t. \<not> has_expired (the (tmr s t))) ts" using kept(4) by blast
    have t: "t \<notin> set p" "t \<notin> set vs" "timeout_callback ti \<noteq> None"
      using Cons.prems(1) kept(1) IH(3,4) by (auto simp: timers_inv_def)
    then have "timers_inv (s'\<lparr>active_timers := t # vs\<rparr>)"
      using IH(1,2) kept(1) by (auto simp: timers_inv_def)
    then show ?thesis using IH(2-4) step(3) kept(1-3) by auto
  next
    case (moved ti p1)
    have "timers_inv (s1\<lparr>active_timers := ts\<rparr>)"
      using timers_inv_move [OF Cons.prems(1) moved(4)] moved(5) by simp
    from Cons.IH [OF this step(2)] obtain p m where
      IH: "timers_inv (s'\<lparr>active_timers := vs\<rparr>)" "s' = s\<lparr>passive_timers := p, mallocs := m\<rparr>"
        "set p \<subseteq> set p1 \<union> set ts"
        "vs = filter (\<lambda>t. \<not> has_expired (the (tmr s t))) ts" using moved(5) by auto
    have "set p \<subseteq> set (passive_timers s) \<union> set (t # ts)" using IH(3) moved(4) by auto
    then show ?thesis using IH(1,2,4) step(3) moved(1-3) by auto
  qed
qed

text \<open>
  The contract of a timeout callback: it keeps the invariant and lets the list of
  active timers only grow at its head.  \<open>timer_schedule\<close> and \<open>timer_cancel\<close> have it,
  and so has everything built from them.
\<close>

locale timer_callbacks =
  fixes cb :: "('cb, 'z) callback"
  assumes cb_law: "timers_inv s \<Longrightarrow> cb f t x s = Inr s' \<Longrightarrow> timers_inv s' \<and> grows s s'"
begin

lemma timer_has_expired_inv:
  assumes "timers_inv s" "t \<in> set (active_timers s)" "timer_has_expired cb t s = Inr (b, s')"
  shows "timers_inv s' \<and> grows s s'
     \<and> (\<forall>ti. use_timer_cache s \<longrightarrow> tmr s t = Some ti \<longrightarrow> time_started ti + timeout_delay ti < now s
          \<longrightarrow> (\<exists>ti'. tmr s' t = Some ti' \<and> has_expired ti'))"
proof -
  obtain ti where ti: "tmr s t = Some ti" using timers_invD(6) [OF assms(1,2)] by blast
  obtain n k where n: "timer_now s = (n, s\<lparr>clock_reads := k\<rparr>)" "use_timer_cache s \<Longrightarrow> n = now s"
    using timer_now_cases [of s] by metis
  consider (old) "has_expired ti" "s' = s"
    | (late) "\<not> time_started ti + timeout_delay ti < n" "s' = s\<lparr>clock_reads := k\<rparr>"
    | (fire) f where "timeout_callback ti = Some f" "cb f t (timer_subject ti)
         (s\<lparr>clock_reads := k, tmr := (tmr s)(t \<mapsto> ti\<lparr>has_expired := True\<rparr>)\<rparr>) = Inr s'"
    using assms(3) ti n(1) by (auto simp: timer_has_expired_def Inr_iff split: if_splits)
  then show ?thesis
  proof cases
    case old
    then show ?thesis using assms(1) ti by simp
  next
    case late
    then show ?thesis using assms(1) ti n(2) by auto
  next
    case fire
    let ?s = "s\<lparr>clock_reads := k, tmr := (tmr s)(t \<mapsto> ti\<lparr>has_expired := True\<rparr>)\<rparr>"
    have s: "timers_inv ?s" "grows s ?s"
      using assms(1,2) ti fire(1) by (auto simp: timers_inv_def grows_def later_def)
    from cb_law [OF s(1) fire(2)] have s': "timers_inv s'" "grows ?s s'" by auto
    have "\<exists>ti'. tmr s' t = Some ti' \<and> later (ti\<lparr>has_expired := True\<rparr>) ti'"
      by (rule growsD(4) [OF s'(2)]) (use assms(2) in auto)
    then show ?thesis using s' grows_trans [OF s(2) s'(2)] by (auto simp: later_def)
  qed
qed

lemma expire_fold_inv:
  assumes "timers_inv s" "set ts \<subseteq> set (active_timers s)"
    and "efold (\<lambda>t u. ebind (timer_has_expired cb t u) (\<lambda>(_, v). Inr v)) ts s = Inr s'"
  shows "timers_inv s' \<and> grows s s'
     \<and> (\<forall>t \<in> set ts. \<forall>ti. use_timer_cache s \<longrightarrow> tmr s t = Some ti
          \<longrightarrow> time_started ti + timeout_delay ti < now s
          \<longrightarrow> (\<exists>ti'. tmr s' t = Some ti' \<and> has_expired ti'))"
  using assms
proof (induction ts arbitrary: s)
  case Nil
  then show ?case by simp
next
  case (Cons t ts)
  obtain b s1 where step: "timer_has_expired cb t s = Inr (b, s1)"
    "efold (\<lambda>t u. ebind (timer_has_expired cb t u) (\<lambda>(_, v). Inr v)) ts s1 = Inr s'"
    using Cons.prems(3) by (auto simp: Inr_iff)
  have s1: "timers_inv s1" "grows s s1" "\<And>ti. use_timer_cache s \<Longrightarrow> tmr s t = Some ti \<Longrightarrow>
      time_started ti + timeout_delay ti < now s \<Longrightarrow> \<exists>ti'. tmr s1 t = Some ti' \<and> has_expired ti'"
    using timer_has_expired_inv [OF Cons.prems(1) _ step(1)] Cons.prems(2) by auto
  have act: "set ts \<subseteq> set (active_timers s1)" "t \<in> set (active_timers s1)"
    using Cons.prems(2) growsD(1) [OF s1(2)] by auto
  have IH: "timers_inv s'" "grows s1 s'" "\<And>u ti. u \<in> set ts \<Longrightarrow> use_timer_cache s1 \<Longrightarrow> tmr s1 u = Some ti
      \<Longrightarrow> time_started ti + timeout_delay ti < now s1 \<Longrightarrow> \<exists>ti'. tmr s' u = Some ti' \<and> has_expired ti'"
    using Cons.IH [OF s1(1) act(1) step(2)] by auto
  have "\<exists>ti'. tmr s' u = Some ti' \<and> has_expired ti'"
    if u: "u \<in> set (t # ts)" "use_timer_cache s" "tmr s u = Some ti"
      "time_started ti + timeout_delay ti < now s" for u ti
  proof (cases "u \<in> set ts")
    case True
    obtain t1 where t1: "tmr s1 u = Some t1" "later ti t1"
      using growsD(4) [OF s1(2) _ u(3)] True Cons.prems(2) by auto
    show ?thesis
      using IH(3) [OF True _ t1(1)] u(2,4) t1(2) growsD(2,3) [OF s1(2)] by (simp add: later_def)
  next
    case False
    then obtain t1 where t1: "tmr s1 u = Some t1" "has_expired t1" using s1(3) u by auto
    have "u \<in> set (active_timers s1)" using False u(1) act(2) by auto
    from growsD(4) [OF IH(2) this t1(1)] t1(2) show ?thesis by (auto simp: later_def)
  qed
  then show ?case using IH(1) grows_trans [OF s1(2) IH(2)] by blast
qed

lemma timer_tick_inv:
  assumes "timers_inv s" "timer_tick cb s = Inr s'"
  shows "timers_inv s'"
    and "t \<in> set (active_timers s') \<Longrightarrow> tmr s' t = Some ti \<Longrightarrow> \<not> has_expired ti"
    and "use_timer_cache s \<Longrightarrow> t \<in> set (active_timers s) \<Longrightarrow> tmr s t = Some ti \<Longrightarrow>
         has_expired ti \<or> time_started ti + timeout_delay ti < clock s (clock_reads s) \<Longrightarrow>
         t \<notin> set (active_timers s')"
proof -
  let ?s = "s\<lparr>clock_reads := Suc (clock_reads s), now := clock s (clock_reads s)\<rparr>"
  obtain s3 ts s4 where run:
    "efold (\<lambda>t u. ebind (timer_has_expired cb t u) (\<lambda>(_, v). Inr v)) (active_timers ?s) ?s = Inr s3"
    "deactivate_loop (active_timers s3) s3 = Inr (ts, s4)" "s' = s4\<lparr>active_timers := ts\<rparr>"
    using assms(2) by (auto simp: timer_tick_def timer_now_forced_def Let_def Inr_iff)
  have s3: "timers_inv s3" "grows ?s s3" "\<And>t ti. t \<in> set (active_timers s) \<Longrightarrow> use_timer_cache s \<Longrightarrow>
      tmr s t = Some ti \<Longrightarrow> time_started ti + timeout_delay ti < clock s (clock_reads s) \<Longrightarrow>
      \<exists>ti'. tmr s3 t = Some ti' \<and> has_expired ti'"
    using expire_fold_inv [OF _ order_refl run(1)] assms(1) by auto
  have act3: "timers_inv (s3\<lparr>active_timers := active_timers s3\<rparr>)" using s3(1) by simp
  from deactivate_loop_inv [OF act3 run(2)] obtain p m where
    d: "timers_inv (s4\<lparr>active_timers := ts\<rparr>)" "s4 = s3\<lparr>passive_timers := p, mallocs := m\<rparr>"
      "ts = filter (\<lambda>t. \<not> has_expired (the (tmr s3 t))) (active_timers s3)" by blast
  show "timers_inv s'" using d(1) run(3) by simp
  show "t \<in> set (active_timers s') \<Longrightarrow> tmr s' t = Some ti \<Longrightarrow> \<not> has_expired ti"
    using d(2,3) run(3) by auto
  show "t \<notin> set (active_timers s')" if t: "use_timer_cache s" "t \<in> set (active_timers s)"
    "tmr s t = Some ti" "has_expired ti \<or> time_started ti + timeout_delay ti < clock s (clock_reads s)"
  proof -
    have "\<exists>ti'. tmr s3 t = Some ti' \<and> later ti ti'"
      by (rule growsD(4) [OF s3(2)]) (use t in auto)
    then have "\<exists>ti'. tmr s3 t = Some ti' \<and> has_expired ti'"
      using t s3(3) by (auto simp: later_def)
    then show ?thesis using d(3) run(3) by auto
  qed
qed

end

section \<open>Which callbacks a tick runs\<close>

text \<open>
  \<open>due n s t\<close>: timer \<open>t\<close> is neither cancelled nor already fired and its delay has
  passed at time \<open>n\<close>.
\<close>

definition due :: "real \<Rightarrow> ('cb, 'z) tstate_scheme \<Rightarrow> nat \<Rightarrow> bool" where
  "due n s t = (case tmr s t of None \<Rightarrow> False
                | Some ti \<Rightarrow> \<not> has_expired ti \<and> time_started ti + timeout_delay ti < n)"

definition fire :: "('cb \<Rightarrow> nat \<Rightarrow> 'z \<Rightarrow> 'z) \<Rightarrow> ('cb, 'z) tstate_scheme \<Rightarrow> nat \<Rightarrow> 'z \<Rightarrow> 'z" where
  "fire g s t = (case tmr s t of None \<Rightarrow> id
                 | Some ti \<Rightarrow> g (the (timeout_callback ti)) (timer_subject ti))"

definition expire :: "nat \<Rightarrow> ('cb, 'z) tstate_scheme \<Rightarrow> ('cb, 'z) tstate_scheme" where
  "expire t s = s\<lparr>tmr := (tmr s)(t := map_option (has_expired_update (\<lambda>_. True)) (tmr s t))\<rparr>"

lemma timer_has_expired_pure:
  assumes "\<And>f t x u. cb f t x u = Inr (tstate.more_update (g f x) u)"
    and "tmr s t = Some ti" "timeout_callback ti \<noteq> None" "use_timer_cache s"
  shows "ebind (timer_has_expired cb t s) (\<lambda>(_, v). Inr v) =
     (if due (now s) s t then Inr (tstate.more_update (fire g s t) (expire t s)) else Inr s)"
  using assms by (auto simp: timer_has_expired_def timer_now_def due_def fire_def expire_def)

lemma expire_more: "expire t (tstate.more_update h s) = tstate.more_update h (expire t s)"
  by (rule tstate.equality) (simp_all add: expire_def)

lemma expire_fold_pure:
  assumes "\<And>f t x u. cb f t x u = Inr (tstate.more_update (g f x) u)"
    and "use_timer_cache s" "distinct ts"
    and "\<forall>t \<in> set ts. \<exists>ti. tmr s t = Some ti \<and> timeout_callback ti \<noteq> None"
  shows "efold (\<lambda>t u. ebind (timer_has_expired cb t u) (\<lambda>(_, v). Inr v)) ts s =
     Inr (tstate.more_update (fold (fire g s) (filter (due (now s) s) ts))
            (fold expire (filter (due (now s) s) ts) s))"
  using assms(2-)
proof (induction ts arbitrary: s)
  case Nil
  then show ?case by simp
next
  case (Cons t ts)
  let ?u = "tstate.more_update (fire g s t) (expire t s)"
  have same: "\<And>v. v \<in> set ts \<Longrightarrow> due (now s) ?u v = due (now s) s v"
      "\<And>v. v \<in> set ts \<Longrightarrow> fire g ?u v = fire g s v"
    using Cons.prems(2) by (auto simp: due_def fire_def expire_def)
  have more: "fold expire us (tstate.more_update h w) = tstate.more_update h (fold expire us w)" for us h w
    by (induction us arbitrary: w) (simp_all add: expire_more)
  have step: "ebind (timer_has_expired cb t s) (\<lambda>(_, v). Inr v) = (if due (now s) s t then Inr ?u else Inr s)"
    using timer_has_expired_pure [OF assms(1)] Cons.prems(1,3) by auto
  show ?case
  proof (cases "due (now s) s t")
    case True
    have now: "now ?u = now s" "use_timer_cache ?u" using Cons.prems(1) by (simp_all add: expire_def)
    have "efold (\<lambda>t u. ebind (timer_has_expired cb t u) (\<lambda>(_, v). Inr v)) ts ?u =
       Inr (tstate.more_update (fold (fire g ?u) (filter (due (now ?u) ?u) ts))
              (fold expire (filter (due (now ?u) ?u) ts) ?u))"
      by (rule Cons.IH) (use now Cons.prems in \<open>auto simp: expire_def\<close>)
    moreover have "filter (due (now ?u) ?u) ts = filter (due (now s) s) ts"
      unfolding now(1) by (rule filter_cong [OF refl same(1)])
    moreover have "fold (fire g ?u) (filter (due (now s) s) ts) = fold (fire g s) (filter (due (now s) s) ts)"
      by (rule ext, rule fold_cong) (use same(2) in auto)
    ultimately show ?thesis using step True by (simp add: more o_def)
  next
    case False
    then show ?thesis using step Cons by auto
  qed
qed

lemma fold_expire:
  "fold expire us s = s\<lparr>tmr := (\<lambda>t. if t \<in> set us then map_option (has_expired_update (\<lambda>_. True)) (tmr s t)
                                  else tmr s t)\<rparr>"
proof (induction us arbitrary: s)
  case (Cons u us)
  show ?case unfolding fold.simps o_apply Cons.IH
    by (rule tstate.equality) (auto simp: expire_def option.map_comp o_def)
qed simp

lemma deactivate_loop_total:
  "\<forall>t \<in> set ts. tmr s t \<noteq> None \<Longrightarrow> \<exists>us s'. deactivate_loop ts s = Inr (us, s') \<and> tstate.more s' = tstate.more s"
proof (induction ts arbitrary: s)
  case (Cons t ts)
  then obtain ti where ti: "tmr s t = Some ti" by auto
  then obtain b s1 where s1: "timer_deactivate t s = Inr (b, s1)"
    by (cases "has_expired ti") (auto simp: timer_deactivate_def push_timer_eq)
  then have "tmr s1 = tmr s" "tstate.more s1 = tstate.more s"
    by (auto elim: timer_deactivate_cases)
  then show ?case using Cons.IH [of s1] Cons.prems s1 by auto
qed simp

lemma timer_tick_pure:
  assumes cb: "\<And>f t x u. cb f t x u = Inr (tstate.more_update (g f x) u)"
    and inv: "timers_inv s" and cache: "use_timer_cache s"
  defines "n \<equiv> clock s (clock_reads s)"
  shows "\<exists>s'. timer_tick cb s = Inr s'
     \<and> tstate.more s' = fold (fire g s) (filter (due n s) (active_timers s)) (tstate.more s)
     \<and> active_timers s' = filter (\<lambda>t. \<not> due n s t \<and> \<not> has_expired (the (tmr s t))) (active_timers s)"
proof -
  let ?s = "s\<lparr>clock_reads := Suc (clock_reads s), now := n\<rparr>"
  let ?d = "filter (due n s) (active_timers s)"
  let ?s3 = "tstate.more_update (fold (fire g s) ?d) (fold expire ?d ?s)"
  have eq: "due (now ?s) ?s = due n s" "fire g ?s = fire g s"
    by (auto simp: due_def fire_def fun_eq_iff)
  have alloc: "\<forall>t \<in> set (active_timers s). \<exists>ti. tmr ?s t = Some ti \<and> timeout_callback ti \<noteq> None"
  proof
    fix t assume t: "t \<in> set (active_timers s)"
    from timers_invD(6) [OF inv t] obtain ti where "tmr s t = Some ti" by blast
    with timers_invD(7) [OF inv t this] show "\<exists>ti. tmr ?s t = Some ti \<and> timeout_callback ti \<noteq> None" by auto
  qed
  have run: "efold (\<lambda>t u. ebind (timer_has_expired cb t u) (\<lambda>(_, v). Inr v)) (active_timers ?s) ?s = Inr ?s3"
    using expire_fold_pure [where g = g and cb = cb, OF cb _ timers_invD(2) [OF inv] alloc] cache unfolding eq by simp
  have s3: "active_timers ?s3 = active_timers s" "timers_inv ?s3"
      "tstate.more ?s3 = fold (fire g s) ?d (tstate.more s)"
      "\<And>t. tmr ?s3 t = (if t \<in> set ?d then map_option (has_expired_update (\<lambda>_. True)) (tmr s t) else tmr s t)"
    using inv by (auto simp: fold_expire timers_inv_def)
  obtain ts s4 where d: "deactivate_loop (active_timers ?s3) ?s3 = Inr (ts, s4)"
    "tstate.more s4 = tstate.more ?s3"
    using deactivate_loop_total [of "active_timers ?s3" ?s3] timers_invD(6) [OF s3(2)] by blast
  have "ts = filter (\<lambda>t. \<not> has_expired (the (tmr ?s3 t))) (active_timers ?s3)"
    using deactivate_loop_inv [OF _ d(1)] s3(2) by simp
  also have "\<dots> = filter (\<lambda>t. \<not> due n s t \<and> \<not> has_expired (the (tmr s t))) (active_timers s)"
    unfolding s3(1)
  proof (rule filter_cong [OF refl])
    fix t assume "t \<in> set (active_timers s)"
    then obtain ti where "tmr s t = Some ti" using timers_invD(6) [OF inv] by blast
    then show "(\<not> has_expired (the (tmr ?s3 t))) = (\<not> due n s t \<and> \<not> has_expired (the (tmr s t)))"
      using \<open>t \<in> set (active_timers s)\<close> unfolding s3(4) by (auto simp: due_def)
  qed
  finally have ts: "ts = filter (\<lambda>t. \<not> due n s t \<and> \<not> has_expired (the (tmr s t))) (active_timers s)" .
  have "timer_tick cb s = Inr (s4\<lparr>active_timers := ts\<rparr>)"
    using run d(1) by (simp add: timer_tick_def timer_now_forced_def n_def Let_def)
  then show ?thesis using d(2) s3(3) ts by simp
qed

section \<open>Properties\<close>



definition every_second :: "(nat, unit) callback" where
  "every_second f t x s = Inr (snd (timer_schedule f x 1 s))"

definition started_timers :: "nat tstate" where
  "started_timers = \<lparr>tmr = [0 \<mapsto> zero_timer\<lparr>timeout_callback := Some 8, timeout_delay := 1\<rparr>,
                            1 \<mapsto> zero_timer\<lparr>timeout_callback := Some 9, timeout_delay := 3\<rparr>,
                            2 \<mapsto> zero_timer],
     passive_timers = [2], active_timers = [1, 0], persistent_timers = [], now = 0,
     use_timer_cache = True, clock = (\<lambda>_. 2), clock_reads = 0, malloc_ok = (\<lambda>_. True), mallocs = 3\<rparr>"

lemma started_timers_inv: "timers_inv started_timers"
  by (auto simp: timers_inv_def started_timers_def zero_timer_def)


lemma every_second_callbacks: "timer_callbacks every_second"
proof
  fix s s' :: "nat tstate" and f t x :: nat
  assume s: "timers_inv s" "every_second f t x s = Inr s'"
  obtain r where "timer_schedule f x 1 s = (r, s')"
    using s(2) by (cases "timer_schedule f x 1 s") (simp add: every_second_def)
  from timer_schedule_inv [OF s(1) this] show "timers_inv s' \<and> grows s s'" .
qed


end
