(* ===== verification/Private_Data.thy ===== *)
theory Private_Data
  imports Prelude
begin

text \<open>
  The private data that the workload generators and statistics collectors keep inside
  the objects of the core: the structures \<open>Conn_Private_Data\<close>, \<open>Call_Private_Data\<close> and
  \<open>Sess_Private_Data\<close> of \<^verbatim>\<open>src/src/gen\<close> and \<^verbatim>\<open>src/src/stat\<close>.  Each module reserves its
  own area with \<open>object_expand\<close>; the areas do not overlap (theory Objects), so that they
  are the fields of one record for each kind of object, prefixed by their module.
  \<open>object_new\<close> clears them with the rest of the object.
\<close>

section \<open>gen/session.c\<close>

abbreviation (input) max_conn :: nat where "max_conn \<equiv> 4"
abbreviation (input) max_piped_calls :: nat where "max_piped_calls \<equiv> 32"

text \<open>\<open>struct Conn_Info\<close>: a connection of a session and its ring buffer of pending calls.\<close>

record conn_info =
  ci_conn :: "nat option"
  is_connected :: bool
  is_successful :: bool
  num_pending :: u32
  num_sent :: u32
  ci_rd :: u32
  ci_wr :: u32
  ci_call :: "nat option list"

definition zero_conn_info :: conn_info where
  "zero_conn_info = \<lparr>ci_conn = None, is_connected = False, is_successful = False, num_pending = 0,
     num_sent = 0, ci_rd = 0, ci_wr = 0, ci_call = replicate max_piped_calls None\<rparr>"

section \<open>gen/wsesslog.c\<close>

text \<open>
  The request and burst descriptors are linked lists that never change after the file
  was parsed: a pointer to an element is the list from that element on.
\<close>

record req =
  rq_method :: nat
  rq_uri :: string
  rq_contents :: string
  rq_extra_hdrs :: string

record burst =
  user_think_time :: real
  req_list :: "req list"

section \<open>gen/wsesspage.c\<close>

datatype html_state = P_INITIAL | P_HTML | P_CMD | P_DASH_ONE | P_DASH_TWO | P_RANGLE
  | P_SRC | P_DATA | P_LQUOTE | P_NAKED_URI | P_QUOTED_URI

abbreviation (input) html_buf_size :: nat where "html_buf_size \<equiv> 1024"

section \<open>The structures of the modules\<close>

text \<open>\<open>gen/call_seq.c\<close>\<close>

record cs_conn =
  cs_num_calls :: int
  cs_num_completed :: int
  cs_num_destroyed :: int

text \<open>\<open>gen/session.c\<close>; the pointer to a \<open>Conn_Info\<close> is its session and its index.\<close>

record sn_sess =
  conn_infos :: "conn_info list"

record sn_conn =
  cn_sess :: "nat option"
  cn_ci :: "(nat \<times> nat) option"

record sn_call =
  ca_sess :: "nat option"

text \<open>\<open>gen/sess_cookie.c\<close>; a cookie is kept without its terminator.\<close>

record ck_sess =
  cookie_len :: nat
  cookie :: string

record ck_call =
  cookie_present :: bool
  ca_cookie :: string

text \<open>\<open>gen/wsess.c\<close>\<close>

record ws_sess =
  ws_calls_in_this_burst :: u32
  ws_calls_target :: u32
  ws_calls_destroyed :: u32
  ws_timer :: "nat option"

text \<open>\<open>gen/wsesslog.c\<close>\<close>

record wl_sess =
  wl_calls_in_this_burst :: u32
  wl_calls_target :: u32
  wl_calls_destroyed :: u32
  wl_timer :: "nat option"
  wl_total_num_reqs :: int
  wl_current_burst :: "burst list"
  wl_current_req :: "req list"

text \<open>\<open>gen/wsesspage.c\<close>\<close>

record pg_call =
  html_state :: html_state
  html_len :: nat
  html_buf :: string
  to_free :: "string option"

record pg_sess =
  pg_num_created :: u32
  pg_num_destroyed :: u32
  pg_num_reqs_completed :: u32
  pg_timer :: "nat option"
  pg_uri_list :: "string list"

text \<open>\<open>stat/print_reply.c\<close>: \<open>pr_line\<close> holds the \<open>len\<close> characters in use of the \<open>size\<close> allocated.\<close>

record pr_call =
  done_with_reply_hdr :: bool
  pr_size :: nat
  pr_line :: string

text \<open>\<open>stat/sess_stat.c\<close>\<close>

record ss_sess =
  ss_calls_completed :: u32
  ss_num_conns :: u32
  ss_birth_time :: real

section \<open>The private areas of an object\<close>

record conn_private =
  cs_conn :: cs_conn
  sn_conn :: sn_conn

record call_private =
  sn_call :: sn_call
  ck_call :: ck_call
  wset_uri :: string
  pg_call :: pg_call
  pr_call :: pr_call

record sess_private =
  sn_sess :: sn_sess
  ck_sess :: ck_sess
  ws_sess :: ws_sess
  wl_sess :: wl_sess
  pg_sess :: pg_sess
  ss_sess :: ss_sess

definition zero_conn_private :: conn_private where
  "zero_conn_private = \<lparr>
     cs_conn = \<lparr>cs_num_calls = 0, cs_num_completed = 0, cs_num_destroyed = 0\<rparr>,
     sn_conn = \<lparr>cn_sess = None, cn_ci = None\<rparr>\<rparr>"

definition zero_call_private :: call_private where
  "zero_call_private = \<lparr>
     sn_call = \<lparr>ca_sess = None\<rparr>, ck_call = \<lparr>cookie_present = False, ca_cookie = []\<rparr>, wset_uri = [],
     pg_call = \<lparr>html_state = P_INITIAL, html_len = 0, html_buf = replicate html_buf_size NUL, to_free = None\<rparr>,
     pr_call = \<lparr>done_with_reply_hdr = False, pr_size = 0, pr_line = []\<rparr>\<rparr>"

definition zero_sess_private :: sess_private where
  "zero_sess_private = \<lparr>
     sn_sess = \<lparr>conn_infos = replicate max_conn zero_conn_info\<rparr>,
     ck_sess = \<lparr>cookie_len = 0, cookie = []\<rparr>,
     ws_sess = \<lparr>ws_calls_in_this_burst = 0, ws_calls_target = 0, ws_calls_destroyed = 0, ws_timer = None\<rparr>,
     wl_sess = \<lparr>wl_calls_in_this_burst = 0, wl_calls_target = 0, wl_calls_destroyed = 0, wl_timer = None,
       wl_total_num_reqs = 0, wl_current_burst = [], wl_current_req = []\<rparr>,
     pg_sess = \<lparr>pg_num_created = 0, pg_num_destroyed = 0, pg_num_reqs_completed = 0, pg_timer = None,
       pg_uri_list = []\<rparr>,
     ss_sess = \<lparr>ss_calls_completed = 0, ss_num_conns = 0, ss_birth_time = 0\<rparr>\<rparr>"

end
