(* ===== verification/Data_Model.thy ===== *)
theory Data_Model
  imports Timer Private_Data
begin

text \<open>
  The data of the core: \<^verbatim>\<open>object.h\<close>, \<^verbatim>\<open>call.h\<close>, \<^verbatim>\<open>conn.h\<close>, \<^verbatim>\<open>sess.h\<close>,
  \<^verbatim>\<open>localevent.h\<close>, \<^verbatim>\<open>httperf.h\<close> and the file-scope variables of \<^verbatim>\<open>core.c\<close>,
  \<^verbatim>\<open>object.c\<close> and \<^verbatim>\<open>conn.c\<close>.

  An object is an address; its \<open>struct Object\<close> header, and its \<open>Conn\<close>, \<open>Call\<close> or \<open>Sess\<close>
  body, are the values of total maps at that address (the program never gives the
  memory of an object back to \<open>malloc\<close>, so an address stays readable after its
  object was destroyed).  A pointer that may be NULL is an option.  The build
  modelled is the one configured on Linux: \<open>HAVE_EPOLL\<close>, without \<open>HAVE_SSL\<close> and
  \<open>DEBUG\<close>, so \<open>DBG\<close> is 0 and the debug output is left out.

  What the kernel answers is part of the state: each system call takes the next element
  of its stream of answers; \<open>wire\<close> holds the bytes that the kernel took for each descriptor.
\<close>

section \<open>Enumerations\<close>

datatype object_type = OBJ_CONN | OBJ_CALL | OBJ_SESS

datatype conn_state =
    S_INITIAL | S_CONNECTING | S_CONNECTED | S_REPLY_STATUS | S_REPLY_HEADER
  | S_REPLY_CONTINUE | S_REPLY_DATA | S_REPLY_CHUNKED | S_REPLY_FOOTER | S_REPLY_DONE
  | S_CLOSING | S_FREE

text \<open>The code compares states with \<open><\<close> and \<open>>=\<close>: the order of the enumeration.\<close>

primrec state_num :: "conn_state \<Rightarrow> nat" where
  "state_num S_INITIAL = 0"
| "state_num S_CONNECTING = 1"
| "state_num S_CONNECTED = 2"
| "state_num S_REPLY_STATUS = 3"
| "state_num S_REPLY_HEADER = 4"
| "state_num S_REPLY_CONTINUE = 5"
| "state_num S_REPLY_DATA = 6"
| "state_num S_REPLY_CHUNKED = 7"
| "state_num S_REPLY_FOOTER = 8"
| "state_num S_REPLY_DONE = 9"
| "state_num S_CLOSING = 10"
| "state_num S_FREE = 11"

lemma state_num_inject [simp]: "state_num a = state_num b \<longleftrightarrow> a = b"
  by (cases a; cases b) simp_all

instantiation conn_state :: linorder
begin

definition less_eq_conn_state :: "conn_state \<Rightarrow> conn_state \<Rightarrow> bool" where
  "less_eq_conn_state a b \<longleftrightarrow> state_num a \<le> state_num b"

definition less_conn_state :: "conn_state \<Rightarrow> conn_state \<Rightarrow> bool" where
  "less_conn_state a b \<longleftrightarrow> state_num a < state_num b"

instance
  by standard (auto simp: less_eq_conn_state_def less_conn_state_def)

end

lemmas conn_state_order [simp] = less_eq_conn_state_def less_conn_state_def

datatype event_type =
    EV_NULL | EV_PERF_SAMPLE
  | EV_HOSTNAME_LOOKUP_START | EV_HOSTNAME_LOOKUP_STOP
  | EV_SESS_NEW | EV_SESS_FAILED | EV_SESS_DESTROYED
  | EV_CONN_NEW | EV_CONN_CONNECTING | EV_CONN_CONNECTED | EV_CONN_CLOSE
  | EV_CONN_DESTROYED | EV_CONN_FAILED | EV_CONN_TIMEOUT
  | EV_CALL_NEW | EV_CALL_ISSUE | EV_CALL_SEND_START | EV_CALL_SEND_RAW_DATA
  | EV_CALL_SEND_STOP | EV_CALL_RECV_START | EV_CALL_RECV_HDR | EV_CALL_RECV_RAW_DATA
  | EV_CALL_RECV_DATA | EV_CALL_RECV_FOOTER | EV_CALL_RECV_STOP | EV_CALL_DESTROYED

text \<open>
  \<open>Any_Type\<close>: an integer, a floating-point number, an object, or the bytes of the \<open>struct iovec\<close> or the C
  string that the pointer designates.
\<close>

datatype any_type = Lng int | Dbl real | Ptr nat | Bytes string

section \<open>Calls\<close>

text \<open>
  An I/O vector element: the memory from its base on (which may go on behind its
  end) and its length.
\<close>

record iovec =
  iov_base :: "string option"
  iov_len :: nat

definition iov_bytes :: "iovec \<Rightarrow> string" where
  "iov_bytes v = (case iov_base v of None \<Rightarrow> [] | Some s \<Rightarrow> take (iov_len v) s)"

definition null_iovec :: iovec where
  "null_iovec = \<lparr>iov_base = None, iov_len = 0\<rparr>"

text \<open>\<open>MAX_EXTRA_HEADERS\<close> and the elements of \<open>IOV_Element\<close>.\<close>

abbreviation (input) max_extra_headers :: nat where "max_extra_headers \<equiv> 4"

abbreviation (input) ie_method :: nat where "ie_method \<equiv> 0"
abbreviation (input) ie_blank :: nat where "ie_blank \<equiv> 1"
abbreviation (input) ie_loc :: nat where "ie_loc \<equiv> 2"
abbreviation (input) ie_uri :: nat where "ie_uri \<equiv> 3"
abbreviation (input) ie_protl :: nat where "ie_protl \<equiv> 4"
abbreviation (input) ie_host :: nat where "ie_host \<equiv> 5"
abbreviation (input) ie_newline1 :: nat where "ie_newline1 \<equiv> 6"
abbreviation (input) ie_first_header :: nat where "ie_first_header \<equiv> 7"
abbreviation (input) ie_newline2 :: nat where "ie_newline2 \<equiv> 11"
abbreviation (input) ie_content :: nat where "ie_content \<equiv> 12"
abbreviation (input) ie_num :: nat where "ie_num \<equiv> 13"

record call =
  call_id :: u64
  call_conn :: "nat option"
  sendq_next :: "nat option"
  recvq_next :: "nat option"
  call_timeout :: real
  time_send_start :: real
  time_recv_start :: real
  req_version :: int
  num_extra_hdrs :: nat
  iov_index :: nat
  req_size :: u64
  iov_saved :: iovec
  iov :: "iovec list"
  reply_status :: int
  reply_version :: int
  header_bytes :: u64
  content_bytes :: u64
  footer_bytes :: u64

definition zero_call :: call where
  "zero_call = \<lparr>call_id = 0, call_conn = None, sendq_next = None, recvq_next = None,
     call_timeout = 0, time_send_start = 0, time_recv_start = 0, req_version = 0,
     num_extra_hdrs = 0, iov_index = 0, req_size = 0, iov_saved = null_iovec,
     iov = replicate ie_num null_iovec, reply_status = 0, reply_version = 0, header_bytes = 0,
     content_bytes = 0, footer_bytes = 0\<rparr>"

section \<open>Connections and sessions\<close>

text \<open>
  \<open>line\<close> holds the first \<open>line.iov_len\<close> characters of \<open>line_buf\<close>, whose size is
  \<open>MAX_HDR_LINE_LEN\<close>.
\<close>

abbreviation (input) max_hdr_line_len :: nat where "max_hdr_line_len \<equiv> 1024"

record conn =
  state :: conn_state
  sendq :: "nat option"
  sendq_tail :: "nat option"
  recvq :: "nat option"
  recvq_tail :: "nat option"
  watchdog :: "nat option"
  time_connect_start :: real
  num_calls_completed :: u32
  hostname_len :: nat
  hostname :: string
  fqdname_len :: nat
  fqdname :: string
  port :: int
  sd :: int
  myport :: int
  myaddr :: "nat option"
  line :: string
  content_length :: u64
  has_body :: bool
  is_chunked :: bool
  reading :: bool
  writing :: bool
  epoll_added :: bool

definition zero_conn :: conn where
  "zero_conn = \<lparr>state = S_INITIAL, sendq = None, sendq_tail = None, recvq = None, recvq_tail = None,
     watchdog = None, time_connect_start = 0, num_calls_completed = 0, hostname_len = 0,
     hostname = [], fqdname_len = 0, fqdname = [], port = 0, sd = 0, myport = 0, myaddr = None,
     line = [], content_length = 0, has_body = False, is_chunked = False,
     reading = False, writing = False, epoll_added = False\<rparr>"

text \<open>
  The byte in front of \<open>line_buf\<close>, which \<open>get_line\<close> can read: with the x86-64 ABI
  it is the byte that holds the four one-bit fields.
\<close>

definition byte_before_line :: "conn \<Rightarrow> char" where
  "byte_before_line c = char_of (of_bool (has_body c) + 2 * of_bool (is_chunked c)
     + 4 * of_bool (reading c) + 8 * of_bool (writing c) :: nat)"

lemma byte_before_line_CR:
  "byte_before_line c = CR \<longleftrightarrow> has_body c \<and> \<not> is_chunked c \<and> reading c \<and> writing c"
  by (simp add: byte_before_line_def char_of_eq_iff of_bool_def)

record sess =
  failed :: bool

definition zero_sess :: sess where
  "zero_sess = \<lparr>failed = False\<rparr>"

record obj =
  otype :: object_type
  ref_count :: u32

section \<open>Parameters\<close>

datatype dist_type = DETERMINISTIC | UNIFORM | VARIABLE | EXPONENTIAL

record rate_info =
  dist :: dist_type
  rate_param :: real
  mean_iat :: real
  min_iat :: real
  max_iat :: real
  numRates :: int
  iats :: "real list"
  durations :: "real list"

record params =
  http_version :: int
  server :: string
  server_name :: "string option"
  servers :: "string option"
  myaddr_spec :: "string option"
  server_port :: int
  uri :: string
  rate :: rate_info
  timeout :: real
  think_timeout :: real
  runtime :: real
  num_conns :: u64
  num_calls :: u64
  burst_len :: u64
  max_piped :: u64
  max_conns :: u64
  hog :: bool
  send_buffer_size :: u64
  recv_buffer_size :: u64
  failure_status :: int
  retry_on_failure :: bool
  close_with_reset :: bool
  print_request :: int
  print_reply :: int
  session_cookies :: bool
  no_host_hdr :: bool
  additional_header :: "string option"
  additional_header_file :: "string option"
  req_method :: "string option"
  client_id :: u32
  num_clients :: u32
  wlog_file :: "string option"
  wlog_do_loop :: bool
  wsess_num_sessions :: u32
  wsess_num_calls :: u32
  wsess_think_time :: real
  wsesspage_num_sessions :: u32
  wsesspage_num_reqs :: u32
  wsesspage_think_time :: real
  wsesslog_num_sessions :: u32
  wsesslog_think_time :: real
  wsesslog_file :: "string option"
  wset_num_files :: u32
  wset_target_miss_rate :: real

section \<open>The state of the core\<close>

text \<open>
  One local address: the bits of \<open>port_free_map\<close> are the free ports from
  \<open>IPPORT_RESERVED\<close> (1024) to 65535, 64 to a word.
\<close>

record local_addr =
  ip :: u32
  port_free_map :: "u64 list"
  mask :: u64
  previous :: int

record hash_entry =
  he_hostname :: "string option"
  he_port :: int
  he_sin :: "u32 \<times> int"

text \<open>
  Answers of the environment: \<open>Read_error\<close> and \<open>Write_error\<close> carry \<open>errno\<close>; the
  restart on \<open>EINTR\<close> in \<open>SYSCALL\<close> is inside the answer.  \<open>Got\<close> is the result and the
  \<open>errno\<close> of any other call.
\<close>

datatype read_answer = Read_error int | Read_bytes string

datatype write_answer = Write_error int | Wrote nat

text \<open>
  What \<open>epoll_wait\<close> returns: its \<open>errno\<close>, or for each ready descriptor the registered
  connection, whether it is readable (or hung up) and whether it is writable.
\<close>

datatype wait_answer = Wait_error int | Ready "(nat \<times> bool \<times> bool) list"

datatype interest = Interest_in | Interest_out

record ('cb, 'h) core = "'cb tstate" +
  action :: "event_type \<Rightarrow> ('h \<times> any_type) list"
  objs :: "nat \<Rightarrow> obj"
  conns :: "nat \<Rightarrow> conn"
  calls :: "nat \<Rightarrow> call"
  sesss :: "nat \<Rightarrow> sess"
  conn_priv :: "nat \<Rightarrow> conn_private"
  call_priv :: "nat \<Rightarrow> call_private"
  sess_priv :: "nat \<Rightarrow> sess_private"
  type_size :: "object_type \<Rightarrow> u64"
  free_list :: "object_type \<Rightarrow> nat list"
  next_id :: u64
  param :: params
  srv_file :: string
  srvcurrent :: nat
  running :: bool
  iteration :: int
  prev_iteration :: int
  conn_burst :: u64
  max_burst_len :: u64
  max_sd :: int
  hash_table :: "hash_entry list"
  addresses :: "local_addr list"
  addr_last :: nat
  epoll_set :: "int \<Rightarrow> (nat \<times> interest) option"
  errno :: int
  reads :: "nat \<Rightarrow> read_answer"
  reads_done :: nat
  writes :: "nat \<Rightarrow> write_answer"
  writes_done :: nat
  wire :: "int \<Rightarrow> string"
  waits :: "nat \<Rightarrow> wait_answer"
  waits_done :: nat
  sysc :: "nat \<Rightarrow> int \<times> int"
  sysc_done :: nat
  indet_status :: u32
  indet_iovec :: iovec

text \<open>
  A handler is called with the event, the object (0 for NULL), the argument given at
  registration and the one given to \<open>event_signal\<close>.  The functions of the core call
  \<open>event_signal\<close>, whose handlers call the core again; each core function therefore
  takes the function that stands for \<open>event_signal\<close> as its first argument.
\<close>

type_synonym ('cb, 'h, 'z) signal =
  "event_type \<Rightarrow> nat \<Rightarrow> any_type \<Rightarrow> ('cb, 'h, 'z) core_scheme \<Rightarrow> ('cb, 'h, 'z) core_scheme result"

definition upd_conn :: "nat \<Rightarrow> (conn \<Rightarrow> conn) \<Rightarrow> ('cb, 'h, 'z) core_scheme \<Rightarrow> ('cb, 'h, 'z) core_scheme" where
  "upd_conn a f s = s\<lparr>conns := (conns s)(a := f (conns s a))\<rparr>"

definition upd_conn_priv :: "nat \<Rightarrow> (conn_private \<Rightarrow> conn_private) \<Rightarrow> ('cb, 'h, 'z) core_scheme \<Rightarrow> ('cb, 'h, 'z) core_scheme" where
  "upd_conn_priv a f s = s\<lparr>conn_priv := (conn_priv s)(a := f (conn_priv s a))\<rparr>"

definition upd_call_priv :: "nat \<Rightarrow> (call_private \<Rightarrow> call_private) \<Rightarrow> ('cb, 'h, 'z) core_scheme \<Rightarrow> ('cb, 'h, 'z) core_scheme" where
  "upd_call_priv c f s = s\<lparr>call_priv := (call_priv s)(c := f (call_priv s c))\<rparr>"

definition upd_sess_priv :: "nat \<Rightarrow> (sess_private \<Rightarrow> sess_private) \<Rightarrow> ('cb, 'h, 'z) core_scheme \<Rightarrow> ('cb, 'h, 'z) core_scheme" where
  "upd_sess_priv x f s = s\<lparr>sess_priv := (sess_priv s)(x := f (sess_priv s x))\<rparr>"

definition upd_call :: "nat \<Rightarrow> (call \<Rightarrow> call) \<Rightarrow> ('cb, 'h, 'z) core_scheme \<Rightarrow> ('cb, 'h, 'z) core_scheme" where
  "upd_call c f s = s\<lparr>calls := (calls s)(c := f (calls s c))\<rparr>"

definition upd_sess :: "nat \<Rightarrow> (sess \<Rightarrow> sess) \<Rightarrow> ('cb, 'h, 'z) core_scheme \<Rightarrow> ('cb, 'h, 'z) core_scheme" where
  "upd_sess x f s = s\<lparr>sesss := (sesss s)(x := f (sesss s x))\<rparr>"

definition upd_obj :: "nat \<Rightarrow> (obj \<Rightarrow> obj) \<Rightarrow> ('cb, 'h, 'z) core_scheme \<Rightarrow> ('cb, 'h, 'z) core_scheme" where
  "upd_obj a f s = s\<lparr>objs := (objs s)(a := f (objs s a))\<rparr>"

text \<open>A system call other than \<open>read\<close> and \<open>writev\<close>: its result; \<open>errno\<close> is set on failure.\<close>

definition syscall :: "('cb, 'h, 'z) core_scheme \<Rightarrow> int \<times> ('cb, 'h, 'z) core_scheme" where
  "syscall s = (case sysc s (sysc_done s) of (r, e) \<Rightarrow>
     (r, s\<lparr>sysc_done := Suc (sysc_done s), errno := (if r < 0 then e else errno s)\<rparr>))"

lemmas upd_defs = upd_conn_def upd_call_def upd_sess_def upd_obj_def

lemmas upd_priv_defs = upd_conn_priv_def upd_call_priv_def upd_sess_priv_def

section \<open>The static initial state\<close>

text \<open>
  The parameters as \<open>main\<close> sets them before it reads the options (the others are
  zero), and the state in which the program starts: static data is zero, except
  the initialised variables.  The environment is the one that refuses everything;
  a run supplies its own by updating the last fields.
\<close>

definition default_rate :: rate_info where
  "default_rate = \<lparr>dist = DETERMINISTIC, rate_param = 0, mean_iat = 0, min_iat = 0, max_iat = 0,
     numRates = 0, iats = replicate 16 0, durations = replicate 16 0\<rparr>"

definition default_params :: params where
  "default_params = \<lparr>http_version = 0x10001, server = [], server_name = None, servers = None, myaddr_spec = None,
     server_port = - 1, uri = ''/'', rate = default_rate, timeout = 0, think_timeout = 0, runtime = 0,
     num_conns = 1, num_calls = 1, burst_len = 1, max_piped = 0, max_conns = 0, hog = False,
     send_buffer_size = 4096, recv_buffer_size = 16384, failure_status = 0, retry_on_failure = False,
     close_with_reset = False, print_request = 0, print_reply = 0, session_cookies = False,
     no_host_hdr = False, additional_header = None, additional_header_file = None, req_method = None, client_id = 0, num_clients = 1,
     wlog_file = None, wlog_do_loop = False, wsess_num_sessions = 0, wsess_num_calls = 0, wsess_think_time = 0,
     wsesspage_num_sessions = 0, wsesspage_num_reqs = 0, wsesspage_think_time = 0,
     wsesslog_num_sessions = 0, wsesslog_think_time = 0, wsesslog_file = None, wset_num_files = 0, wset_target_miss_rate = 0\<rparr>"

definition initial_state :: "('cb, 'h) core" where
  "initial_state = \<lparr>tmr = (\<lambda>_. None), passive_timers = [], active_timers = [], persistent_timers = [],
     now = 0, use_timer_cache = False, clock = (\<lambda>_. 0), clock_reads = 0, malloc_ok = (\<lambda>_. True), mallocs = 1,
     action = (\<lambda>_. []), objs = (\<lambda>_. \<lparr>otype = OBJ_CONN, ref_count = 0\<rparr>),
     conns = (\<lambda>_. zero_conn), calls = (\<lambda>_. zero_call), sesss = (\<lambda>_. zero_sess),
     conn_priv = (\<lambda>_. zero_conn_private), call_priv = (\<lambda>_. zero_call_private),
     sess_priv = (\<lambda>_. zero_sess_private),
     type_size = (\<lambda>t. case t of OBJ_CONN \<Rightarrow> 1192 | OBJ_CALL \<Rightarrow> 344 | OBJ_SESS \<Rightarrow> 16),
     free_list = (\<lambda>_. []), next_id = 0, param = default_params, srv_file = [], srvcurrent = 0,
     running = True, iteration = 0, prev_iteration = - 1, conn_burst = 0, max_burst_len = 0, max_sd = 0,
     hash_table = replicate 1024 \<lparr>he_hostname = None, he_port = 0, he_sin = (0, 0)\<rparr>,
     addresses = [], addr_last = 0, epoll_set = (\<lambda>_. None), errno = 0,
     reads = (\<lambda>_. Read_error 104), reads_done = 0, writes = (\<lambda>_. Write_error 104), writes_done = 0,
     wire = (\<lambda>_. []), waits = (\<lambda>_. Ready []), waits_done = 0,
     sysc = (\<lambda>_. (- 1, 104)), sysc_done = 0, indet_status = 0, indet_iovec = null_iovec\<rparr>"

end
