(* ===== verification/Events.thy ===== *)
theory Events
  imports Data_Model "HOL-Library.Sublist"
begin

text \<open>
  \<^verbatim>\<open>src/src/localevent.c\<close>: the table of handlers, at most \<open>MAX_NUM_OPS\<close> for an
  event, and \<open>event_signal\<close>, which calls them.  A handler is a value of type \<open>'h\<close>;
  \<open>run\<close> is the program's meaning of the handlers.  Handlers may register further
  handlers while an event is being signalled: the end of the loop is computed
  before it starts, the closures are read while it runs.
\<close>

section \<open>The code\<close>

definition max_num_ops :: nat where
  "max_num_ops = 4"

definition event_register_handler :: "event_type \<Rightarrow> 'h \<Rightarrow> any_type
    \<Rightarrow> ('cb, 'h, 'z) core_scheme \<Rightarrow> ('cb, 'h, 'z) core_scheme result" where
  "event_register_handler et handler arg s =
     (if max_num_ops \<le> length (action s et) then Inl (Exit 1)
      else Inr (s\<lparr>action := (action s)(et := action s et @ [(handler, arg)])\<rparr>))"

type_synonym ('cb, 'h, 'z) handler_semantics =
  "'h \<Rightarrow> event_type \<Rightarrow> nat \<Rightarrow> any_type \<Rightarrow> any_type
     \<Rightarrow> ('cb, 'h, 'z) core_scheme \<Rightarrow> ('cb, 'h, 'z) core_scheme result"

definition event_signal :: "('cb, 'h, 'z) handler_semantics \<Rightarrow> ('cb, 'h, 'z) signal" where
  "event_signal run et obj arg s =
     efold (\<lambda>i s. ebind (nth_c (action s et) i) (\<lambda>(h, a). run h et obj a arg s))
       [0..<length (action s et)] s"

section \<open>Order and multiplicity of the calls\<close>

text \<open>
  The contract of the handlers: the table is only extended.
\<close>

locale handler_table =
  fixes run :: "('cb, 'h, 'z) handler_semantics"
  assumes table_law: "run h et obj a arg s = Inr s' \<Longrightarrow> prefix (action s e) (action s' e)"
begin

lemma signal_loop:
  assumes "prefix hs (action s et)"
  shows "efold (\<lambda>i s. ebind (nth_c (action s et) i) (\<lambda>(h, a). run h et obj a arg s)) [k..<length hs] s
       = efold (\<lambda>(h, a). run h et obj a arg) (drop k hs) s"
  using assms
proof (induction "length hs - k" arbitrary: k s)
  case 0
  then show ?case by simp
next
  case (Suc n)
  then have k: "k < length hs" by linarith
  obtain h a where ha: "hs ! k = (h, a)" by fastforce
  have nth: "nth_c (action s et) k = Inr (h, a)"
    using Suc.prems k ha by (auto simp: nth_c_def prefix_def nth_append)
  have up: "[k..<length hs] = k # [Suc k..<length hs]" using k by (simp add: upt_conv_Cons)
  have dr: "drop k hs = (h, a) # drop (Suc k) hs" using k ha by (simp add: Cons_nth_drop_Suc [symmetric])
  have "prefix hs (action s' et)" if "run h et obj a arg s = Inr s'" for s'
    using Suc.prems table_law [OF that, of et] prefix_order.trans by blast
  then show ?case
    using Suc.hyps(1) [of "Suc k"] Suc.hyps(2) unfolding up dr
    by (cases "run h et obj a arg s") (auto simp: nth)
qed

lemma event_signal_snapshot:
  "event_signal run et obj arg s = efold (\<lambda>(h, a). run h et obj a arg) (action s et) s"
  using signal_loop [of "action s et" s et obj arg 0] by (simp add: event_signal_def)

end

lemma event_register_handler_prefix:
  "event_register_handler et h a s = Inr s' \<Longrightarrow> prefix (action s e) (action s' e)"
  by (auto simp: event_register_handler_def split: if_splits)

text \<open>At most four handlers are ever registered for an event.\<close>

definition handlers_inv :: "('cb, 'h, 'z) core_scheme \<Rightarrow> bool" where
  "handlers_inv s \<longleftrightarrow> (\<forall>et. length (action s et) \<le> max_num_ops)"

lemma event_register_handler_inv:
  "handlers_inv s \<Longrightarrow> event_register_handler et h a s = Inr s' \<Longrightarrow> handlers_inv s'"
  by (auto simp: event_register_handler_def handlers_inv_def split: if_splits)

fun register_all :: "(event_type \<times> 'h \<times> any_type) list
    \<Rightarrow> ('cb, 'h, 'z) core_scheme \<Rightarrow> ('cb, 'h, 'z) core_scheme result" where
  "register_all [] s = Inr s"
| "register_all ((et, h, a) # rs) s = ebind (event_register_handler et h a s) (register_all rs)"

lemma register_all_action:
  "register_all rs s = Inr s' \<Longrightarrow>
     action s' et = action s et @ map snd (filter (\<lambda>r. fst r = et) rs)"
proof (induction rs s rule: register_all.induct)
  case (2 et' h a rs s)
  then show ?case by (auto simp: event_register_handler_def Inr_iff split: if_splits)
qed simp

section \<open>Properties\<close>

text \<open>
  C9: signalling an event calls the handlers registered for it, each once and in the
  order of their registration, even when handlers register further handlers for the
  same event; those are not called in this round.
\<close>

theorem event_signal_in_order:
  assumes "handler_table run" "register_all rs s = Inr s'" "action s et = []"
  shows "event_signal run et obj arg s'
       = efold (\<lambda>(h, a). run h et obj a arg) (map snd (filter (\<lambda>r. fst r = et) rs)) s'"
  using handler_table.event_signal_snapshot [OF assms(1), of et obj arg s']
    register_all_action [OF assms(2), of et] assms(3) by simp

definition counting :: "(unit, nat, nat list) handler_semantics" where
  "counting h et obj a arg s = Inr (core.more_update (\<lambda>l. l @ [h]) s)"

theorem event_signal_in_order_witness:
  "\<exists>s'. register_all [(EV_CALL_NEW, 3 :: nat, Lng 0), (EV_CONN_NEW, 4, Lng 0), (EV_CALL_NEW, 5, Lng 0)]
          (core.extend (initial_state :: (unit, nat) core) ([] :: nat list)) = Inr s'
     \<and> (\<exists>s''. event_signal counting EV_CALL_NEW 1 (Lng 0) s' = Inr s'' \<and> core.more s'' = [3, 5])"
proof -
  have table: "handler_table counting" by unfold_locales (auto simp: counting_def)
  obtain s' where s': "register_all [(EV_CALL_NEW, 3 :: nat, Lng 0), (EV_CONN_NEW, 4, Lng 0), (EV_CALL_NEW, 5, Lng 0)]
      (core.extend (initial_state :: (unit, nat) core) ([] :: nat list)) = Inr s'" "core.more s' = []"
    by (simp add: event_register_handler_def max_num_ops_def initial_state_def core.defs)
  show ?thesis
    using event_signal_in_order [OF table s'(1), of EV_CALL_NEW 1 "Lng 0"] s'
    by (auto simp: counting_def initial_state_def core.defs)
qed

end
