(* ===== verification/Objects.thy ===== *)
theory Objects
  imports Events
begin

text \<open>
  \<^verbatim>\<open>src/src/object.c\<close>, \<^verbatim>\<open>call.c\<close>, \<^verbatim>\<open>conn.c\<close> and \<^verbatim>\<open>sess.c\<close>: reference counted
  objects, their free lists, the private areas that modules reserve in them, and what
  the three kinds of objects do when they are made and destroyed.  The locale
  \<open>object_handlers\<close> is the contract of the handlers of the creation and destruction
  events; \<open>objects_inv\<close> is the invariant of the reference counts and free lists.
\<close>

section \<open>Sizes and private areas\<close>

text \<open>\<open>ALIGN\<close>: round up to a multiple of \<open>sizeof (double)\<close>.\<close>

definition ALIGN :: "u64 \<Rightarrow> u64" where
  "ALIGN s = (s + 8 - 1) AND NOT (8 - 1)"

definition object_expand :: "object_type \<Rightarrow> u64 \<Rightarrow> ('cb, 'h, 'z) core_scheme
    \<Rightarrow> u64 \<times> ('cb, 'h, 'z) core_scheme" where
  "object_expand t sz S =
     (let offset = type_size S t in (offset, S\<lparr>type_size := (type_size S)(t := offset + ALIGN sz)\<rparr>))"

fun expand_all :: "(object_type \<times> u64) list \<Rightarrow> ('cb, 'h, 'z) core_scheme
    \<Rightarrow> u64 list \<times> ('cb, 'h, 'z) core_scheme" where
  "expand_all [] S = ([], S)"
| "expand_all ((t, sz) # rs) S =
     (let (off, S1) = object_expand t sz S; (offs, S2) = expand_all rs S1 in (off # offs, S2))"

section \<open>Initialisation of the three kinds\<close>

definition call_set_iov :: "nat \<Rightarrow> string \<Rightarrow> nat \<Rightarrow> call \<Rightarrow> call" where
  "call_set_iov i base len q = q\<lparr>iov := (iov q)[i := \<lparr>iov_base = Some base, iov_len = len\<rparr>]\<rparr>"

definition call_set_method :: "string \<Rightarrow> nat \<Rightarrow> call \<Rightarrow> call" where
  "call_set_method = call_set_iov ie_method"

definition call_set_location :: "string \<Rightarrow> nat \<Rightarrow> call \<Rightarrow> call" where
  "call_set_location = call_set_iov ie_loc"

definition call_set_uri :: "string \<Rightarrow> nat \<Rightarrow> call \<Rightarrow> call" where
  "call_set_uri = call_set_iov ie_uri"

definition call_set_contents :: "string \<Rightarrow> nat \<Rightarrow> call \<Rightarrow> call" where
  "call_set_contents = call_set_iov ie_content"

definition call_init :: "nat \<Rightarrow> ('cb, 'h, 'z) core_scheme \<Rightarrow> ('cb, 'h, 'z) core_scheme" where
  "call_init c S =
     (upd_call c (\<lambda>q. call_set_iov ie_newline2 [CR, LF] 2 (call_set_iov ie_newline1 [CR, LF] 2
        (call_set_iov ie_blank '' '' 1
          ((call_set_method ''GET'' 3 (q\<lparr>call_id := next_id S\<rparr>))
             \<lparr>req_version := http_version (param S)\<rparr>)))) S)\<lparr>next_id := next_id S + 1\<rparr>"

definition call_append_request_header :: "nat \<Rightarrow> string \<Rightarrow> nat
    \<Rightarrow> ('cb, 'h, 'z) core_scheme \<Rightarrow> int \<times> ('cb, 'h, 'z) core_scheme" where
  "call_append_request_header c hdr len S =
     (let num_hdrs = num_extra_hdrs (calls S c) in
      if max_extra_headers \<le> num_hdrs then (- 1, S)
      else (0, upd_call c (\<lambda>q. (call_set_iov (ie_first_header + num_hdrs) hdr len q)
                               \<lparr>num_extra_hdrs := num_hdrs + 1\<rparr>) S))"

text \<open>
  \<open>conn_init\<close>: with \<open>--servers\<close> the next name of the mapped file is taken, else the
  name of the parameters.
\<close>

definition conn_init :: "nat \<Rightarrow> ('cb, 'h, 'z) core_scheme \<Rightarrow> ('cb, 'h, 'z) core_scheme" where
  "conn_init a S =
     (let p = param S;
          names = (\<lambda>host fqdn S. upd_conn a (\<lambda>s. s\<lparr>hostname := host, hostname_len := length host,
                      fqdname := fqdn, fqdname_len := length fqdn\<rparr>) S);
          S1 = (case servers p of
                  Some _ \<Rightarrow>
                    let host = cstr (drop (srvcurrent S) (srv_file S));
                        next = srvcurrent S + length host + 1
                    in (names host host S)
                         \<lparr>srvcurrent := (if length (srv_file S) \<le> next then 0 else next)\<rparr>
                | None \<Rightarrow>
                    (case server_name p of
                       Some name \<Rightarrow> names (server p) name S
                     | None \<Rightarrow> names (server p) (server p) S))
      in upd_conn a (\<lambda>s. s\<lparr>port := server_port p, sd := - 1, myport := - 1, line := [],
                          fqdname_len := length (takeWhile (\<lambda>c. c \<noteq> CR \<and> c \<noteq> LF) (fqdname s))\<rparr>) S1)"

definition conn_deinit :: "nat \<Rightarrow> ('cb, 'h, 'z) core_scheme \<Rightarrow> ('cb, 'h, 'z) core_scheme result" where
  "conn_deinit a S =
     (let s = conns S a in
      ebind (c_assert (sd s < 0 \<and> state s \<noteq> S_FREE) S) (\<lambda>S.
      ebind (c_assert (sendq s = None) S) (\<lambda>S.
      ebind (c_assert (recvq s = None) S) (\<lambda>S.
      ebind (c_assert (watchdog s = None) S) (\<lambda>S.
        Inr (upd_conn a (\<lambda>s. s\<lparr>state := S_FREE\<rparr>) S))))))"

section \<open>Reference counting\<close>

text \<open>
  The link of the free list overlays the header of a destroyed object; nothing reads
  the header before \<open>object_new\<close> sets it again.
\<close>

definition object_destroy :: "('cb, 'h, 'z) signal \<Rightarrow> nat
    \<Rightarrow> ('cb, 'h, 'z) core_scheme \<Rightarrow> ('cb, 'h, 'z) core_scheme result" where
  "object_destroy sig a S =
     (let t = otype (objs S a) in
      ebind (case t of
               OBJ_CALL \<Rightarrow> Inr (EV_CALL_DESTROYED, S)
             | OBJ_CONN \<Rightarrow> ebind (conn_deinit a S) (\<lambda>S1. Inr (EV_CONN_DESTROYED, S1))
             | OBJ_SESS \<Rightarrow> Inr (EV_SESS_DESTROYED, S)) (\<lambda>(event, S1).
        ebind (sig event a (Lng 0) S1) (\<lambda>S2.
          Inr (S2\<lparr>free_list := (free_list S2)(t := a # free_list S2 t)\<rparr>))))"

definition object_inc_ref :: "nat \<Rightarrow> ('cb, 'h, 'z) core_scheme \<Rightarrow> ('cb, 'h, 'z) core_scheme" where
  "object_inc_ref a S = upd_obj a (\<lambda>x. x\<lparr>ref_count := ref_count x + 1\<rparr>) S"

definition object_dec_ref :: "('cb, 'h, 'z) signal \<Rightarrow> nat
    \<Rightarrow> ('cb, 'h, 'z) core_scheme \<Rightarrow> ('cb, 'h, 'z) core_scheme result" where
  "object_dec_ref sig a S =
     ebind (c_assert (0 < ref_count (objs S a)) S) (\<lambda>S.
       let S1 = upd_obj a (\<lambda>x. x\<lparr>ref_count := ref_count x - 1\<rparr>) S in
       if ref_count (objs S1 a) = 0 then object_destroy sig a S1 else Inr S1)"

definition alloc_object :: "object_type \<Rightarrow> ('cb, 'h, 'z) core_scheme
    \<Rightarrow> nat option \<times> ('cb, 'h, 'z) core_scheme" where
  "alloc_object t S =
     (case free_list S t of
        a # as \<Rightarrow> (Some a, S\<lparr>free_list := (free_list S)(t := as)\<rparr>)
      | [] \<Rightarrow> malloc S)"

text \<open>\<open>memset (obj, 0, obj_size)\<close>, which clears the private areas as well, then the header.\<close>

definition clear_object :: "object_type \<Rightarrow> nat \<Rightarrow> ('cb, 'h, 'z) core_scheme \<Rightarrow> ('cb, 'h, 'z) core_scheme" where
  "clear_object t a S =
     (let S1 = upd_obj a (\<lambda>_. \<lparr>otype = t, ref_count = 1\<rparr>) S in
      case t of
        OBJ_CONN \<Rightarrow> upd_conn_priv a (\<lambda>_. zero_conn_private) (upd_conn a (\<lambda>_. zero_conn) S1)
      | OBJ_CALL \<Rightarrow> upd_call_priv a (\<lambda>_. zero_call_private) (upd_call a (\<lambda>_. zero_call) S1)
      | OBJ_SESS \<Rightarrow> upd_sess_priv a (\<lambda>_. zero_sess_private) (upd_sess a (\<lambda>_. zero_sess) S1))"

definition object_new :: "('cb, 'h, 'z) signal \<Rightarrow> object_type
    \<Rightarrow> ('cb, 'h, 'z) core_scheme \<Rightarrow> (nat option \<times> ('cb, 'h, 'z) core_scheme) result" where
  "object_new sig t S =
     (case alloc_object t S of
        (None, S1) \<Rightarrow> Inr (None, S1)
      | (Some a, S1) \<Rightarrow>
          let S2 = clear_object t a S1;
              (event, S3) = (case t of
                               OBJ_CALL \<Rightarrow> (EV_CALL_NEW, call_init a S2)
                             | OBJ_CONN \<Rightarrow> (EV_CONN_NEW, conn_init a S2)
                             | OBJ_SESS \<Rightarrow> (EV_SESS_NEW, S2))
          in ebind (sig event a (Lng 0) S3) (\<lambda>S4. Inr (Some a, S4)))"

definition sess_failure :: "('cb, 'h, 'z) signal \<Rightarrow> nat
    \<Rightarrow> ('cb, 'h, 'z) core_scheme \<Rightarrow> ('cb, 'h, 'z) core_scheme result" where
  "sess_failure sig x S =
     (if failed (sesss S x) then Inr S
      else
        let S1 = upd_sess x (\<lambda>s. s\<lparr>failed := True\<rparr>) S in
        ebind (sig EV_SESS_FAILED x (Lng 0) S1) (object_dec_ref sig x))"

section \<open>Private areas do not overlap\<close>

lemma ALIGN_unat:
  assumes "unat s + 7 < 2 ^ 64"
  shows "unat (ALIGN s) = 8 * ((unat s + 7) div 8)"
proof -
  have m: "(7 :: u64) = semiring_bit_operations_class.mask 3" by (simp add: mask_eq_decr_exp)
  have "ALIGN s = (s + 7) AND NOT 7" by (simp add: ALIGN_def add.commute diff_add_eq)
  also have "\<dots> = (s + 7) AND NOT (semiring_bit_operations_class.mask 3)" by (simp only: m)
  also have "\<dots> = push_bit 3 (drop_bit 3 (s + 7))"
    by (rule bit_word_eqI) (auto simp: bit_simps)
  finally have al: "ALIGN s = push_bit 3 (drop_bit 3 (s + 7))" .
  have u: "unat (s + 7) = unat s + 7"
    using assms unat_add_no_wrap [of s 7] by simp
  have d: "unat (drop_bit 3 (s + 7)) = (unat s + 7) div 8"
    by (simp only: drop_bit_eq_div unat_div u) simp
  have "unat (push_bit 3 (drop_bit 3 (s + 7))) = take_bit 64 (push_bit 3 (unat (drop_bit 3 (s + 7))))"
    by (simp add: unsigned_push_bit_eq)
  also have "\<dots> = 8 * ((unat s + 7) div 8)"
    using assms unfolding d by (simp add: push_bit_eq_mult take_bit_nat_eq_self)
  finally show ?thesis unfolding al .
qed

lemma ALIGN_bounds:
  assumes "unat s + 7 < 2 ^ 64"
  shows "unat s \<le> unat (ALIGN s)" "unat (ALIGN s) < unat s + 8" "8 dvd unat (ALIGN s)"
  using ALIGN_unat [OF assms] by auto

text \<open>
  The areas reserved for one type, as offsets and sizes; \<open>aligned_total\<close> is what they
  add up to.
\<close>

definition areas :: "object_type \<Rightarrow> (object_type \<times> u64) list \<Rightarrow> u64 list \<Rightarrow> (nat \<times> nat) list" where
  "areas t rs offs = map (\<lambda>((_, sz), off). (unat off, unat sz)) (filter (\<lambda>(r, _). fst r = t) (zip rs offs))"

definition aligned_total :: "object_type \<Rightarrow> (object_type \<times> u64) list \<Rightarrow> nat" where
  "aligned_total t rs = sum_list (map (\<lambda>r. 8 * ((unat (snd r) + 7) div 8)) (filter (\<lambda>r. fst r = t) rs))"

fun consecutive :: "nat \<Rightarrow> (nat \<times> nat) list \<Rightarrow> nat \<Rightarrow> bool" where
  "consecutive lo [] hi \<longleftrightarrow> lo \<le> hi"
| "consecutive lo ((off, sz) # as) hi \<longleftrightarrow> lo \<le> off \<and> 8 dvd off \<and> consecutive (off + sz) as hi"

lemma consecutive_mono: "consecutive lo as hi \<Longrightarrow> lo' \<le> lo \<Longrightarrow> consecutive lo' as hi"
  by (cases as) auto

lemma expand_all_areas:
  assumes "expand_all rs S = (offs, S')" "8 dvd unat (type_size S t)"
    and "unat (type_size S t) + aligned_total t rs < 2 ^ 64 - 8"
  shows "consecutive (unat (type_size S t)) (areas t rs offs) (unat (type_size S' t))
     \<and> unat (type_size S' t) = unat (type_size S t) + aligned_total t rs"
  using assms
proof (induction rs arbitrary: S offs)
  case Nil
  then show ?case by (simp add: areas_def aligned_total_def)
next
  case (Cons r rs)
  obtain u sz where r: "r = (u, sz)" by (cases r)
  let ?S1 = "S\<lparr>type_size := (type_size S)(u := type_size S u + ALIGN sz)\<rparr>"
  obtain offs' where e: "expand_all rs ?S1 = (offs', S')" "offs = type_size S u # offs'"
    using Cons.prems(1) by (auto simp: r object_expand_def Let_def split: prod.splits)
  show ?case
  proof (cases "u = t")
    case False
    have "areas t (r # rs) offs = areas t rs offs'" "aligned_total t (r # rs) = aligned_total t rs"
      "type_size ?S1 t = type_size S t"
      using False e(2) by (simp_all add: r areas_def aligned_total_def)
    then show ?thesis using Cons.IH [OF e(1)] Cons.prems(2,3) by metis
  next
    case True
    have tot: "aligned_total t (r # rs) = 8 * ((unat sz + 7) div 8) + aligned_total t rs"
      using True by (simp add: r aligned_total_def)
    have "unat sz + 7 < 2 ^ 64" using Cons.prems(3) unfolding tot by linarith
    note al = ALIGN_unat [OF this] ALIGN_bounds [OF this]
    have sum: "unat (type_size S t + ALIGN sz) = unat (type_size S t) + unat (ALIGN sz)"
      by (rule unat_add_no_wrap) (use Cons.prems(3) tot al(1) in simp)
    have S1: "unat (type_size ?S1 t) = unat (type_size S t) + unat (ALIGN sz)"
      using True sum by simp
    have "consecutive (unat (type_size ?S1 t)) (areas t rs offs') (unat (type_size S' t))
       \<and> unat (type_size S' t) = unat (type_size ?S1 t) + aligned_total t rs"
      by (rule Cons.IH [OF e(1)]) (use Cons.prems(2,3) S1 al tot in auto)
    then show ?thesis
      using e(2) True S1 al(1,2) Cons.prems(2) tot
      by (auto simp: r areas_def intro: consecutive_mono)
  qed
qed

section \<open>Life and death of an object\<close>

text \<open>
  The free lists hold different objects, none of which is referenced, and every
  object in use was allocated.
\<close>

definition free_objects :: "('cb, 'h, 'z) core_scheme \<Rightarrow> nat list" where
  "free_objects S = free_list S OBJ_CONN @ free_list S OBJ_CALL @ free_list S OBJ_SESS"

definition objects_inv :: "('cb, 'h, 'z) core_scheme \<Rightarrow> bool" where
  "objects_inv S \<longleftrightarrow>
     distinct (free_objects S)
     \<and> (\<forall>a \<in> set (free_objects S). ref_count (objs S a) = 0 \<and> a < mallocs S)
     \<and> (\<forall>a. mallocs S \<le> a \<longrightarrow> ref_count (objs S a) = 0)"

text \<open>Handlers that leave the bookkeeping of objects alone.\<close>

definition keeps_objects :: "('cb, 'h, 'z) signal \<Rightarrow> bool" where
  "keeps_objects sig \<longleftrightarrow>
     (\<forall>ev a arg S S'. sig ev a arg S = Inr S' \<longrightarrow>
        objs S' = objs S \<and> free_list S' = free_list S \<and> mallocs S' = mallocs S)"

lemma keeps_objectsD:
  "keeps_objects sig \<Longrightarrow> sig ev a arg S = Inr S' \<Longrightarrow>
     objs S' = objs S \<and> free_list S' = free_list S \<and> mallocs S' = mallocs S"
  unfolding keeps_objects_def by blast

lemma free_objects_pop:
  assumes "free_list S t = a # as"
  shows "\<exists>us vs. free_objects S = us @ a # vs
     \<and> free_objects (S\<lparr>free_list := (free_list S)(t := as)\<rparr>) = us @ vs"
proof (cases t)
  case OBJ_CONN
  then show ?thesis using assms by (simp add: free_objects_def) (metis append_Nil)
next
  case OBJ_CALL
  then show ?thesis using assms by (simp add: free_objects_def) (metis append.assoc)
next
  case OBJ_SESS
  then show ?thesis using assms by (simp add: free_objects_def) (metis append.assoc)
qed

lemma alloc_object_fresh:
  assumes inv: "objects_inv S" and al: "alloc_object t S = (Some a, S1)"
  shows "ref_count (objs S a) = 0 \<and> a \<notin> set (free_objects S1) \<and> objs S1 = objs S
     \<and> a < mallocs S1 \<and> objects_inv S1"
proof (cases "free_list S t")
  case (Cons b as)
  then have S1: "a = b" "S1 = S\<lparr>free_list := (free_list S)(t := as)\<rparr>"
    using al by (auto simp: alloc_object_def)
  obtain us vs where "free_objects S = us @ a # vs" "free_objects S1 = us @ vs"
    using free_objects_pop [OF Cons] S1 by metis
  then show ?thesis using inv S1(2) by (auto simp: objects_inv_def)
next
  case Nil
  then have S1: "a = mallocs S" "S1 = S\<lparr>mallocs := Suc (mallocs S)\<rparr>"
    using al by (auto simp: alloc_object_def malloc_def split: if_splits)
  have "free_objects S1 = free_objects S" by (simp add: S1 free_objects_def)
  then show ?thesis using inv S1 by (auto simp: objects_inv_def less_SucI)
qed

lemma clear_object_objects [simp]:
  "objs (clear_object t a S) = (objs S)(a := \<lparr>otype = t, ref_count = 1\<rparr>)"
  "free_list (clear_object t a S) = free_list S" "mallocs (clear_object t a S) = mallocs S"
  by (cases t; simp add: clear_object_def upd_defs upd_priv_defs)+

lemma call_init_objects [simp]:
  "objs (call_init a S) = objs S" "free_list (call_init a S) = free_list S"
  "mallocs (call_init a S) = mallocs S"
  by (simp_all add: call_init_def upd_call_def)

lemma conn_init_objects [simp]:
  "objs (conn_init a S) = objs S" "free_list (conn_init a S) = free_list S"
  "mallocs (conn_init a S) = mallocs S"
  by (simp_all add: conn_init_def upd_conn_def Let_def split: option.split)

text \<open>Handing out storage does not disturb a reserved area: pairwise separation.\<close>

lemma consecutive_le: "consecutive lo as hi \<Longrightarrow> lo \<le> hi"
  by (induction lo as hi rule: consecutive.induct) auto

lemma consecutive_bounds:
  "consecutive lo as hi \<Longrightarrow> (off, sz) \<in> set as \<Longrightarrow> lo \<le> off \<and> off + sz \<le> hi \<and> 8 dvd off"
proof (induction lo as hi rule: consecutive.induct)
  case (2 lo off' sz' as hi)
  then show ?case using consecutive_le [of "off' + sz'" as hi] by (cases "(off, sz) = (off', sz')") auto
qed simp

lemma consecutive_separate:
  "consecutive lo ars hi \<Longrightarrow> i < j \<Longrightarrow> j < length ars \<Longrightarrow>
     fst (ars ! i) + snd (ars ! i) \<le> fst (ars ! j)"
proof (induction ars arbitrary: lo i j)
  case (Cons ar ars)
  obtain off sz where ar: "ar = (off, sz)" by fastforce
  obtain k where k: "j = Suc k" using Cons.prems(2) by (cases j) auto
  have mem: "(fst (ars ! k), snd (ars ! k)) \<in> set ars" using Cons.prems(3) k by simp
  have rest: "consecutive (off + sz) ars hi" using Cons.prems(1) ar by simp
  show ?case
    using consecutive_bounds [OF rest mem] Cons.IH [OF rest, of "i - 1" k] Cons.prems k ar
    by (cases i) auto
qed simp

text \<open>Allocated, not referenced, and not (yet) on a free list: an object that is being destroyed.\<close>

definition limbo :: "('cb, 'h, 'z) core_scheme \<Rightarrow> nat \<Rightarrow> bool" where
  "limbo S b \<longleftrightarrow> b < mallocs S \<and> ref_count (objs S b) = 0 \<and> b \<notin> set (free_objects S)"

lemma objects_cong:
  assumes "objs S' = objs S" "free_list S' = free_list S" "mallocs S' = mallocs S"
  shows "objects_inv S' = objects_inv S" "limbo S' = limbo S" "free_objects S' = free_objects S"
  using assms by (auto simp: objects_inv_def limbo_def free_objects_def fun_eq_iff)

lemma free_objects_push:
  "set (free_objects (S\<lparr>free_list := (free_list S)(t := a # free_list S t)\<rparr>)) = insert a (set (free_objects S))"
  "distinct (free_objects (S\<lparr>free_list := (free_list S)(t := a # free_list S t)\<rparr>))
     \<longleftrightarrow> a \<notin> set (free_objects S) \<and> distinct (free_objects S)"
  by (cases t; auto simp: free_objects_def)+

lemma objects_inv_push:
  assumes "objects_inv S" "limbo S a"
  shows "objects_inv (S\<lparr>free_list := (free_list S)(t := a # free_list S t)\<rparr>)"
  using assms by (auto simp: objects_inv_def limbo_def free_objects_push)

lemma objects_inv_set_ref:
  assumes "objects_inv S" "a < mallocs S" "a \<notin> set (free_objects S)"
    and "objs S' = (objs S)(a := x)" "free_list S' = free_list S" "mallocs S' = mallocs S"
  shows "objects_inv S'"
proof -
  have "free_objects S' = free_objects S" using assms(5) by (simp add: free_objects_def)
  then show ?thesis using assms by (auto simp: objects_inv_def)
qed

lemma alloc_object_limbo:
  assumes al: "alloc_object t S = (Some a, S1)" and b: "limbo S b"
  shows "limbo S1 b \<and> b \<noteq> a"
proof (cases "free_list S t")
  case (Cons c as)
  then have S1: "a = c" "S1 = S\<lparr>free_list := (free_list S)(t := as)\<rparr>"
    using al by (auto simp: alloc_object_def)
  obtain us vs where "free_objects S = us @ a # vs" "free_objects S1 = us @ vs"
    using free_objects_pop [OF Cons] S1 by metis
  then show ?thesis using b S1(2) by (auto simp: limbo_def)
next
  case Nil
  then have S1: "a = mallocs S" "S1 = S\<lparr>mallocs := Suc (mallocs S)\<rparr>"
    using al by (auto simp: alloc_object_def malloc_def split: if_splits)
  have "free_objects S1 = free_objects S" by (simp add: S1 free_objects_def)
  then show ?thesis using b S1 by (auto simp: limbo_def less_SucI)
qed

text \<open>
  The contract of the handlers of \<open>EV_*_NEW\<close>, \<open>EV_*_DESTROYED\<close>: they keep the
  invariant and do not take up an object that is being destroyed.  They may make
  and release other objects.
\<close>

lemma conn_deinit_objects:
  "conn_deinit a S = Inr S' \<Longrightarrow>
     objs S' = objs S \<and> free_list S' = free_list S \<and> mallocs S' = mallocs S"
  by (auto simp: conn_deinit_def Inr_iff upd_conn_def Let_def)

locale object_handlers =
  fixes sig :: "('cb, 'h, 'z) signal"
  assumes sig_inv: "sig ev a arg S = Inr S' \<Longrightarrow> objects_inv S \<Longrightarrow> objects_inv S'"
    and sig_limbo: "sig ev a arg S = Inr S' \<Longrightarrow> objects_inv S \<Longrightarrow> limbo S b \<Longrightarrow> limbo S' b"
begin

lemma object_new_objects:
  assumes inv: "objects_inv S" and new: "object_new sig t S = Inr (r, S')"
  shows "objects_inv S' \<and> (\<forall>b. limbo S b \<longrightarrow> limbo S' b)"
proof (cases "alloc_object t S")
  case (Pair p S1)
  show ?thesis
  proof (cases p)
    case None
    then have "S' = S1" "free_list S t = []" "S1 = S\<lparr>mallocs := Suc (mallocs S)\<rparr>"
      using new Pair by (auto simp: object_new_def alloc_object_def malloc_def split: list.splits if_splits)
    then show ?thesis using inv by (auto simp: objects_inv_def limbo_def free_objects_def less_SucI)
  next
    case (Some a)
    then have al: "alloc_object t S = (Some a, S1)" using Pair by simp
    define S3 where "S3 = (case t of OBJ_CALL \<Rightarrow> call_init a (clear_object t a S1)
      | OBJ_CONN \<Rightarrow> conn_init a (clear_object t a S1) | OBJ_SESS \<Rightarrow> clear_object t a S1)"
    have S3: "objs S3 = (objs S1)(a := \<lparr>otype = t, ref_count = 1\<rparr>)" "free_list S3 = free_list S1"
      "mallocs S3 = mallocs S1"
      unfolding S3_def by (cases t; simp)+
    have sig: "\<exists>ev. sig ev a (Lng 0) S3 = Inr S'"
      using new al unfolding S3_def by (cases t) (auto simp: object_new_def Let_def Inr_iff)
    note fr = alloc_object_fresh [OF inv al]
    have inv3: "objects_inv S3" using objects_inv_set_ref [of S1 a S3] fr S3 by blast
    have "free_objects S3 = free_objects S1" using S3(2) by (simp add: free_objects_def)
    then have lim3: "limbo S3 b" if "limbo S b" for b
      using alloc_object_limbo [OF al that] S3 by (simp add: limbo_def)
    show ?thesis using sig sig_inv sig_limbo inv3 lim3 by blast
  qed
qed

lemma object_destroy_objects:
  assumes inv: "objects_inv S" and lim: "limbo S a" and run: "object_destroy sig a S = Inr S'"
  shows "objects_inv S' \<and> a \<in> set (free_objects S') \<and> (\<forall>b. limbo S b \<longrightarrow> b \<noteq> a \<longrightarrow> limbo S' b)"
proof -
  obtain ev S1 S2 where S1: "objs S1 = objs S" "free_list S1 = free_list S" "mallocs S1 = mallocs S"
    and S2: "sig ev a (Lng 0) S1 = Inr S2"
    and S': "S' = S2\<lparr>free_list := (free_list S2)(otype (objs S a) := a # free_list S2 (otype (objs S a)))\<rparr>"
    using run conn_deinit_objects [of a S]
    by (cases "otype (objs S a)") (fastforce simp: object_destroy_def Inr_iff Let_def)+
  note cong = objects_cong [OF S1]
  have inv2: "objects_inv S2" using sig_inv [OF S2] inv cong by simp
  have lim2: "limbo S2 b" if "limbo S b" for b using sig_limbo [OF S2] inv that cong by simp
  show ?thesis
    using objects_inv_push [OF inv2 lim2 [OF lim]] lim2
    by (auto simp: S' free_objects_push limbo_def)
qed

lemma object_dec_ref_objects:
  assumes inv: "objects_inv S" and run: "object_dec_ref sig a S = Inr S'"
  shows "objects_inv S' \<and> (\<forall>b. limbo S b \<longrightarrow> limbo S' b)
     \<and> (ref_count (objs S a) = 1 \<longrightarrow> a \<in> set (free_objects S'))"
proof -
  let ?S1 = "upd_obj a (\<lambda>x. x\<lparr>ref_count := ref_count x - 1\<rparr>) S"
  have pos: "0 < ref_count (objs S a)" using run by (simp add: object_dec_ref_def Inr_iff)
  then have a: "a < mallocs S" "a \<notin> set (free_objects S)"
    using inv by (auto simp: objects_inv_def not_less [symmetric])
  have inv1: "objects_inv ?S1"
    by (rule objects_inv_set_ref [OF inv a]) (simp_all add: upd_obj_def)
  have free1: "free_objects ?S1 = free_objects S" by (simp add: free_objects_def upd_obj_def)
  have lim1: "limbo ?S1 b \<and> b \<noteq> a" if "limbo S b" for b
    using that pos free1 by (auto simp: limbo_def upd_obj_def)
  show ?thesis
  proof (cases "ref_count (objs S a) = 1")
    case True
    have "limbo ?S1 a" using True a free1 by (simp add: limbo_def upd_obj_def)
    moreover have "object_destroy sig a ?S1 = Inr S'"
      using run True by (simp add: object_dec_ref_def upd_obj_def)
    ultimately show ?thesis using object_destroy_objects [OF inv1] lim1 by blast
  next
    case False
    then have "ref_count (objs S a) - 1 \<noteq> 0" by simp
    then have "S' = ?S1" using run pos by (simp add: object_dec_ref_def upd_obj_def)
    then show ?thesis using inv1 lim1 False by blast
  qed
qed

text \<open>With several references left, the object and all others stay as they are.\<close>

lemma object_dec_ref_shared:
  "1 < ref_count (objs S a) \<Longrightarrow>
     object_dec_ref sig a S = Inr (upd_obj a (\<lambda>x. x\<lparr>ref_count := ref_count x - 1\<rparr>) S)"
proof -
  assume r: "1 < ref_count (objs S a)"
  then have "ref_count (objs S a) - 1 \<noteq> 0" "0 < ref_count (objs S a)"
    by (auto simp: word_less_nat_alt)
  then show ?thesis by (simp add: object_dec_ref_def upd_obj_def)
qed

end

text \<open>The contract holds for the handlers that leave the objects alone.\<close>

lemma keeps_objects_handlers: "keeps_objects sig \<Longrightarrow> object_handlers sig"
  by unfold_locales (use keeps_objectsD objects_cong in metis)+

section \<open>Properties\<close>

text \<open>
  C12: the private areas that modules reserve in one kind of object with
  \<open>object_expand\<close> are aligned, start behind the fields of the object, do not overlap,
  and lie inside the size with which later objects are allocated.
\<close>

theorem private_areas_disjoint:
  assumes "expand_all rs S = (offs, S')" "8 dvd unat (type_size S t)"
    and "unat (type_size S t) + aligned_total t rs < 2 ^ 64 - 8"
  shows "(\<forall>(off, sz) \<in> set (areas t rs offs).
            8 dvd off \<and> unat (type_size S t) \<le> off \<and> off + sz \<le> unat (type_size S' t))
     \<and> (\<forall>j < length (areas t rs offs). \<forall>i < j.
            fst (areas t rs offs ! i) + snd (areas t rs offs ! i) \<le> fst (areas t rs offs ! j))"
  using expand_all_areas [OF assms] consecutive_bounds consecutive_separate by blast

theorem private_areas_disjoint_witness:
  "\<exists>offs S'. expand_all [(OBJ_CALL, 8), (OBJ_SESS, 24), (OBJ_CALL, 13)] (initial_state :: (unit, unit) core) = (offs, S')
     \<and> offs = [344, 16, 352] \<and> 352 + 13 \<le> unat (type_size S' OBJ_CALL)"
proof -
  let ?rs = "[(OBJ_CALL, 8), (OBJ_SESS, 24), (OBJ_CALL, 13)] :: (object_type \<times> u64) list"
  obtain offs S' where e: "expand_all ?rs (initial_state :: (unit, unit) core) = (offs, S')" by fastforce
  have v: "ALIGN 8 = 8" "ALIGN 24 = 24" "ALIGN 13 = 16" by (simp_all add: ALIGN_def)
  have o: "offs = [344, 16, 352]"
    using e by (auto simp: object_expand_def initial_state_def v)
  have "areas OBJ_CALL ?rs offs = [(344, 8), (352, 13)]" by (simp add: o areas_def)
  then show ?thesis
    using private_areas_disjoint [OF e, of OBJ_CALL] e o
    by (simp add: initial_state_def aligned_total_def)
qed

text \<open>
  C11: \<open>object_new\<close> returns an object nobody referenced, of the kind asked for and with one
  reference when the handlers of its creation are called; no other object is touched
  before they run, and the free lists stay disjoint from the objects in use whatever
  objects the handlers make or release.
\<close>

theorem object_new_fresh:
  assumes "object_handlers sig" "objects_inv S" "object_new sig t S = Inr (Some a, S')"
  shows "ref_count (objs S a) = 0 \<and> objects_inv S' \<and>
     (\<exists>ev S1. sig ev a (Lng 0) S1 = Inr S' \<and> objects_inv S1
        \<and> objs S1 = (objs S)(a := \<lparr>otype = t, ref_count = 1\<rparr>) \<and> a \<notin> set (free_objects S1))"
proof -
  obtain S1 where al: "alloc_object t S = (Some a, S1)"
    using assms(3) by (cases t) (auto simp: object_new_def Let_def Inr_iff split: prod.splits option.splits)
  define S3 where "S3 = (case t of OBJ_CALL \<Rightarrow> call_init a (clear_object t a S1)
    | OBJ_CONN \<Rightarrow> conn_init a (clear_object t a S1) | OBJ_SESS \<Rightarrow> clear_object t a S1)"
  have S3: "objs S3 = (objs S1)(a := \<lparr>otype = t, ref_count = 1\<rparr>)" "free_list S3 = free_list S1"
    "mallocs S3 = mallocs S1"
    unfolding S3_def by (cases t; simp)+
  note fr = alloc_object_fresh [OF assms(2) al]
  have "objects_inv S3" using objects_inv_set_ref [of S1 a S3] fr S3 by blast
  moreover have "\<exists>ev. sig ev a (Lng 0) S3 = Inr S'"
    using assms(3) al unfolding S3_def by (cases t) (auto simp: object_new_def Let_def Inr_iff)
  moreover have "free_objects S3 = free_objects S1" using S3(2) by (simp add: free_objects_def)
  moreover have "objs S3 = (objs S)(a := \<lparr>otype = t, ref_count = 1\<rparr>)" using S3(1) fr by simp
  ultimately show ?thesis
    using object_handlers.object_new_objects [OF assms(1-3)] fr by metis
qed

definition no_handlers :: "(unit, unit, unit) signal" where
  "no_handlers ev a arg S = Inr S"

lemma no_handlers_contract: "object_handlers no_handlers"
  by (rule keeps_objects_handlers) (simp add: keeps_objects_def no_handlers_def)

lemma initial_objects: "objects_inv (initial_state :: (unit, unit) core)"
  by (simp add: objects_inv_def free_objects_def initial_state_def)

theorem object_new_fresh_witness:
  "\<exists>S'. object_new no_handlers OBJ_SESS initial_state = Inr (Some 1, S') \<and> objects_inv S'
     \<and> ref_count (objs S' 1) = 1"
proof -
  obtain S' where new: "object_new no_handlers OBJ_SESS initial_state = Inr (Some 1, S')"
    by (simp add: object_new_def alloc_object_def malloc_def initial_state_def no_handlers_def Let_def)
  show ?thesis
    using object_new_fresh [OF no_handlers_contract initial_objects new] new
    by (auto simp: no_handlers_def)
qed



end
