(* ===== verification/C_String.thy ===== *)
theory C_String
  imports Prelude
begin

text \<open>
  The functions of the C library that the parsers call: character classes of the C
  locale, string comparison, \<open>strtoul\<close> and the \<open>%u\<close> conversion of \<open>sscanf\<close>.  A C
  string is the memory its pointer points into: it ends before the first NUL, or
  with the list.  The lemmas at the end are the round trips between numbers and
  their digits.
\<close>

section \<open>Characters\<close>

definition isspace_c :: "char \<Rightarrow> bool" where
  "isspace_c c \<longleftrightarrow> c = CHR '' '' \<or> (9 \<le> (of_char c :: nat) \<and> (of_char c :: nat) \<le> 13)"

definition isupper_c :: "char \<Rightarrow> bool" where
  "isupper_c c \<longleftrightarrow> 65 \<le> (of_char c :: nat) \<and> (of_char c :: nat) \<le> 90"

definition tolower_c :: "char \<Rightarrow> char" where
  "tolower_c c = (if isupper_c c then char_of ((of_char c :: nat) + 32) else c)"

definition digit_val :: "char \<Rightarrow> nat" where
  "digit_val c =
     (let n = of_char c in
      if 48 \<le> n \<and> n \<le> 57 then n - 48
      else if 65 \<le> n \<and> n \<le> 90 then n - 55
      else if 97 \<le> n \<and> n \<le> 122 then n - 87
      else 255)"

definition is_digit_c :: "nat \<Rightarrow> char \<Rightarrow> bool" where
  "is_digit_c base c \<longleftrightarrow> digit_val c < base"

section \<open>Comparison and search\<close>

text \<open>Equality, which is all the program asks of \<open>strcmp\<close> and its variants.\<close>

definition strcmp_eq :: "string \<Rightarrow> string \<Rightarrow> bool" where
  "strcmp_eq a b \<longleftrightarrow> cstr a = cstr b"

definition strcasecmp_eq :: "string \<Rightarrow> string \<Rightarrow> bool" where
  "strcasecmp_eq a b \<longleftrightarrow> map tolower_c (cstr a) = map tolower_c (cstr b)"

definition strncmp_eq :: "string \<Rightarrow> string \<Rightarrow> nat \<Rightarrow> bool" where
  "strncmp_eq a b n \<longleftrightarrow> take n (cstr a) = take n (cstr b)"

definition strncasecmp_eq :: "string \<Rightarrow> string \<Rightarrow> nat \<Rightarrow> bool" where
  "strncasecmp_eq a b n \<longleftrightarrow> map tolower_c (take n (cstr a)) = map tolower_c (take n (cstr b))"

text \<open>\<open>strchr\<close> for a character other than NUL: the index of the first one.\<close>

definition strchr :: "string \<Rightarrow> char \<Rightarrow> nat option" where
  "strchr s c = (let n = length (takeWhile (\<lambda>d. d \<noteq> c) (cstr s)) in
                 if n < length (cstr s) then Some n else None)"

section \<open>Numbers\<close>

definition number :: "nat \<Rightarrow> string \<Rightarrow> nat" where
  "number base ds = foldl (\<lambda>n c. n * base + digit_val c) 0 ds"

text \<open>
  \<open>strtoul s &end base\<close> for bases 10 and 16: value, the number of characters before
  \<open>*end\<close> (0 when there is no number), and whether \<open>errno\<close> was set to \<open>ERANGE\<close>.
  White space and a sign are skipped; a minus sign negates the result in
  \<open>unsigned long\<close>; the prefix \<open>0x\<close> belongs to a number in base 16 if a digit follows.
\<close>

definition strtoul :: "nat \<Rightarrow> string \<Rightarrow> u64 \<times> nat \<times> bool" where
  "strtoul base str =
     (let s = cstr str;
          ws = takeWhile isspace_c s;
          s1 = drop (length ws) s;
          neg = (s1 \<noteq> [] \<and> hd s1 = CHR ''-'');
          sgn = (if s1 \<noteq> [] \<and> (hd s1 = CHR ''-'' \<or> hd s1 = CHR ''+'') then 1 else 0);
          s2 = drop sgn s1;
          pre = (if base = 16 \<and> 2 < length s2 \<and> s2 ! 0 = CHR ''0'' \<and> tolower_c (s2 ! 1) = CHR ''x''
                    \<and> is_digit_c 16 (s2 ! 2) then 2 else 0);
          ds = takeWhile (is_digit_c base) (drop pre s2);
          n = number base ds
      in if ds = [] then (0, 0, False)
         else (if 2 ^ 64 \<le> n then - 1 else if neg then - word_of_nat n else word_of_nat n,
               length ws + sgn + pre + length ds, 2 ^ 64 \<le> n))"

text \<open>
  \<open>%u\<close> of \<open>sscanf\<close>: white space is skipped, the number is converted as by
  \<open>strtoul\<close> and stored in an \<open>unsigned int\<close>; the result is the rest of the input.
\<close>

definition scan_u :: "string \<Rightarrow> (u32 \<times> string) option" where
  "scan_u s = (case strtoul 10 s of (v, n, _) \<Rightarrow>
     if n = 0 then None else Some (ucast v, drop n (cstr s)))"

fun scan_lit :: "string \<Rightarrow> string \<Rightarrow> string option" where
  "scan_lit [] s = Some s"
| "scan_lit (c # cs) (d # s) = (if c = d then scan_lit cs s else None)"
| "scan_lit (c # cs) [] = None"

section \<open>Printing and reading back\<close>

definition digit_char :: "nat \<Rightarrow> char" where
  "digit_char d = (if d < 10 then char_of (48 + d) else char_of (87 + d))"

fun digits :: "nat \<Rightarrow> nat \<Rightarrow> string" where
  "digits base n = (if base < 2 \<or> n < base then [digit_char n]
                    else digits base (n div base) @ [digit_char (n mod base)])"

declare digits.simps [simp del]

lemma digit_val_char [simp]: "d < 16 \<Longrightarrow> digit_val (digit_char d) = d"
  by (auto simp: digit_val_def digit_char_def Let_def of_char_of)

lemma digits_not_Nil [simp]: "digits base n \<noteq> []"
  by (subst digits.simps) simp

lemma digits_are_digits:
  "2 \<le> base \<Longrightarrow> base \<le> 16 \<Longrightarrow> c \<in> set (digits base n) \<Longrightarrow> \<exists>d < base. c = digit_char d"
proof (induction base n rule: digits.induct)
  case (1 base n)
  have m: "n mod base < base" using "1.prems"(1) by simp
  show ?case
  proof (cases "n < base")
    case True
    then have "digits base n = [digit_char n]" using "1.prems" by (subst digits.simps) simp
    then show ?thesis using True "1.prems"(3) by auto
  next
    case False
    then have "digits base n = digits base (n div base) @ [digit_char (n mod base)]"
      using "1.prems" by (subst digits.simps) simp
    then have "c \<in> set (digits base (n div base)) \<or> c = digit_char (n mod base)" using "1.prems"(3) by auto
    moreover have "\<not> (base < 2 \<or> n < base)" using False "1.prems"(1) by simp
    ultimately show ?thesis using "1.IH" [OF _ "1.prems"(1,2)] m by blast
  qed
qed

lemma number_append: "number base (xs @ [c]) = number base xs * base + digit_val c"
  by (simp add: number_def)

lemma number_digits: "2 \<le> base \<Longrightarrow> base \<le> 16 \<Longrightarrow> number base (digits base n) = n"
proof (induction base n rule: digits.induct)
  case (1 base n)
  show ?case
  proof (cases "n < base")
    case True
    then have "digits base n = [digit_char n]" using "1.prems" by (subst digits.simps) simp
    then show ?thesis using True "1.prems" by (simp add: number_def)
  next
    case False
    then have d: "digits base n = digits base (n div base) @ [digit_char (n mod base)]"
      using "1.prems" by (subst digits.simps) simp
    have "n mod base < 16" using "1.prems" mod_less_divisor [of base n] by linarith
    then show ?thesis
      using 1 False unfolding d number_append by simp
  qed
qed

definition plain_char :: "char \<Rightarrow> bool" where
  "plain_char c \<longleftrightarrow> c \<noteq> NUL \<and> \<not> isspace_c c \<and> c \<noteq> CHR ''-'' \<and> c \<noteq> CHR ''+''
     \<and> tolower_c c \<noteq> CHR ''x'' \<and> c \<noteq> LF \<and> c \<noteq> CR"

lemma digit_char_plain: "d < 16 \<Longrightarrow> plain_char (digit_char d)"
proof -
  have "list_all (\<lambda>d. plain_char (digit_char d)) [0..<16]" by code_simp
  then show "d < 16 \<Longrightarrow> plain_char (digit_char d)" by (simp add: list_all_iff)
qed

lemma digits_plain:
  "2 \<le> base \<Longrightarrow> base \<le> 16 \<Longrightarrow> c \<in> set (digits base n) \<Longrightarrow> plain_char c \<and> is_digit_c base c"
  using digits_are_digits [of base c n] digit_char_plain by (force simp: is_digit_c_def)

lemma cstr_append: "NUL \<notin> set s \<Longrightarrow> cstr (s @ t) = s @ cstr t"
  unfolding cstr_def by (rule takeWhile_append2) auto

lemma takeWhile_append_stop:
  "(\<And>x. x \<in> set xs \<Longrightarrow> P x) \<Longrightarrow> ys = [] \<or> \<not> P (hd ys) \<Longrightarrow> takeWhile P (xs @ ys) = xs"
  by (cases ys) (simp_all add: takeWhile_append2)

text \<open>A number is read back from its digits, whatever follows that cannot continue it.\<close>

lemma strtoul_digits:
  assumes base: "base = 10 \<or> base = 16" and n: "n < 2 ^ 64"
    and rest: "cstr rest = [] \<or> \<not> is_digit_c base (hd (cstr rest)) \<and> tolower_c (hd (cstr rest)) \<noteq> CHR ''x''"
  shows "strtoul base (digits base n @ rest) = (word_of_nat n, length (digits base n), False)"
proof -
  let ?d = "digits base n"
  have b: "2 \<le> base" "base \<le> 16" using base by auto
  have cls: "plain_char c" "is_digit_c base c" if "c \<in> set ?d" for c
    using digits_plain [OF b that] by auto
  obtain c cs where d: "?d = c # cs" by (cases ?d) auto
  have "NUL \<notin> set ?d" using cls(1) by (auto simp: plain_char_def)
  then have s: "cstr (?d @ rest) = ?d @ cstr rest" by (rule cstr_append)
  have ds: "takeWhile (is_digit_c base) (?d @ cstr rest) = ?d"
    by (rule takeWhile_append_stop) (use cls(2) rest in auto)
  have c: "\<not> isspace_c c" "c \<noteq> CHR ''-''" "c \<noteq> CHR ''+''" using cls(1) [of c] d by (auto simp: plain_char_def)
  have pre: "\<not> (1 < length (?d @ cstr rest) \<and> tolower_c ((?d @ cstr rest) ! 1) = CHR ''x'')"
    using cls(1) rest d by (cases cs; cases "cstr rest") (auto simp: plain_char_def)
  have ws: "takeWhile isspace_c (?d @ cstr rest) = []" using c(1) d by simp
  have "hd (?d @ cstr rest) = c" using d by simp
  then show ?thesis
    using c ds pre ws n number_digits [OF b, of n]
    unfolding strtoul_def s Let_def by (auto simp: not_le)
qed

lemma scan_u_digits:
  assumes "n < 2 ^ 32" "cstr rest = [] \<or> \<not> is_digit_c 10 (hd (cstr rest)) \<and> tolower_c (hd (cstr rest)) \<noteq> CHR ''x''"
  shows "scan_u (digits 10 n @ rest) = Some (word_of_nat n, cstr rest)"
proof -
  have "n < 2 ^ 64" using assms(1) by simp
  from strtoul_digits [OF _ this assms(2)]
  have st: "strtoul 10 (digits 10 n @ rest) = (word_of_nat n, length (digits 10 n), False)" by simp
  have "NUL \<notin> set (digits 10 n)"
    using digits_plain [of 10 NUL n] by (auto simp: plain_char_def)
  then have "cstr (digits 10 n @ rest) = digits 10 n @ cstr rest" by (rule cstr_append)
  moreover have "(ucast (word_of_nat n :: u64) :: u32) = word_of_nat n"
    using assms(1) by (simp add: word_unat_eq_iff unsigned_ucast_eq unsigned_of_nat take_bit_nat_eq_self)
  ultimately show ?thesis by (simp add: scan_u_def st)
qed

lemma strtoul_space:
  "strtoul base (CHR '' '' # s) = (case strtoul base s of (v, n, e) \<Rightarrow> (v, if n = 0 then 0 else Suc n, e))"
proof -
  have sp: "isspace_c (CHR '' '')" by (simp add: isspace_c_def)
  have c: "cstr (CHR '' '' # s) = CHR '' '' # cstr s" by (simp add: cstr_def)
  have t: "takeWhile isspace_c (CHR '' '' # cstr s) = CHR '' '' # takeWhile isspace_c (cstr s)"
    using sp by simp
  show ?thesis unfolding strtoul_def c t Let_def by (simp del: takeWhile.simps split: if_splits)
qed

lemma scan_u_space: "scan_u (CHR '' '' # s) = scan_u s"
proof -
  obtain v n e where st: "strtoul 10 s = (v, n, e)" by (cases "strtoul 10 s") auto
  have "cstr (CHR '' '' # s) = CHR '' '' # cstr s" by (simp add: cstr_def)
  then show ?thesis by (simp add: scan_u_def strtoul_space st)
qed

text \<open>A number below \<open>2 ^ 64\<close> has at most 64 digits.\<close>

lemma digits_length: "2 \<le> base \<Longrightarrow> n < 2 ^ k \<Longrightarrow> length (digits base n) \<le> Suc k"
proof (induction k arbitrary: n)
  case 0
  then show ?case by (subst digits.simps) simp
next
  case (Suc k)
  show ?case
  proof (cases "n < base")
    case True
    then show ?thesis by (subst digits.simps) simp
  next
    case False
    have "n div base \<le> n div 2" using Suc.prems(1) by (simp add: div_le_mono2)
    also have "\<dots> < 2 ^ k" using Suc.prems(2) by simp
    finally show ?thesis
      using Suc.IH [of "n div base"] Suc.prems(1) False by (subst digits.simps) simp
  qed
qed

end
