(* ===== verification/Http.thy ===== *)
theory Http
  imports Data_Model C_String
begin

text \<open>
  \<^verbatim>\<open>src/src/http.c\<close>: the parser of replies.  The bytes still to be processed
  (\<open>*bufp\<close> and \<open>*buf_lenp\<close>) are a list; \<open>core.c\<close> stores a NUL behind them.  The
  functions keep their place in the connection (\<open>state\<close>, \<open>line\<close>, \<open>content_length\<close>)
  and the call (\<open>content_bytes\<close>), so that a reply may arrive in pieces.  \<open>sig\<close> is
  \<open>event_signal\<close>: its handlers may change anything, also close the connection.

  \<open>a\<close> is the connection \<open>c->conn\<close>, which every function loads when it starts; it does
  not change while a reply to the call is being received (only \<open>core_send\<close> assigns it).

  The loops are total: a lemma shows that each round of them consumes input, and
  that is their termination proof, whatever the handlers do.
\<close>

section \<open>Lines\<close>

text \<open>
  The two halves of \<open>get_line\<close>: what is copied behind the accumulated line, and
  what is done with the result \<open>l\<close>; \<open>rest\<close> is the input behind the copied bytes.  A
  CR in front of a lone LF is looked for in front of the buffer; if there is one,
  the length wraps around and the terminator is stored outside.
\<close>

definition line_end :: "conn \<Rightarrow> string \<Rightarrow> string \<Rightarrow> (bool \<times> conn \<times> string) result" where
  "line_end s l rest =
     (if last l = LF \<or> length l = max_hdr_line_len - 1 then
        if last l = LF then
          let l1 = butlast l;
              before = (if l1 = [] then byte_before_line s else last l1)
          in if before = CR
             then if l1 = [] then Inl Undefined else Inr (True, s\<lparr>line := butlast l1\<rparr>, rest)
             else Inr (True, s\<lparr>line := l1\<rparr>, rest)
        else Inr (True, s\<lparr>line := l\<rparr>, rest)
      else Inr (False, s\<lparr>line := l\<rparr>, rest))"

definition get_line :: "conn \<Rightarrow> string \<Rightarrow> (bool \<times> conn \<times> string) result" where
  "get_line s buf =
     (if buf = [] then Inr (False, s, buf)
      else
        let eol = (case strchr buf LF of Some i \<Rightarrow> Suc i | None \<Rightarrow> length buf);
            to_copy = (if max_hdr_line_len \<le> length (line s) + eol
                       then max_hdr_line_len - 1 - length (line s) else eol)
        in if max_hdr_line_len - 1 < length (line s) then Inl Undefined
           else line_end s (line s @ take to_copy buf) (drop eol buf))"

text \<open>
  Every answer of \<open>get_line\<close> for a non-empty buffer has consumed some of it, and
  the accumulated line fits the buffer with its terminator.
\<close>

lemma get_line_shorter:
  "get_line s buf = Inr (full, s', rest) \<Longrightarrow> buf \<noteq> [] \<Longrightarrow> length rest < length buf"
  by (cases buf) (auto simp: get_line_def line_end_def Let_def split: if_splits option.splits)

lemma get_line_le: "get_line s buf = Inr (full, s', rest) \<Longrightarrow> length rest \<le> length buf"
  using get_line_shorter [of s buf full s' rest] by (cases "buf = []") (auto simp: get_line_def)

lemma get_line_shrinks:
  "get_line s buf = Inr (full, s', rest) \<Longrightarrow> length rest < length buf \<or> buf = [] \<and> rest = []"
  using get_line_shorter [of s buf full s' rest] by (cases "buf = []") (auto simp: get_line_def)

lemma get_line_full: "get_line s buf = Inr (True, s', rest) \<Longrightarrow> buf \<noteq> []"
  by (auto simp: get_line_def)

lemma get_line_other:
  "get_line s buf = Inr (full, s', rest) \<Longrightarrow> \<exists>l. s' = s\<lparr>line := l\<rparr>"
  by (cases "buf = []") (auto simp: get_line_def line_end_def Let_def split: if_splits intro: exI [of _ "line s"])

lemma get_line_bound:
  assumes "get_line s buf = Inr (full, s', rest)" "length (line s) \<le> 1023"
  shows "length (line s') \<le> 1023" "full \<or> length (line s') < 1023 \<or> line s' = line s"
  using assms by (auto simp: get_line_def line_end_def Let_def split: if_splits)

lemma get_line_defined:
  assumes "length (line s) \<le> 1023" "byte_before_line s \<noteq> CR"
  shows "\<exists>r. get_line s buf = Inr r"
  using assms by (auto simp: get_line_def line_end_def Let_def)

section \<open>The status line\<close>

text \<open>\<open>sscanf (buf, "HTTP/%u.%u %u ", &major, &minor, &status) == 3\<close>\<close>

definition scan_status :: "string \<Rightarrow> (u32 \<times> u32 \<times> u32) option" where
  "scan_status s =
     (case scan_lit ''HTTP/'' (cstr s) of None \<Rightarrow> None
      | Some s1 \<Rightarrow> (case scan_u s1 of None \<Rightarrow> None
      | Some (major, s2) \<Rightarrow> (case scan_lit ''.'' s2 of None \<Rightarrow> None
      | Some s3 \<Rightarrow> (case scan_u s3 of None \<Rightarrow> None
      | Some (minor, s4) \<Rightarrow> (case scan_u s4 of None \<Rightarrow> None
      | Some (status, _) \<Rightarrow> Some (major, minor, status))))))"

text \<open>
  The switch on \<open>status / 100\<close>: whether the reply has a body (unless the method was
  HEAD).
\<close>

definition status_has_body :: "u32 \<Rightarrow> bool" where
  "status_has_body status \<longleftrightarrow>
     status div 100 \<noteq> 1 \<and> \<not> (status div 100 \<in> {2, 3} \<and> status \<in> {204, 205, 304})"

text \<open>
  The version and the status stored in the reply, and the variable \<open>status\<close> that the
  rest of the function tests: when the line is not a status line the code never
  assigns it, and \<open>garbage\<close> is what it holds.
\<close>

definition parsed_status :: "u32 \<Rightarrow> string \<Rightarrow> int \<times> int \<times> u32" where
  "parsed_status garbage l =
     (case scan_status l of
        Some (major, minor, st) \<Rightarrow> (sint (0x10000 * major + minor), sint st, st)
      | None \<Rightarrow> (0x10000, 599, garbage))"

text \<open>
  \<open>parse_status_line\<close> after its call of \<open>get_line\<close>, which consumed \<open>n\<close> characters.
\<close>

definition process_status :: "('cb, 'h, 'z) signal \<Rightarrow> nat \<Rightarrow> nat \<Rightarrow> nat
    \<Rightarrow> ('cb, 'h, 'z) core_scheme \<Rightarrow> ('cb, 'h, 'z) core_scheme result" where
  "process_status sig c a n S =
     (let (version, rstatus, status) = parsed_status (indet_status S) (line (conns S a));
          S1 = upd_call c (\<lambda>k. k\<lparr>reply_version := version, reply_status := rstatus\<rparr>) S
      in ebind (deref (iov_base (iov (calls S1 c) ! ie_method))) (\<lambda>meth.
           let head = strcmp_eq meth ''HEAD'';
               S2 = upd_conn a (\<lambda>s. s\<lparr>has_body := \<not> head \<and> status_has_body status\<rparr>) S1
           in ebind (sig EV_CALL_RECV_START c (Lng (reply_status (calls S2 c))) S2) (\<lambda>S3.
                if \<not> head \<and> status = 100 then
                  let S4 = upd_conn a (\<lambda>s. s\<lparr>state := S_REPLY_CONTINUE\<rparr>) S3;
                      S5 = upd_call c (\<lambda>k. k\<lparr>header_bytes := header_bytes k + word_of_nat n\<rparr>) S4
                  in Inr (upd_conn a (\<lambda>s. s\<lparr>line := []\<rparr>) S5)
                else if S_CLOSING \<le> state (conns S3 a) then Inr S3
                else
                  let S4 = upd_conn a (\<lambda>s. s\<lparr>state := S_REPLY_HEADER\<rparr>) S3;
                      S5 = upd_call c (\<lambda>k. k\<lparr>header_bytes := header_bytes k + word_of_nat n\<rparr>) S4
                  in Inr (upd_conn a (\<lambda>s. s\<lparr>line := []\<rparr>) S5))))"

definition parse_status_line :: "('cb, 'h, 'z) signal \<Rightarrow> nat \<Rightarrow> nat \<Rightarrow> string
    \<Rightarrow> ('cb, 'h, 'z) core_scheme \<Rightarrow> (('cb, 'h, 'z) core_scheme \<times> string) result" where
  "parse_status_line sig c a buf S =
     (let S1 = upd_conn a (\<lambda>s. s\<lparr>is_chunked := False, content_length := - 1\<rparr>) S in
      ebind (get_line (conns S1 a) buf) (\<lambda>(full, s1, rest).
        let S2 = upd_conn a (\<lambda>_. s1) S1 in
        if \<not> full then Inr (S2, rest)
        else ebind (process_status sig c a (length buf - length rest) S2) (\<lambda>S3. Inr (S3, rest))))"

lemma parse_status_line_shorter:
  "parse_status_line sig c a buf S = Inr (S', rest) \<Longrightarrow> length rest < length buf \<or> buf = [] \<and> rest = []"
  by (auto simp: parse_status_line_def Inr_iff Let_def case_prod_beta
           dest!: get_line_shrinks split: if_splits)

section \<open>Header and footer lines\<close>

text \<open>What an empty line after the headers does.\<close>

definition end_of_headers :: "conn \<Rightarrow> conn" where
  "end_of_headers s =
     (if has_body s then
        if is_chunked s then s\<lparr>content_length := 0, state := S_REPLY_CHUNKED\<rparr>
        else s\<lparr>state := S_REPLY_DATA\<rparr>
      else if state s = S_REPLY_CONTINUE then s\<lparr>state := S_REPLY_HEADER\<rparr>
      else s\<lparr>state := S_REPLY_DONE\<rparr>)"

definition header_line :: "conn \<Rightarrow> conn" where
  "header_line s =
     (let hdr = line s in
      if tolower_c (hd hdr) = CHR ''c'' then
        if strncasecmp_eq hdr ''content-length:'' 15 then
          let n = fst (strtoul 10 (drop 15 hdr))
          in s\<lparr>content_length := n, has_body := (if n = 0 then False else has_body s)\<rparr>
        else s
      else if tolower_c (hd hdr) = CHR ''t'' then
        if strncasecmp_eq hdr ''transfer-encoding:'' 18
           \<and> strcasecmp_eq (dropWhile isspace_c (drop 18 hdr)) ''chunked''
        then s\<lparr>is_chunked := True\<rparr> else s
      else s)"

text \<open>
  The loop of \<open>parse_headers\<close>; the first component of the result is false when the
  connection was closed by a handler, and the function returns at once.
\<close>

function header_loop :: "('cb, 'h, 'z) signal \<Rightarrow> nat \<Rightarrow> nat \<Rightarrow> string
    \<Rightarrow> ('cb, 'h, 'z) core_scheme \<Rightarrow> (bool \<times> ('cb, 'h, 'z) core_scheme \<times> string) result" where
  "header_loop sig c a buf S =
     ebind (get_line (conns S a) buf) (\<lambda>(full, s1, rest).
       let S1 = upd_conn a (\<lambda>_. s1) S in
       if \<not> full then Inr (True, S1, rest)
       else if line s1 = [] then Inr (True, upd_conn a end_of_headers S1, rest)
       else ebind (sig EV_CALL_RECV_HDR c (Bytes (line s1)) (upd_conn a header_line S1)) (\<lambda>S2.
              if S_CLOSING \<le> state (conns S2 a) then Inr (False, S2, rest)
              else header_loop sig c a rest (upd_conn a (\<lambda>s. s\<lparr>line := []\<rparr>) S2)))"
  by pat_completeness auto
termination
  by (relation "measure (\<lambda>(sig, c, a, buf, S). length buf)")
     (auto dest: get_line_shorter get_line_full)

declare header_loop.simps [simp del]

definition parse_headers :: "('cb, 'h, 'z) signal \<Rightarrow> nat \<Rightarrow> nat \<Rightarrow> string
    \<Rightarrow> ('cb, 'h, 'z) core_scheme \<Rightarrow> (('cb, 'h, 'z) core_scheme \<times> string) result" where
  "parse_headers sig c a buf S =
      (ebind (header_loop sig c a buf S) (\<lambda>(ok, S1, rest).
         if \<not> ok then Inr (S1, rest)
         else Inr (upd_call c (\<lambda>k. k\<lparr>header_bytes := header_bytes k
                     + word_of_nat (length buf - length rest)\<rparr>) S1, rest)))"

function footer_loop :: "('cb, 'h, 'z) signal \<Rightarrow> nat \<Rightarrow> nat \<Rightarrow> string
    \<Rightarrow> ('cb, 'h, 'z) core_scheme \<Rightarrow> (bool \<times> ('cb, 'h, 'z) core_scheme \<times> string) result" where
  "footer_loop sig c a buf S =
     ebind (get_line (conns S a) buf) (\<lambda>(full, s1, rest).
       let S1 = upd_conn a (\<lambda>_. s1) S in
       if \<not> full then Inr (True, S1, rest)
       else if line s1 = [] then Inr (True, upd_conn a (\<lambda>s. s\<lparr>state := S_REPLY_DONE\<rparr>) S1, rest)
       else ebind (sig EV_CALL_RECV_FOOTER c (Bytes (line s1)) S1) (\<lambda>S2.
              if S_CLOSING \<le> state (conns S2 a) then Inr (False, S2, rest)
              else footer_loop sig c a rest (upd_conn a (\<lambda>s. s\<lparr>line := []\<rparr>) S2)))"
  by pat_completeness auto
termination
  by (relation "measure (\<lambda>(sig, c, a, buf, S). length buf)")
     (auto dest: get_line_shorter get_line_full)

declare footer_loop.simps [simp del]

definition parse_footers :: "('cb, 'h, 'z) signal \<Rightarrow> nat \<Rightarrow> nat \<Rightarrow> string
    \<Rightarrow> ('cb, 'h, 'z) core_scheme \<Rightarrow> (('cb, 'h, 'z) core_scheme \<times> string) result" where
  "parse_footers sig c a buf S =
      (ebind (footer_loop sig c a buf S) (\<lambda>(ok, S1, rest).
         if \<not> ok then Inr (S1, rest)
         else Inr (upd_call c (\<lambda>k. k\<lparr>footer_bytes := footer_bytes k
                     + word_of_nat (length buf - length rest)\<rparr>) S1, rest)))"

section \<open>The body\<close>

text \<open>The first component of the result is \<open>buf_len == bytes_needed\<close>.\<close>

definition parse_data :: "('cb, 'h, 'z) signal \<Rightarrow> nat \<Rightarrow> nat \<Rightarrow> string
    \<Rightarrow> ('cb, 'h, 'z) core_scheme \<Rightarrow> (bool \<times> ('cb, 'h, 'z) core_scheme \<times> string) result" where
  "parse_data sig c a buf S =
      (let bytes_needed = content_length (conns S a) - content_bytes (calls S c);
           n = (if unat bytes_needed < length buf then unat bytes_needed else length buf)
       in ebind (sig EV_CALL_RECV_DATA c (Bytes (take n buf)) S) (\<lambda>S1.
            Inr (n = unat bytes_needed,
                 upd_call c (\<lambda>k. k\<lparr>content_bytes := content_bytes k + word_of_nat n\<rparr>) S1,
                 drop n buf)))"

lemma parse_data_le: "parse_data sig c a buf S = Inr (b, S', rest) \<Longrightarrow> length rest \<le> length buf"
  by (auto simp: parse_data_def Let_def Inr_iff)

lemma parse_data_progress:
  assumes "parse_data sig c a buf S = Inr (b, S', rest)"
    and "\<not> content_length (conns S a) \<le> content_bytes (calls S c)" "buf \<noteq> []"
  shows "length rest < length buf"
proof -
  have "content_length (conns S a) - content_bytes (calls S c) \<noteq> 0" using assms(2) by auto
  then have "0 < unat (content_length (conns S a) - content_bytes (calls S c))"
    by (simp add: unat_gt_0)
  then show ?thesis using assms by (auto simp: parse_data_def Let_def Inr_iff)
qed

function chunk_loop :: "('cb, 'h, 'z) signal \<Rightarrow> nat \<Rightarrow> nat \<Rightarrow> string
    \<Rightarrow> ('cb, 'h, 'z) core_scheme \<Rightarrow> (('cb, 'h, 'z) core_scheme \<times> string) result" where
  "chunk_loop sig c a buf S =
     (if buf \<noteq> [] \<and> state (conns S a) < S_CLOSING then
        if content_length (conns S a) \<le> content_bytes (calls S c) then
          ebind (get_line (conns S a) buf) (\<lambda>(full, s1, rest).
            let S1 = upd_conn a (\<lambda>_. s1) S in
            if \<not> full then Inr (S1, rest)
            else if line s1 = [] then chunk_loop sig c a rest S1
            else
              let (chunk_length, n, erange) = strtoul 16 (line s1);
                  S2 = upd_conn a (\<lambda>s. s\<lparr>line := []\<rparr>) S1
              in if erange \<or> n = 0 then chunk_loop sig c a rest S2
                 else if chunk_length = 0
                 then Inr (upd_conn a (\<lambda>s. s\<lparr>state := S_REPLY_FOOTER\<rparr>) S2, rest)
                 else ebind (parse_data sig c a rest
                               (upd_conn a (\<lambda>s. s\<lparr>content_length := content_length s + chunk_length\<rparr>) S2))
                        (\<lambda>(_, S3, rest'). chunk_loop sig c a rest' S3))
        else ebind (parse_data sig c a buf S) (\<lambda>(_, S3, rest'). chunk_loop sig c a rest' S3)
      else Inr (S, buf))"
  by pat_completeness auto
termination
  by (relation "measure (\<lambda>(sig, c, a, buf, S). length buf)")
     (auto dest: get_line_shorter parse_data_progress parse_data_le intro: le_less_trans)

declare chunk_loop.simps [simp del]

lemma header_loop_le:
  "header_loop sig c a buf S = Inr (ok, S', rest) \<Longrightarrow> length rest < length buf \<or> buf = [] \<and> rest = []"
proof (induction sig c a buf S rule: header_loop.induct)
  case (1 sig c a buf S)
  obtain full s1 rest1 where g: "get_line (conns S a) buf = Inr (full, s1, rest1)"
    using "1.prems" by (subst (asm) header_loop.simps) (auto simp: Inr_iff)
  have "length rest1 < length buf \<or> buf = [] \<and> rest1 = []" using get_line_shrinks [OF g] .
  moreover have "length rest < length rest1 \<or> rest = rest1"
    using "1.prems" "1.IH" [OF g] g
    by (subst (asm) header_loop.simps) (auto simp: Inr_iff Let_def split: if_splits)
  ultimately show ?case by auto
qed

lemma footer_loop_le:
  "footer_loop sig c a buf S = Inr (ok, S', rest) \<Longrightarrow> length rest < length buf \<or> buf = [] \<and> rest = []"
proof (induction sig c a buf S rule: footer_loop.induct)
  case (1 sig c a buf S)
  obtain full s1 rest1 where g: "get_line (conns S a) buf = Inr (full, s1, rest1)"
    using "1.prems" by (subst (asm) footer_loop.simps) (auto simp: Inr_iff)
  have "length rest1 < length buf \<or> buf = [] \<and> rest1 = []" using get_line_shrinks [OF g] .
  moreover have "length rest < length rest1 \<or> rest = rest1"
    using "1.prems" "1.IH" [OF g] g
    by (subst (asm) footer_loop.simps) (auto simp: Inr_iff Let_def split: if_splits)
  ultimately show ?case by auto
qed

lemma parse_headers_shorter:
  "parse_headers sig c a buf S = Inr (S', rest) \<Longrightarrow> length rest < length buf \<or> buf = [] \<and> rest = []"
  by (auto simp: parse_headers_def Inr_iff dest!: header_loop_le split: if_splits)

lemma parse_footers_shorter:
  "parse_footers sig c a buf S = Inr (S', rest) \<Longrightarrow> length rest < length buf \<or> buf = [] \<and> rest = []"
  by (auto simp: parse_footers_def Inr_iff dest!: footer_loop_le split: if_splits)

definition xfer_chunked :: "('cb, 'h, 'z) signal \<Rightarrow> nat \<Rightarrow> nat \<Rightarrow> string
    \<Rightarrow> ('cb, 'h, 'z) core_scheme \<Rightarrow> (('cb, 'h, 'z) core_scheme \<times> string) result" where
  "xfer_chunked sig c a buf S = chunk_loop sig c a buf S"

lemma chunk_loop_le:
  "chunk_loop sig c a buf S = Inr (S', rest) \<Longrightarrow> length rest \<le> length buf
     \<and> (buf \<noteq> [] \<and> state (conns S a) < S_CLOSING \<longrightarrow> length rest < length buf)"
proof (induction sig c a buf S rule: chunk_loop.induct)
  case (1 sig c a buf S)
  show ?case
  proof (cases "buf \<noteq> [] \<and> state (conns S a) < S_CLOSING")
    case go: True
    show ?thesis
    proof (cases "content_length (conns S a) \<le> content_bytes (calls S c)")
      case True
      obtain full s1 rest1 where g: "get_line (conns S a) buf = Inr (full, s1, rest1)"
        using "1.prems" go True by (subst (asm) chunk_loop.simps) (auto simp: Inr_iff)
      have lt: "length rest1 < length buf" using get_line_shorter [OF g] go by auto
      let ?S1 = "upd_conn a (\<lambda>_. s1) S"
      let ?S2 = "upd_conn a (\<lambda>s. s\<lparr>line := []\<rparr>) ?S1"
      obtain len n er where st: "strtoul 16 (line s1) = (len, n, er)" by (cases "strtoul 16 (line s1)")
      let ?S3 = "upd_conn a (\<lambda>s. s\<lparr>content_length := content_length s + len\<rparr>) ?S2"
      have eq: "chunk_loop sig c a buf S =
         (if \<not> full then Inr (?S1, rest1)
          else if line s1 = [] then chunk_loop sig c a rest1 ?S1
          else if er \<or> n = 0 then chunk_loop sig c a rest1 ?S2
          else if len = 0 then Inr (upd_conn a (\<lambda>s. s\<lparr>state := S_REPLY_FOOTER\<rparr>) ?S2, rest1)
          else ebind (parse_data sig c a rest1 ?S3) (\<lambda>(_, S3, rest'). chunk_loop sig c a rest' S3))"
        using go True g st by (subst chunk_loop.simps) (simp add: Let_def)
      consider (stop) "rest = rest1"
        | (empty) "full" "line s1 = []" "chunk_loop sig c a rest1 ?S1 = Inr (S', rest)"
        | (bad) "full" "line s1 \<noteq> []" "er \<or> n = 0" "chunk_loop sig c a rest1 ?S2 = Inr (S', rest)"
        | (data) b S4 rest2 where "full" "line s1 \<noteq> []" "\<not> (er \<or> n = 0)" "len \<noteq> 0"
            "parse_data sig c a rest1 ?S3 = Inr (b, S4, rest2)" "chunk_loop sig c a rest2 S4 = Inr (S', rest)"
        using "1.prems" unfolding eq by (auto simp: Inr_iff split: if_splits)
      then have "length rest \<le> length rest1"
      proof cases
        case stop
        then show ?thesis by simp
      next
        case empty
        then show ?thesis using "1.IH"(1) [OF go True g refl refl refl] by simp
      next
        case bad
        then show ?thesis using "1.IH"(2) [OF go True g refl refl refl _ _ st [symmetric] refl refl] by simp
      next
        case data
        have "length rest2 \<le> length rest1" by (rule parse_data_le [OF data(5)])
        moreover have "length rest \<le> length rest2"
          using "1.IH"(3) [OF go True g refl refl refl _ _ st [symmetric] refl refl refl _ _ data(5)] data by simp
        ultimately show ?thesis by simp
      qed
      with lt show ?thesis by simp
    next
      case False
      obtain b S1 rest1 where d: "parse_data sig c a buf S = Inr (b, S1, rest1)"
        "chunk_loop sig c a rest1 S1 = Inr (S', rest)"
        using "1.prems" go False by (subst (asm) chunk_loop.simps) (auto simp: Inr_iff)
      have "length rest1 < length buf" using parse_data_progress [OF d(1)] False go by auto
      moreover have "length rest \<le> length rest1" using "1.IH"(4) [OF go False d(1)] d(2) by auto
      ultimately show ?thesis by simp
    qed
  next
    case False
    then show ?thesis using "1.prems" by (subst (asm) chunk_loop.simps) auto
  qed
qed

section \<open>The driver\<close>

text \<open>
  One round of the loop of \<open>http_process_reply_bytes\<close>: the switch on the state.  The
  first component is true when the round returns from the function.
\<close>

definition http_round :: "('cb, 'h, 'z) signal \<Rightarrow> nat \<Rightarrow> nat \<Rightarrow> string
    \<Rightarrow> ('cb, 'h, 'z) core_scheme \<Rightarrow> (bool \<times> ('cb, 'h, 'z) core_scheme \<times> string) result" where
  "http_round sig c a buf S =
     (case state (conns S a) of
        S_REPLY_STATUS \<Rightarrow> ebind (parse_status_line sig c a buf S) (\<lambda>(S1, rest). Inr (False, S1, rest))
      | S_REPLY_HEADER \<Rightarrow> ebind (parse_headers sig c a buf S) (\<lambda>(S1, rest). Inr (False, S1, rest))
      | S_REPLY_FOOTER \<Rightarrow> ebind (parse_footers sig c a buf S) (\<lambda>(S1, rest). Inr (False, S1, rest))
      | S_REPLY_DATA \<Rightarrow>
          ebind (parse_data sig c a buf S) (\<lambda>(complete, S1, rest).
            Inr (False, if complete \<and> state (conns S1 a) < S_CLOSING
                        then upd_conn a (\<lambda>s. s\<lparr>state := S_REPLY_DONE\<rparr>) S1 else S1, rest))
      | S_REPLY_CONTINUE \<Rightarrow> ebind (parse_headers sig c a buf S) (\<lambda>(S1, rest). Inr (False, S1, rest))
      | S_REPLY_CHUNKED \<Rightarrow> ebind (xfer_chunked sig c a buf S) (\<lambda>(S1, rest). Inr (False, S1, rest))
      | S_REPLY_DONE \<Rightarrow> Inr (True, S, buf)
      | _ \<Rightarrow> Inl (Exit 1))"

lemma http_round_progress:
  assumes "http_round sig c a buf S = Inr (False, S', rest)" "rest \<noteq> []" "state (conns S' a) < S_CLOSING"
  shows "length rest < length buf
     \<or> length rest \<le> length buf \<and> state (conns S' a) = S_REPLY_DONE \<and> state (conns S a) \<noteq> S_REPLY_DONE"
proof (cases "state (conns S a)")
  case S_REPLY_DATA
  then obtain b S1 where d: "parse_data sig c a buf S = Inr (b, S1, rest)"
    "S' = (if b \<and> state (conns S1 a) < S_CLOSING
           then upd_conn a (\<lambda>s. s\<lparr>state := S_REPLY_DONE\<rparr>) S1 else S1)"
    using assms(1) by (auto simp: http_round_def Inr_iff)
  have b
    using d(1) assms(2) by (auto simp: parse_data_def Let_def Inr_iff split: if_splits)
  then have "state (conns S' a) = S_REPLY_DONE"
    using d(2) assms(3) by (auto simp: upd_conn_def split: if_splits)
  then show ?thesis using parse_data_le [OF d(1)] S_REPLY_DATA by simp
next
  case S_REPLY_CHUNKED
  then have "chunk_loop sig c a buf S = Inr (S', rest)"
    using assms(1) by (auto simp: http_round_def Inr_iff xfer_chunked_def)
  from chunk_loop_le [OF this] show ?thesis using S_REPLY_CHUNKED assms(2) by auto
next
  case S_REPLY_STATUS
  then have "parse_status_line sig c a buf S = Inr (S', rest)"
    using assms(1) by (auto simp: http_round_def Inr_iff)
  from parse_status_line_shorter [OF this] show ?thesis using assms(2) by auto
next
  case S_REPLY_HEADER
  then have "parse_headers sig c a buf S = Inr (S', rest)"
    using assms(1) by (auto simp: http_round_def Inr_iff)
  from parse_headers_shorter [OF this] show ?thesis using assms(2) by auto
next
  case S_REPLY_CONTINUE
  then have "parse_headers sig c a buf S = Inr (S', rest)"
    using assms(1) by (auto simp: http_round_def Inr_iff)
  from parse_headers_shorter [OF this] show ?thesis using assms(2) by auto
next
  case S_REPLY_FOOTER
  then have "parse_footers sig c a buf S = Inr (S', rest)"
    using assms(1) by (auto simp: http_round_def Inr_iff)
  from parse_footers_shorter [OF this] show ?thesis using assms(2) by auto
qed (use assms(1) in \<open>auto simp: http_round_def\<close>)

function http_loop :: "('cb, 'h, 'z) signal \<Rightarrow> nat \<Rightarrow> nat \<Rightarrow> string
    \<Rightarrow> ('cb, 'h, 'z) core_scheme \<Rightarrow> (('cb, 'h, 'z) core_scheme \<times> string) result" where
  "http_loop sig c a buf S =
     ebind (http_round sig c a buf S) (\<lambda>(stop, S1, rest).
       if \<not> stop \<and> rest \<noteq> [] \<and> state (conns S1 a) < S_CLOSING then http_loop sig c a rest S1
       else Inr (S1, rest))"
  by pat_completeness auto
termination
  by (relation "measure (\<lambda>(sig, c, a, buf, S). 2 * length buf
                  + (if state (conns S a) = S_REPLY_DONE then 0 else 1))")
     (force dest: http_round_progress)+

declare http_loop.simps [simp del]

definition http_process_reply_bytes :: "('cb, 'h, 'z) signal \<Rightarrow> nat \<Rightarrow> string
    \<Rightarrow> ('cb, 'h, 'z) core_scheme \<Rightarrow> (('cb, 'h, 'z) core_scheme \<times> string) result" where
  "http_process_reply_bytes sig c buf S =
     ebind (deref (call_conn (calls S c))) (\<lambda>a.
       ebind (sig EV_CALL_RECV_RAW_DATA c (Bytes buf) S) (\<lambda>S1. http_loop sig c a buf S1))"

end
