(* ===== verification/Http_Stream.thy ===== *)
theory Http_Stream
  imports Http
begin

text \<open>
  What the reply parser computes does not depend on how the network cuts the reply
  into pieces: parsing a buffer is parsing its bytes one by one.  The handlers
  considered here only observe: they change the part of the state that the core
  does not own, and see the body as a stream of bytes.  The one thing that depends
  on the pieces is \<open>header_bytes\<close>: \<open>parse_status_line\<close> does not count the bytes of
  a status line that was not complete in one piece.
\<close>

section \<open>A normal form for states\<close>

definition put_conn :: "nat \<Rightarrow> conn \<Rightarrow> ('cb, 'h, 'z) core_scheme \<Rightarrow> ('cb, 'h, 'z) core_scheme" where
  "put_conn a v S = S\<lparr>conns := (conns S)(a := v)\<rparr>"

definition put_call :: "nat \<Rightarrow> call \<Rightarrow> ('cb, 'h, 'z) core_scheme \<Rightarrow> ('cb, 'h, 'z) core_scheme" where
  "put_call c v S = S\<lparr>calls := (calls S)(c := v)\<rparr>"

definition tell :: "('z \<Rightarrow> 'z) \<Rightarrow> ('cb, 'h, 'z) core_scheme \<Rightarrow> ('cb, 'h, 'z) core_scheme" where
  "tell f S = core.more_update f S"

lemma upd_put:
  "upd_conn a f S = put_conn a (f (conns S a)) S"
  "upd_call c g S = put_call c (g (calls S c)) S"
  by (simp_all add: upd_conn_def upd_call_def put_conn_def put_call_def)

lemma upd_simps [simp]:
  "conns (upd_conn a f S) = (conns S)(a := f (conns S a))" "calls (upd_conn a f S) = calls S"
  "conns (upd_call c g S) = conns S" "calls (upd_call c g S) = (calls S)(c := g (calls S c))"
  "indet_status (upd_conn a f S) = indet_status S" "indet_status (upd_call c g S) = indet_status S"
  "core.more (upd_conn a f S) = core.more S" "core.more (upd_call c g S) = core.more S"
  by (simp_all add: upd_conn_def upd_call_def)

lemma put_simps [simp]:
  "conns (put_conn a v S) = (conns S)(a := v)" "calls (put_conn a v S) = calls S"
  "conns (put_call c w S) = conns S" "calls (put_call c w S) = (calls S)(c := w)"
  "conns (tell f S) = conns S" "calls (tell f S) = calls S"
  "indet_status (put_conn a v S) = indet_status S" "indet_status (put_call c w S) = indet_status S"
  "indet_status (tell f S) = indet_status S"
  "core.more (put_conn a v S) = core.more S" "core.more (put_call c w S) = core.more S"
  "core.more (tell f S) = f (core.more S)"
  by (simp_all add: put_conn_def put_call_def tell_def)

lemma put_order [simp]:
  "put_conn a v (put_conn a v' S) = put_conn a v S"
  "put_call c w (put_call c w' S) = put_call c w S"
  "put_call c w (put_conn a v S) = put_conn a v (put_call c w S)"
  "tell f (put_conn a v S) = put_conn a v (tell f S)"
  "tell f (put_call c w S) = put_call c w (tell f S)"
  "tell f (tell g S) = tell (f \<circ> g) S"
  "tell id S = S"
  by (rule core.equality; simp add: put_conn_def put_call_def tell_def)+

lemma tell_same [simp]: "tell (\<lambda>x. x) S = S"
  by (rule core.equality) (simp_all add: tell_def)

lemma put_same [simp]: "put_conn a (conns S a) S = S" "put_call c (calls S c) S = S"
  by (simp_all add: put_conn_def put_call_def)

section \<open>One byte of a line\<close>

lemma get_line_byte:
  assumes "ch \<noteq> NUL" "ch \<noteq> LF" "length (line s) < 1022"
  shows "get_line s [ch] = Inr (False, s\<lparr>line := line s @ [ch]\<rparr>, [])"
    and "cs \<noteq> [] \<Longrightarrow> get_line s (ch # cs) = get_line (s\<lparr>line := line s @ [ch]\<rparr>) cs"
proof -
  show "get_line s [ch] = Inr (False, s\<lparr>line := line s @ [ch]\<rparr>, [])"
    using assms by (simp add: get_line_def line_end_def strchr_def cstr_def Let_def)
  have eol: "strchr (ch # cs) LF = map_option Suc (strchr cs LF)"
    using assms(1,2) by (simp add: strchr_def cstr_def Let_def)
  have fin: "line_end (s\<lparr>line := m\<rparr>) l rest = line_end s l rest" for m l rest
    by (simp add: line_end_def byte_before_line_def Let_def)
  show "get_line s (ch # cs) = get_line (s\<lparr>line := line s @ [ch]\<rparr>) cs" if "cs \<noteq> []"
  proof -
    define e where "e = (case strchr cs LF of Some i \<Rightarrow> Suc i | None \<Rightarrow> length cs)"
    have e: "(case strchr (ch # cs) LF of Some i \<Rightarrow> Suc i | None \<Rightarrow> length (ch # cs)) = Suc e"
      unfolding eol e_def by (cases "strchr cs LF") simp_all
    show ?thesis
    proof (cases "1024 \<le> length (line s) + Suc e")
      case True
      then have "1024 - 1 - length (line s) = Suc (1024 - 1 - length (line s @ [ch]))"
        using assms(3) by simp
      then show ?thesis
        using True that assms(3) unfolding get_line_def e e_def [symmetric] Let_def by (simp add: fin)
    next
      case False
      then show ?thesis
        using that assms(3) unfolding get_line_def e e_def [symmetric] Let_def by (simp add: fin)
    qed
  qed
qed

definition chop_CR :: "string \<Rightarrow> string" where
  "chop_CR l = (if l \<noteq> [] \<and> last l = CR then butlast l else l)"

lemma get_line_LF:
  assumes "length (line s) < 1022" "line s \<noteq> [] \<or> byte_before_line s \<noteq> CR"
  shows "get_line s (LF # cs) = Inr (True, s\<lparr>line := chop_CR (line s)\<rparr>, cs)"
  using assms by (auto simp: get_line_def line_end_def strchr_def cstr_def Let_def chop_CR_def)

lemma get_line_Nil [simp]: "get_line s [] = Inr (False, s, [])"
  by (simp add: get_line_def)

section \<open>Observers\<close>

locale observer =
  fixes sig :: "('cb, 'h, 'z) signal"
    and h :: "event_type \<Rightarrow> any_type \<Rightarrow> 'z \<Rightarrow> 'z"
  assumes sig_law: "sig ev ob arg S = Inr (tell (h ev arg) S)"
    and data_append: "h EV_CALL_RECV_DATA (Bytes (x @ y))
          = h EV_CALL_RECV_DATA (Bytes y) \<circ> h EV_CALL_RECV_DATA (Bytes x)"
    and data_Nil: "h EV_CALL_RECV_DATA (Bytes []) = id"

text \<open>\<open>addh c k\<close> adds \<open>k\<close> to the counter that the parser only ever adds to.\<close>

definition addh :: "nat \<Rightarrow> u64 \<Rightarrow> ('cb, 'h, 'z) core_scheme \<Rightarrow> ('cb, 'h, 'z) core_scheme" where
  "addh c k S = upd_call c (\<lambda>q. q\<lparr>header_bytes := header_bytes q + k\<rparr>) S"

lemma addh_fields [simp]:
  "conns (addh c k S) = conns S" "indet_status (addh c k S) = indet_status S"
  "content_bytes (calls (addh c k S) c) = content_bytes (calls S c)"
  "footer_bytes (calls (addh c k S) c) = footer_bytes (calls S c)"
  "reply_status (calls (addh c k S) c) = reply_status (calls S c)"
  "reply_version (calls (addh c k S) c) = reply_version (calls S c)"
  "iov (calls (addh c k S) c) = iov (calls S c)" "call_conn (calls (addh c k S) c) = call_conn (calls S c)"
  "core.more (addh c k S) = core.more S"
  by (simp_all add: addh_def upd_call_def)

lemma addh_commute:
  "upd_conn a f (addh c k S) = addh c k (upd_conn a f S)"
  "tell g (addh c k S) = addh c k (tell g S)"
  "upd_call c (\<lambda>q. q\<lparr>content_bytes := content_bytes q + n\<rparr>) (addh c k S)
     = addh c k (upd_call c (\<lambda>q. q\<lparr>content_bytes := content_bytes q + n\<rparr>) S)"
  "upd_call c (\<lambda>q. q\<lparr>footer_bytes := footer_bytes q + n\<rparr>) (addh c k S)
     = addh c k (upd_call c (\<lambda>q. q\<lparr>footer_bytes := footer_bytes q + n\<rparr>) S)"
  "upd_call c (\<lambda>q. q\<lparr>header_bytes := header_bytes q + n\<rparr>) (addh c k S)
     = addh c k (upd_call c (\<lambda>q. q\<lparr>header_bytes := header_bytes q + n\<rparr>) S)"
  "upd_call c (\<lambda>q. q\<lparr>reply_version := v, reply_status := r\<rparr>) (addh c k S)
     = addh c k (upd_call c (\<lambda>q. q\<lparr>reply_version := v, reply_status := r\<rparr>) S)"
  by (simp_all add: addh_def upd_put ac_simps) (rule arg_cong [where f = "\<lambda>w. put_call c w S"], rule call.equality; simp)+

lemma addh_0 [simp]: "addh c 0 S = S"
  by (simp add: addh_def upd_put)

lemma addh_add: "addh c k (addh c l S) = addh c (k + l) S"
  by (simp add: addh_def upd_put ac_simps)

text \<open>
  A call that is being received, and a byte that the parser takes the way the
  protocol means it: in a line there is no NUL, the line fits the line buffer, an
  empty line ended by a bare LF does not meet the bit-fields that \<open>get_line\<close> would
  mistake for a CR, and the announced total size fits \<open>size_t\<close>.
\<close>

definition live :: "nat \<Rightarrow> nat \<Rightarrow> ('cb, 'h, 'z) core_scheme \<Rightarrow> bool" where
  "live c a S \<longleftrightarrow> S_REPLY_STATUS \<le> state (conns S a) \<and> state (conns S a) < S_CLOSING
     \<and> call_conn (calls S c) = Some a \<and> iov_base (iov (calls S c) ! ie_method) \<noteq> None
     \<and> (state (conns S a) \<in> {S_REPLY_STATUS, S_REPLY_HEADER, S_REPLY_CONTINUE} \<longrightarrow> content_bytes (calls S c) = 0)
     \<and> (state (conns S a) = S_REPLY_CHUNKED \<longrightarrow> content_bytes (calls S c) \<le> content_length (conns S a))"

definition at_line :: "nat \<Rightarrow> nat \<Rightarrow> ('cb, 'h, 'z) core_scheme \<Rightarrow> bool" where
  "at_line c a S \<longleftrightarrow>
     state (conns S a) \<in> {S_REPLY_STATUS, S_REPLY_HEADER, S_REPLY_CONTINUE, S_REPLY_FOOTER}
     \<or> state (conns S a) = S_REPLY_CHUNKED \<and> content_length (conns S a) \<le> content_bytes (calls S c)"

definition clean_byte :: "nat \<Rightarrow> nat \<Rightarrow> char \<Rightarrow> ('cb, 'h, 'z) core_scheme \<Rightarrow> bool" where
  "clean_byte c a ch S \<longleftrightarrow>
     (at_line c a S \<longrightarrow> ch \<noteq> NUL \<and> length (line (conns S a)) < 1022
        \<and> (ch = LF \<longrightarrow>
             (line (conns S a) = [] \<longrightarrow>
                \<not> (has_body (conns S a) \<and> reading (conns S a) \<and> writing (conns S a)))
             \<and> (state (conns S a) = S_REPLY_CHUNKED \<longrightarrow>
                  unat (content_length (conns S a))
                    + unat (fst (strtoul 16 (chop_CR (line (conns S a))))) < 2 ^ 64)))"

context observer
begin

lemma header_loop_addh:
  "header_loop sig c a buf (addh c k S) = ebind (header_loop sig c a buf S) (\<lambda>(b, T, r). Inr (b, addh c k T, r))"
proof (induction buf arbitrary: S rule: length_induct)
  case (1 buf)
  show ?case
  proof (cases "get_line (conns S a) buf")
    case (Inr x)
    obtain full s1 rest where x: "x = (full, s1, rest)" by (cases x) auto
    have IH: "full \<Longrightarrow> header_loop sig c a rest (addh c k T)
        = ebind (header_loop sig c a rest T) (\<lambda>(b, T, r). Inr (b, addh c k T, r))" for T
      using 1 get_line_shorter [of "conns S a" buf full s1 rest] get_line_full [of "conns S a" buf s1 rest]
        Inr x by auto
    show ?thesis
      using Inr x IH
      by (subst (1 2) header_loop.simps) (simp add: Let_def sig_law addh_commute)
  qed (subst (1 2) header_loop.simps, simp)
qed

lemma footer_loop_addh:
  "footer_loop sig c a buf (addh c k S) = ebind (footer_loop sig c a buf S) (\<lambda>(b, T, r). Inr (b, addh c k T, r))"
proof (induction buf arbitrary: S rule: length_induct)
  case (1 buf)
  show ?case
  proof (cases "get_line (conns S a) buf")
    case (Inr x)
    obtain full s1 rest where x: "x = (full, s1, rest)" by (cases x) auto
    have IH: "full \<Longrightarrow> footer_loop sig c a rest (addh c k T)
        = ebind (footer_loop sig c a rest T) (\<lambda>(b, T, r). Inr (b, addh c k T, r))" for T
      using 1 get_line_shorter [of "conns S a" buf full s1 rest] get_line_full [of "conns S a" buf s1 rest]
        Inr x by auto
    show ?thesis
      using Inr x IH
      by (subst (1 2) footer_loop.simps) (simp add: Let_def sig_law addh_commute)
  qed (subst (1 2) footer_loop.simps, simp)
qed

lemma parse_data_addh:
  "parse_data sig c a buf (addh c k S) = ebind (parse_data sig c a buf S) (\<lambda>(b, T, r). Inr (b, addh c k T, r))"
  by (simp add: parse_data_def Let_def sig_law addh_commute)

lemma chunk_loop_addh:
  "chunk_loop sig c a buf (addh c k S) = ebind (chunk_loop sig c a buf S) (\<lambda>(T, r). Inr (addh c k T, r))"
proof (induction buf arbitrary: S rule: length_induct)
  case (1 buf)
  show ?case
  proof (cases "buf \<noteq> [] \<and> state (conns S a) < S_CLOSING")
    case go: True
    show ?thesis
    proof (cases "content_length (conns S a) \<le> content_bytes (calls S c)")
      case True
      show ?thesis
      proof (cases "get_line (conns S a) buf")
        case (Inl e)
        then show ?thesis using go True by (subst (1 2) chunk_loop.simps) simp
      next
        case (Inr x)
        obtain full s1 rest where x: "x = (full, s1, rest)" by (cases x) auto
        have IH: "length rest' \<le> length rest \<Longrightarrow> chunk_loop sig c a rest' (addh c k T)
            = ebind (chunk_loop sig c a rest' T) (\<lambda>(T, r). Inr (addh c k T, r))" for rest' T
          using 1 get_line_shorter [of "conns S a" buf full s1 rest] go Inr x by auto
        obtain len n er where st: "strtoul 16 (line s1) = (len, n, er)" by (cases "strtoul 16 (line s1)")
        have PD: "ebind (parse_data sig c a rest (addh c k T)) (\<lambda>(_, T, r). chunk_loop sig c a r T)
           = ebind (ebind (parse_data sig c a rest T) (\<lambda>(_, T, r). chunk_loop sig c a r T))
               (\<lambda>(T, r). Inr (addh c k T, r))" for T
        proof (cases "parse_data sig c a rest T")
          case (Inr y)
          obtain b T1 r where "y = (b, T1, r)" by (cases y) auto
          then show ?thesis using Inr parse_data_le [of sig c a rest T] IH by (auto simp: parse_data_addh)
        qed (simp add: parse_data_addh)
        show ?thesis
          using go True Inr x st IH [OF order_refl] PD
          by (subst (1 2) chunk_loop.simps) (simp add: Let_def addh_commute)
      qed
    next
      case False
      show ?thesis
      proof (cases "parse_data sig c a buf S")
        case (Inl e)
        then show ?thesis using go False by (subst (1 2) chunk_loop.simps) (simp add: parse_data_addh)
      next
        case (Inr y)
        obtain b T1 r where y: "y = (b, T1, r)" by (cases y) auto
        have "length r < length buf" using parse_data_progress [of sig c a buf S b T1 r] Inr y False go by auto
        then show ?thesis
          using 1 go False Inr y by (subst (1 2) chunk_loop.simps) (simp add: parse_data_addh)
      qed
    qed
  next
    case False
    then show ?thesis by (subst (1 2) chunk_loop.simps) auto
  qed
qed

lemma process_status_addh:
  "process_status sig c a n (addh c k S) = ebind (process_status sig c a n S) (\<lambda>T. Inr (addh c k T))"
proof -
  obtain v r st where p: "parsed_status (indet_status S) (line (conns S a)) = (v, r, st)"
    by (cases "parsed_status (indet_status S) (line (conns S a))") auto
  show ?thesis
  proof (cases "iov_base (iov (calls S c) ! ie_method)")
    case None
    then show ?thesis using p by (simp add: process_status_def Let_def addh_commute)
  next
    case (Some meth)
    then show ?thesis
      using p by (cases "\<not> strcmp_eq meth ''HEAD'' \<and> st = 100")
        (auto simp: process_status_def Let_def sig_law addh_commute)
  qed
qed

lemma process_status_Suc:
  assumes "state (conns S a) < S_CLOSING"
  shows "process_status sig c a (Suc n) S = ebind (process_status sig c a n S) (\<lambda>T. Inr (addh c 1 T))"
proof -
  obtain v r st where p: "parsed_status (indet_status S) (line (conns S a)) = (v, r, st)"
    by (cases "parsed_status (indet_status S) (line (conns S a))") auto
  show ?thesis
  proof (cases "iov_base (iov (calls S c) ! ie_method)")
    case None
    then show ?thesis using p by (simp add: process_status_def Let_def)
  next
    case (Some meth)
    then show ?thesis
      using p assms by (cases "\<not> strcmp_eq meth ''HEAD'' \<and> st = 100")
        (auto simp: process_status_def Let_def sig_law upd_put addh_def ac_simps)
  qed
qed

lemma parse_status_line_addh:
  "parse_status_line sig c a buf (addh c k S) = ebind (parse_status_line sig c a buf S) (\<lambda>(T, r). Inr (addh c k T, r))"
proof (cases "get_line (conns (upd_conn a (\<lambda>s. s\<lparr>is_chunked := False, content_length := - 1\<rparr>) S) a) buf")
  case (Inr x)
  obtain full s1 rest where x: "x = (full, s1, rest)" by (cases x) auto
  show ?thesis
    using Inr x
    by (simp add: parse_status_line_def Let_def addh_commute process_status_addh ebind_assoc)
qed (simp add: parse_status_line_def Let_def addh_commute)

lemma parse_headers_addh:
  "parse_headers sig c a buf (addh c k S) = ebind (parse_headers sig c a buf S) (\<lambda>(T, r). Inr (addh c k T, r))"
  by (cases "header_loop sig c a buf S") (auto simp: parse_headers_def header_loop_addh addh_commute)

lemma parse_footers_addh:
  "parse_footers sig c a buf (addh c k S) = ebind (parse_footers sig c a buf S) (\<lambda>(T, r). Inr (addh c k T, r))"
  by (cases "footer_loop sig c a buf S") (auto simp: parse_footers_def footer_loop_addh addh_commute)

lemma http_round_addh:
  "http_round sig c a buf (addh c k S)
     = ebind (http_round sig c a buf S) (\<lambda>(b, T, r). Inr (b, addh c k T, r))"
proof (cases "state (conns S a)")
  case S_REPLY_DATA
  then show ?thesis
    by (cases "parse_data sig c a buf S") (auto simp: http_round_def parse_data_addh addh_commute)
qed (simp_all add: http_round_def parse_status_line_addh parse_headers_addh parse_footers_addh
      chunk_loop_addh xfer_chunked_def ebind_assoc case_prod_beta)

lemma http_loop_addh:
  "http_loop sig c a buf (addh c k S) = ebind (http_loop sig c a buf S) (\<lambda>(T, r). Inr (addh c k T, r))"
proof (induction "2 * length buf + (if state (conns S a) = S_REPLY_DONE then 0 else 1)" arbitrary: buf S
    rule: less_induct)
  case less
  show ?case
  proof (cases "http_round sig c a buf S")
    case (Inr x)
    obtain b T r where x: "x = (b, T, r)" by (cases x) auto
    have "\<not> b \<and> r \<noteq> [] \<and> state (conns T a) < S_CLOSING \<Longrightarrow>
        http_loop sig c a r (addh c k T) = ebind (http_loop sig c a r T) (\<lambda>(T, r). Inr (addh c k T, r))"
      using http_round_progress [of sig c a buf S T r] Inr x by (intro less) auto
    then show ?thesis using Inr x by (subst (1 2) http_loop.simps) (simp add: http_round_addh)
  qed (subst (1 2) http_loop.simps, simp add: http_round_addh)
qed

lemma http_loop_addh_round:
  assumes "http_round sig c a buf S = ebind (http_round sig c a buf' S') (\<lambda>(b, T, r). Inr (b, addh c k T, r))"
  shows "http_loop sig c a buf S = ebind (http_loop sig c a buf' S') (\<lambda>(T, r). Inr (addh c k T, r))"
  using assms
  by (cases "http_round sig c a buf' S'")
     (subst (1 2) http_loop.simps, auto simp: http_loop_addh case_prod_beta)+

lemma http_loop_round:
  assumes "http_round sig c a buf S = Inr (False, T, r)"
  shows "r = [] \<Longrightarrow> http_loop sig c a buf S = Inr (T, [])"
    and "r \<noteq> [] \<Longrightarrow> state (conns T a) < S_CLOSING \<Longrightarrow> http_loop sig c a buf S = http_loop sig c a r T"
  using assms by (subst http_loop.simps, simp)+

lemma http_loop_done:
  "state (conns S a) = S_REPLY_DONE \<Longrightarrow> http_loop sig c a buf S = Inr (S, buf)"
  by (subst http_loop.simps) (simp add: http_round_def)

section \<open>One byte of a reply\<close>

lemma status_byte:
  assumes open_conn: "state (conns S a) < S_CLOSING"
    and "ch \<noteq> NUL" "ch \<noteq> LF" "length (line (conns S a)) < 1022"
  defines "T \<equiv> put_conn a ((conns S a)\<lparr>line := line (conns S a) @ [ch],
                  is_chunked := False, content_length := - 1\<rparr>) S"
  shows "parse_status_line sig c a [ch] S = Inr (T, [])"
    and "cs \<noteq> [] \<Longrightarrow> \<exists>k. parse_status_line sig c a (ch # cs) S
           = ebind (parse_status_line sig c a cs T) (\<lambda>(U, r). Inr (addh c k U, r))"
proof -
  let ?s = "(conns S a)\<lparr>is_chunked := False, content_length := - 1\<rparr>"
  let ?t = "(conns S a)\<lparr>line := line (conns S a) @ [ch], is_chunked := False, content_length := - 1\<rparr>"
  have t: "?s\<lparr>line := line ?s @ [ch]\<rparr> = ?t" by (rule conn.equality) simp_all
  have l: "length (line ?s) < 1022" using assms(4) by simp
  note byte = get_line_byte [OF assms(2,3) l, unfolded t]
  show "parse_status_line sig c a [ch] S = Inr (T, [])"
    using byte(1) by (simp add: parse_status_line_def upd_put T_def)
  assume cs: "cs \<noteq> []"
  have g: "get_line ?s (ch # cs) = get_line ?t cs" using byte(2) [OF cs] .
  show "\<exists>k. parse_status_line sig c a (ch # cs) S
      = ebind (parse_status_line sig c a cs T) (\<lambda>(U, r). Inr (addh c k U, r))"
  proof (cases "get_line ?t cs")
    case (Inl e)
    then show ?thesis using g by (simp add: parse_status_line_def upd_put T_def)
  next
    case (Inr x)
    obtain full s1 rest where x: "x = (full, s1, rest)" by (cases x) auto
    have n: "length (ch # cs) - length rest = Suc (length cs - length rest)"
      using get_line_le [of ?t cs] Inr x by (auto simp: Suc_diff_le)
    have same: "state s1 = state (conns S a)" using get_line_other [of ?t cs] Inr x by fastforce
    show ?thesis
    proof (cases full)
      case False
      then show ?thesis using g Inr x
        by (intro exI [of _ 0]) (simp add: parse_status_line_def upd_put T_def)
    next
      case True
      have "parse_status_line sig c a (ch # cs) S
          = ebind (process_status sig c a (Suc (length cs - length rest)) (put_conn a s1 S)) (\<lambda>U. Inr (U, rest))"
        using g Inr x True n by (simp add: parse_status_line_def upd_put)
      moreover have "parse_status_line sig c a cs T
          = ebind (process_status sig c a (length cs - length rest) (put_conn a s1 S)) (\<lambda>U. Inr (U, rest))"
        using Inr x True by (simp add: parse_status_line_def upd_put T_def)
      ultimately show ?thesis
        using process_status_Suc [of "put_conn a s1 S" a c] same open_conn
        by (intro exI [of _ 1]) (simp add: ebind_assoc)
    qed
  qed
qed

lemma header_byte:
  assumes "ch \<noteq> NUL" "ch \<noteq> LF" "length (line (conns S a)) < 1022"
  defines "T \<equiv> put_conn a ((conns S a)\<lparr>line := line (conns S a) @ [ch]\<rparr>) S"
  shows "header_loop sig c a [ch] S = Inr (True, T, [])"
    and "cs \<noteq> [] \<Longrightarrow> header_loop sig c a (ch # cs) S = header_loop sig c a cs T"
    and "footer_loop sig c a [ch] S = Inr (True, T, [])"
    and "cs \<noteq> [] \<Longrightarrow> footer_loop sig c a (ch # cs) S = footer_loop sig c a cs T"
proof -
  note byte = get_line_byte [OF assms(1-3)]
  show "header_loop sig c a [ch] S = Inr (True, T, [])"
    using byte(1) by (subst header_loop.simps) (simp add: upd_put T_def)
  show "footer_loop sig c a [ch] S = Inr (True, T, [])"
    using byte(1) by (subst footer_loop.simps) (simp add: upd_put T_def)
  have T: "upd_conn a (\<lambda>_. s1) T = upd_conn a (\<lambda>_. s1) S" "conns T a = (conns S a)\<lparr>line := line (conns S a) @ [ch]\<rparr>"
    for s1 by (simp_all add: upd_put T_def)
  show "header_loop sig c a (ch # cs) S = header_loop sig c a cs T" if "cs \<noteq> []"
    by (subst (1 2) header_loop.simps) (simp only: byte(2) [OF that] T)
  show "footer_loop sig c a (ch # cs) S = footer_loop sig c a cs T" if "cs \<noteq> []"
    by (subst (1 2) footer_loop.simps) (simp only: byte(2) [OF that] T)
qed

lemma header_LF:
  fixes S :: "('cb, 'h, 'z) core_scheme"
  assumes "length (line (conns S a)) < 1022"
    "line (conns S a) \<noteq> [] \<or> \<not> (has_body (conns S a) \<and> reading (conns S a) \<and> writing (conns S a))"
  defines "s1 \<equiv> (conns S a)\<lparr>line := chop_CR (line (conns S a))\<rparr>"
  defines "H \<equiv> put_conn a ((header_line s1)\<lparr>line := []\<rparr>) (tell (h EV_CALL_RECV_HDR (Bytes (line s1))) S)"
    and "F \<equiv> put_conn a (s1\<lparr>line := []\<rparr>) (tell (h EV_CALL_RECV_FOOTER (Bytes (line s1))) S)"
  shows "header_loop sig c a (LF # cs) S =
           (if line s1 = [] then Inr (True, put_conn a (end_of_headers s1) S, cs)
            else if S_CLOSING \<le> state (conns S a)
            then Inr (False, put_conn a (header_line s1) (tell (h EV_CALL_RECV_HDR (Bytes (line s1))) S), cs)
            else header_loop sig c a cs H)"
    and "footer_loop sig c a (LF # cs) S =
           (if line s1 = [] then Inr (True, put_conn a (s1\<lparr>state := S_REPLY_DONE\<rparr>) S, cs)
            else if S_CLOSING \<le> state (conns S a)
            then Inr (False, put_conn a s1 (tell (h EV_CALL_RECV_FOOTER (Bytes (line s1))) S), cs)
            else footer_loop sig c a cs F)"
proof -
  have "line (conns S a) \<noteq> [] \<or> byte_before_line (conns S a) \<noteq> CR"
    using assms(2) by (auto simp: byte_before_line_CR)
  note g = get_line_LF [OF assms(1) this, folded s1_def]
  have st: "state (header_line s1) = state (conns S a)" "state s1 = state (conns S a)"
    by (auto simp: header_line_def s1_def Let_def)
  show "header_loop sig c a (LF # cs) S =
           (if line s1 = [] then Inr (True, put_conn a (end_of_headers s1) S, cs)
            else if S_CLOSING \<le> state (conns S a)
            then Inr (False, put_conn a (header_line s1) (tell (h EV_CALL_RECV_HDR (Bytes (line s1))) S), cs)
            else header_loop sig c a cs H)"
    by (subst header_loop.simps) (simp add: g Let_def upd_put sig_law st H_def)
  show "footer_loop sig c a (LF # cs) S =
           (if line s1 = [] then Inr (True, put_conn a (s1\<lparr>state := S_REPLY_DONE\<rparr>) S, cs)
            else if S_CLOSING \<le> state (conns S a)
            then Inr (False, put_conn a s1 (tell (h EV_CALL_RECV_FOOTER (Bytes (line s1))) S), cs)
            else footer_loop sig c a cs F)"
    by (subst footer_loop.simps) (simp add: g Let_def upd_put sig_law st F_def)
qed

lemma loop_Nil:
  "header_loop sig c a [] S = Inr (True, S, [])"
  "footer_loop sig c a [] S = Inr (True, S, [])"
  "chunk_loop sig c a [] S = Inr (S, [])"
  by (subst header_loop.simps footer_loop.simps chunk_loop.simps, simp add: upd_put)+

lemma parse_data_byte:
  fixes S :: "('cb, 'h, 'z) core_scheme" and a c :: nat and ch :: char
  defines "m \<equiv> unat (content_length (conns S a) - content_bytes (calls S c))"
    and "T \<equiv> put_call c ((calls S c)\<lparr>content_bytes := content_bytes (calls S c) + 1\<rparr>)
               (tell (h EV_CALL_RECV_DATA (Bytes [ch])) S)"
  assumes "0 < m"
  shows "parse_data sig c a [ch] S = Inr (m = 1, T, [])"
    and "m = 1 \<Longrightarrow> parse_data sig c a (ch # cs) S = Inr (True, T, cs)"
    and "1 < m \<Longrightarrow> parse_data sig c a (ch # cs) S = parse_data sig c a cs T"
    and "1 < m \<Longrightarrow> \<not> content_length (conns T a) \<le> content_bytes (calls T c)
           \<or> content_length (conns S a) \<le> content_bytes (calls S c)"
proof -
  show "parse_data sig c a [ch] S = Inr (m = 1, T, [])"
    using assms(3) by (auto simp: parse_data_def m_def [symmetric] Let_def sig_law upd_put T_def)
  show "parse_data sig c a (ch # cs) S = Inr (True, T, cs)" if "m = 1"
    using that by (auto simp: parse_data_def m_def [symmetric] Let_def sig_law upd_put T_def)
  have T: "conns T = conns S" "content_bytes (calls T c) = content_bytes (calls S c) + 1"
    by (simp_all add: T_def)
  show "parse_data sig c a (ch # cs) S = parse_data sig c a cs T" if "1 < m"
  proof -
    define n where "n = (if m - 1 < length cs then m - 1 else length cs)"
    have m1: "unat (content_length (conns T a) - content_bytes (calls T c)) = m - 1"
    proof -
      have "content_length (conns T a) - content_bytes (calls T c)
          = (content_length (conns S a) - content_bytes (calls S c)) - 1" unfolding T by simp
      moreover have "unat ((content_length (conns S a) - content_bytes (calls S c)) - 1) = m - 1"
        using unat_sub_le [where b = 1 and a = "content_length (conns S a) - content_bytes (calls S c)"] that
        by (simp add: m_def)
      ultimately show ?thesis by simp
    qed
    have n1: "(if m < length (ch # cs) then m else length (ch # cs)) = Suc n"
      using that by (auto simp: n_def)
    have h2: "h EV_CALL_RECV_DATA (Bytes (ch # take n cs))
        = h EV_CALL_RECV_DATA (Bytes (take n cs)) \<circ> h EV_CALL_RECV_DATA (Bytes [ch])"
      using data_append [of "[ch]" "take n cs"] by simp
    have "parse_data sig c a (ch # cs) S = Inr (Suc n = m,
        put_call c ((calls S c)\<lparr>content_bytes := content_bytes (calls S c) + word_of_nat (Suc n)\<rparr>)
          (tell (h EV_CALL_RECV_DATA (Bytes (ch # take n cs))) S), drop n cs)"
      unfolding parse_data_def m_def [symmetric] Let_def n1 by (simp add: sig_law upd_put)
    moreover have "parse_data sig c a cs T = Inr (n = m - 1,
        put_call c ((calls T c)\<lparr>content_bytes := content_bytes (calls T c) + word_of_nat n\<rparr>)
          (tell (h EV_CALL_RECV_DATA (Bytes (take n cs))) T), drop n cs)"
      unfolding parse_data_def m1 Let_def n_def [symmetric] by (simp add: sig_law upd_put)
    moreover have "(Suc n = m) = (n = m - 1)" using that by auto
    ultimately show ?thesis by (simp add: T_def h2 add.assoc)
  qed
  show "\<not> content_length (conns T a) \<le> content_bytes (calls T c)
      \<or> content_length (conns S a) \<le> content_bytes (calls S c)" if "1 < m"
  proof (rule disjCI)
    assume "\<not> content_length (conns S a) \<le> content_bytes (calls S c)"
    then have lt: "unat (content_bytes (calls S c)) < unat (content_length (conns S a))"
      by (simp add: word_less_nat_alt not_le)
    then have "m = unat (content_length (conns S a)) - unat (content_bytes (calls S c))"
      unfolding m_def by (intro unat_sub_le) simp
    moreover have "unat (content_bytes (calls S c) + 1) = Suc (unat (content_bytes (calls S c)))"
      using lt by (rule unat_Suc_below)
    ultimately show "\<not> content_length (conns T a) \<le> content_bytes (calls T c)"
      using that unfolding T by (simp add: word_le_nat_alt)
  qed
qed

lemma chunk_line_byte:
  fixes S :: "('cb, 'h, 'z) core_scheme" and a c :: nat and ch :: char
  assumes "ch \<noteq> NUL" "ch \<noteq> LF" "length (line (conns S a)) < 1022"
    and "state (conns S a) < S_CLOSING" "content_length (conns S a) \<le> content_bytes (calls S c)"
  defines "T \<equiv> put_conn a ((conns S a)\<lparr>line := line (conns S a) @ [ch]\<rparr>) S"
  shows "chunk_loop sig c a [ch] S = Inr (T, [])"
    and "cs \<noteq> [] \<Longrightarrow> chunk_loop sig c a (ch # cs) S = chunk_loop sig c a cs T"
proof -
  note byte = get_line_byte [OF assms(1-3)]
  show "chunk_loop sig c a [ch] S = Inr (T, [])"
    using byte(1) assms(4,5) by (subst chunk_loop.simps) (simp add: upd_put T_def)
  have T: "upd_conn a (\<lambda>_. s1) T = upd_conn a (\<lambda>_. s1) S" "conns T a = (conns S a)\<lparr>line := line (conns S a) @ [ch]\<rparr>"
    "calls T = calls S" for s1 by (simp_all add: upd_put T_def)
  show "chunk_loop sig c a (ch # cs) S = chunk_loop sig c a cs T" if "cs \<noteq> []"
    using that assms(4,5) byte(2) [OF that] by (subst (1 2) chunk_loop.simps) (simp add: T)
qed

lemma chunk_line_LF:
  fixes S :: "('cb, 'h, 'z) core_scheme" and a c :: nat
  assumes "length (line (conns S a)) < 1022"
    and "line (conns S a) \<noteq> [] \<or> \<not> (has_body (conns S a) \<and> reading (conns S a) \<and> writing (conns S a))"
    and "state (conns S a) = S_REPLY_CHUNKED" "content_length (conns S a) = content_bytes (calls S c)"
    and "unat (content_length (conns S a)) + unat (fst (strtoul 16 (chop_CR (line (conns S a))))) < 2 ^ 64"
  shows "\<exists>v. let T = put_conn a v S in
       chunk_loop sig c a [LF] S = Inr (T, []) \<and> state v \<in> {S_REPLY_CHUNKED, S_REPLY_FOOTER}
       \<and> content_length (conns S a) \<le> content_length v
       \<and> (\<forall>cs. cs \<noteq> [] \<longrightarrow> chunk_loop sig c a (LF # cs) S
            = (if state v = S_REPLY_FOOTER then Inr (T, cs) else chunk_loop sig c a cs T))"
proof -
  let ?s = "conns S a" and ?cb = "content_bytes (calls S c)"
  let ?s1 = "?s\<lparr>line := chop_CR (line ?s)\<rparr>"
  have "line ?s \<noteq> [] \<or> byte_before_line ?s \<noteq> CR"
    using assms(2) by (auto simp: byte_before_line_CR)
  note g = get_line_LF [OF assms(1) this]
  obtain len n er where st: "strtoul 16 (line ?s1) = (len, n, er)" by (cases "strtoul 16 (line ?s1)")
  let ?T2 = "put_conn a (?s1\<lparr>line := []\<rparr>) S"
  let ?T3 = "put_conn a (?s1\<lparr>line := [], content_length := content_length ?s + len\<rparr>) S"
  have eq: "chunk_loop sig c a (LF # cs) S =
      (if line ?s1 = [] then chunk_loop sig c a cs (put_conn a ?s1 S)
       else if er \<or> n = 0 then chunk_loop sig c a cs ?T2
       else if len = 0 then Inr (put_conn a (?s1\<lparr>line := [], state := S_REPLY_FOOTER\<rparr>) S, cs)
       else ebind (parse_data sig c a cs ?T3) (\<lambda>(_, T, r). chunk_loop sig c a r T))" for cs
    using assms(3,4) st by (subst chunk_loop.simps) (simp add: g Let_def upd_put)
  show ?thesis
  proof (cases "line ?s1 \<noteq> [] \<and> \<not> (er \<or> n = 0) \<and> len \<noteq> 0")
    case True
    have sum: "unat (content_length ?s + len) = unat (content_length ?s) + unat len"
      by (rule unat_add_no_wrap) (use assms(5) st in simp)
    moreover have "0 < unat len" using True by (simp add: unat_gt_0)
    ultimately have gt: "\<not> content_length ?s + len \<le> ?cb" "content_length ?s \<le> content_length ?s + len"
      using assms(4) by (simp_all add: word_le_nat_alt)
    let ?v = "?s1\<lparr>line := [], content_length := content_length ?s + len\<rparr>"
    have T3: "parse_data sig c a [] ?T3 = Inr (False, ?T3, [])"
    proof -
      have "content_length ?s + len - ?cb \<noteq> 0" using gt(1) by auto
      then have "unat (content_length ?s + len - ?cb) \<noteq> 0" by (simp add: unat_eq_0)
      then show ?thesis by (auto simp: parse_data_def Let_def sig_law data_Nil upd_put)
    qed
    have "chunk_loop sig c a (LF # cs) S = chunk_loop sig c a cs ?T3" if "cs \<noteq> []" for cs
      unfolding eq using True gt that assms(3)
      by (subst (2) chunk_loop.simps) simp
    moreover have "chunk_loop sig c a [LF] S = Inr (?T3, [])"
      unfolding eq using True T3 by (simp add: loop_Nil)
    ultimately show ?thesis using assms(3) gt(2) by (intro exI [of _ ?v]) (simp add: Let_def)
  next
    case False
    have one: "chunk_loop sig c a [LF] S = Inr (put_conn a v S, [])"
      if "\<And>cs. chunk_loop sig c a (LF # cs) S = chunk_loop sig c a cs (put_conn a v S)" for v
      using that [of "[]"] by (simp add: loop_Nil)
    consider (empty) "line ?s1 = []" | (bad) "line ?s1 \<noteq> []" "er \<or> n = 0"
      | (last) "line ?s1 \<noteq> []" "\<not> (er \<or> n = 0)" "len = 0" using False by blast
    then show ?thesis
    proof cases
      case empty
      then have "\<And>cs. chunk_loop sig c a (LF # cs) S = chunk_loop sig c a cs (put_conn a ?s1 S)"
        using eq by simp
      then show ?thesis using one [of ?s1] assms(3) by (intro exI [of _ ?s1]) (simp add: Let_def)
    next
      case bad
      then have "\<And>cs. chunk_loop sig c a (LF # cs) S = chunk_loop sig c a cs (put_conn a (?s1\<lparr>line := []\<rparr>) S)"
        using eq by simp
      then show ?thesis using one [of "?s1\<lparr>line := []\<rparr>"] assms(3)
        by (intro exI [of _ "?s1\<lparr>line := []\<rparr>"]) (simp add: Let_def)
    next
      case last
      then have "chunk_loop sig c a (LF # cs) S
          = Inr (put_conn a (?s1\<lparr>line := [], state := S_REPLY_FOOTER\<rparr>) S, cs)" for cs
        using eq by simp
      then show ?thesis
        by (intro exI [of _ "?s1\<lparr>line := [], state := S_REPLY_FOOTER\<rparr>"]) (simp add: Let_def)
    qed
  qed
qed

lemma process_status_ok:
  assumes "iov_base (iov (calls S c) ! ie_method) \<noteq> None" "state (conns S a) < S_CLOSING"
  shows "\<exists>T. process_status sig c a n S = Inr T \<and> state (conns T a) \<in> {S_REPLY_HEADER, S_REPLY_CONTINUE}
     \<and> iov (calls T c) = iov (calls S c) \<and> content_bytes (calls T c) = content_bytes (calls S c)
     \<and> call_conn (calls T c) = call_conn (calls S c)"
proof -
  obtain v r st where p: "parsed_status (indet_status S) (line (conns S a)) = (v, r, st)"
    by (cases "parsed_status (indet_status S) (line (conns S a))") auto
  obtain meth where m: "iov_base (iov (calls S c) ! ie_method) = Some meth" using assms(1) by blast
  show ?thesis
    using p m assms(2) by (cases "\<not> strcmp_eq meth ''HEAD'' \<and> st = 100")
      (auto simp: process_status_def Let_def sig_law)
qed

text \<open>
  What one byte does, and that the rest of a buffer behaves as if it came in a
  buffer of its own.  \<open>r\<close> is empty, or the byte itself when it is not part of the
  reply.
\<close>

definition byte_step :: "nat \<Rightarrow> nat \<Rightarrow> char \<Rightarrow> ('cb, 'h, 'z) core_scheme
    \<Rightarrow> ('cb, 'h, 'z) core_scheme \<Rightarrow> string \<Rightarrow> bool" where
  "byte_step c a ch S T r \<longleftrightarrow>
     http_loop sig c a [ch] S = Inr (T, r) \<and> live c a T
     \<and> (r = [] \<or> r = [ch] \<and> state (conns T a) = S_REPLY_DONE)
     \<and> (\<forall>cs. cs \<noteq> [] \<longrightarrow> (\<exists>k. http_loop sig c a (ch # cs) S
            = ebind (http_loop sig c a (r @ cs) T) (\<lambda>(U, r). Inr (addh c k U, r))))"

lemma byte_exact:
  assumes "http_round sig c a [ch] S = Inr (False, T, [])" "live c a T"
    and "\<And>cs. cs \<noteq> [] \<Longrightarrow> http_round sig c a (ch # cs) S = Inr (False, T, cs)"
  shows "byte_step c a ch S T []"
proof -
  have "state (conns T a) < S_CLOSING" using assms(2) by (simp add: live_def)
  then have "http_loop sig c a (ch # cs) S = http_loop sig c a cs T" if "cs \<noteq> []" for cs
    using http_loop_round(2) [OF assms(3) [OF that]] that by simp
  then show ?thesis
    unfolding byte_step_def using http_loop_round(1) [OF assms(1)] assms(2)
    by (auto intro!: exI [of _ 0] simp: case_prod_beta)
qed

lemma byte_lift:
  assumes "http_round sig c a [ch] S = Inr (False, T, [])" "live c a T"
    and "\<And>cs. cs \<noteq> [] \<Longrightarrow> \<exists>k. http_round sig c a (ch # cs) S
           = ebind (http_round sig c a cs T) (\<lambda>(b, U, r). Inr (b, addh c k U, r))"
  shows "byte_step c a ch S T []"
  unfolding byte_step_def
  using http_loop_round(1) [OF assms(1)] assms(2) http_loop_addh_round assms(3) by (metis append_Nil)

lemma lift_0: "ebind m (\<lambda>(b, U, r). Inr (b, addh c 0 U, r)) = m"
  by (cases m) auto

lemma loop_ok:
  "state (conns S a) < S_CLOSING \<Longrightarrow> header_loop sig c a buf S = Inr (b, T, r) \<Longrightarrow> b"
  "state (conns S a) < S_CLOSING \<Longrightarrow> footer_loop sig c a buf S = Inr (b', T', r') \<Longrightarrow> b'"
proof -
  have st: "state (header_line s) = state s" for s
    by (simp add: header_line_def Let_def)
  show "state (conns S a) < S_CLOSING \<Longrightarrow> header_loop sig c a buf S = Inr (b, T, r) \<Longrightarrow> b"
  proof (induction buf arbitrary: S rule: length_induct)
    case (1 buf)
    from "1.prems"(2) obtain full s1 rest where g: "get_line (conns S a) buf = Inr (full, s1, rest)"
      by (subst (asm) header_loop.simps) (auto simp: Inr_iff)
    have "state s1 = state (conns S a)" using get_line_other [OF g] by auto
    moreover define U where "U = upd_conn a (\<lambda>s. s\<lparr>line := []\<rparr>)
        (tell (h EV_CALL_RECV_HDR (Bytes (line s1))) (upd_conn a header_line (upd_conn a (\<lambda>_. s1) S)))"
    ultimately have U: "state (conns U a) = state (conns S a)" by (simp add: st)
    have "b \<or> full \<and> header_loop sig c a rest U = Inr (b, T, r)"
      using "1.prems" g \<open>state s1 = _\<close>
      by (subst (asm) header_loop.simps) (auto simp: sig_law Let_def st U_def split: if_splits)
    moreover have "length rest < length buf" if full
      using get_line_shorter [OF g] get_line_full [of "conns S a" buf s1 rest] g that by auto
    ultimately show ?case using "1.IH" "1.prems"(1) U by metis
  qed
  show "state (conns S a) < S_CLOSING \<Longrightarrow> footer_loop sig c a buf S = Inr (b', T', r') \<Longrightarrow> b'"
  proof (induction buf arbitrary: S rule: length_induct)
    case (1 buf)
    from "1.prems"(2) obtain full s1 rest where g: "get_line (conns S a) buf = Inr (full, s1, rest)"
      by (subst (asm) footer_loop.simps) (auto simp: Inr_iff)
    have "state s1 = state (conns S a)" using get_line_other [OF g] by auto
    moreover define U where "U = upd_conn a (\<lambda>s. s\<lparr>line := []\<rparr>)
        (tell (h EV_CALL_RECV_FOOTER (Bytes (line s1))) (upd_conn a (\<lambda>_. s1) S))"
    ultimately have U: "state (conns U a) = state (conns S a)" by (simp add: st)
    have "b' \<or> full \<and> footer_loop sig c a rest U = Inr (b', T', r')"
      using "1.prems" g \<open>state s1 = _\<close>
      by (subst (asm) footer_loop.simps) (auto simp: sig_law Let_def st U_def split: if_splits)
    moreover have "length rest < length buf" if full
      using get_line_shorter [OF g] get_line_full [of "conns S a" buf s1 rest] g that by auto
    ultimately show ?case using "1.IH" "1.prems"(1) U by metis
  qed
qed

lemma footer_loop_call:
  "footer_loop sig c a buf (upd_call c g S) = ebind (footer_loop sig c a buf S) (\<lambda>(b, T, r). Inr (b, upd_call c g T, r))"
proof (induction buf arbitrary: S rule: length_induct)
  case (1 buf)
  have comm: "upd_conn a f (upd_call c g T) = upd_call c g (upd_conn a f T)"
      "tell k (upd_call c g T) = upd_call c g (tell k T)" for f k and T :: "('cb, 'h, 'z) core_scheme"
    by (simp_all add: upd_put)
  show ?case
  proof (cases "get_line (conns S a) buf")
    case (Inr x)
    obtain full s1 rest where x: "x = (full, s1, rest)" by (cases x) auto
    have IH: "full \<Longrightarrow> footer_loop sig c a rest (upd_call c g T)
        = ebind (footer_loop sig c a rest T) (\<lambda>(b, T, r). Inr (b, upd_call c g T, r))" for T
      using 1 get_line_shorter [of "conns S a" buf full s1 rest] get_line_full [of "conns S a" buf s1 rest]
        Inr x by auto
    show ?thesis
      using Inr x IH by (subst (1 2) footer_loop.simps) (simp add: Let_def sig_law comm)
  qed (subst (1 2) footer_loop.simps, simp)
qed

lemma live_addh [simp]: "live c a (addh c k S) = live c a S"
  by (simp add: live_def)

lemma header_lift:
  assumes "state (conns S a) \<in> {S_REPLY_HEADER, S_REPLY_CONTINUE}" "state (conns T a) \<in> {S_REPLY_HEADER, S_REPLY_CONTINUE}"
    and "live c a T" "header_loop sig c a [ch] S = Inr (True, T, [])"
    and "\<And>cs. cs \<noteq> [] \<Longrightarrow> header_loop sig c a (ch # cs) S = header_loop sig c a cs T"
  shows "byte_step c a ch S (addh c 1 T) []"
proof (rule byte_lift)
  have hd: "http_round sig c a buf U = ebind (parse_headers sig c a buf U) (\<lambda>(V, r). Inr (False, V, r))"
    if "state (conns U a) \<in> {S_REPLY_HEADER, S_REPLY_CONTINUE}" for buf and U :: "('cb, 'h, 'z) core_scheme"
    using that by (auto simp: http_round_def)
  show "http_round sig c a [ch] S = Inr (False, addh c 1 T, [])"
    using assms(4) hd [OF assms(1)] by (simp add: parse_headers_def addh_def)
  show "live c a (addh c 1 T)" using assms(3) by simp
  fix cs :: string assume cs: "cs \<noteq> []"
  have "parse_headers sig c a (ch # cs) S = parse_headers sig c a cs (addh c 1 T)"
  proof (cases "header_loop sig c a cs T")
    case (Inr x)
    obtain b U r where x: "x = (b, U, r)" by (cases x) auto
    have "b" using loop_ok(1) [of T a c cs b U r] assms(2) Inr x by auto
    moreover have "length r \<le> length cs" using header_loop_le [of sig c a cs T b U r] Inr x by auto
    ultimately show ?thesis
      using Inr x assms(5) [OF cs] parse_headers_addh [of c a cs 1 T]
      by (simp add: parse_headers_def addh_def Suc_diff_le upd_put ac_simps)
  qed (use assms(5) [OF cs] parse_headers_addh [of c a cs 1 T] in \<open>simp add: parse_headers_def\<close>)
  then show "\<exists>k. http_round sig c a (ch # cs) S
      = ebind (http_round sig c a cs (addh c 1 T)) (\<lambda>(b, U, r). Inr (b, addh c k U, r))"
    using hd assms(1,2) by (intro exI [of _ 0]) (simp only: lift_0, simp)
qed

lemma footer_lift:
  assumes "state (conns S a) = S_REPLY_FOOTER" "state (conns T a) = S_REPLY_FOOTER"
    and "live c a T" "footer_loop sig c a [ch] S = Inr (True, T, [])"
    and "\<And>cs. cs \<noteq> [] \<Longrightarrow> footer_loop sig c a (ch # cs) S = footer_loop sig c a cs T"
  shows "\<exists>T. byte_step c a ch S T []"
proof -
  let ?g = "\<lambda>q. q\<lparr>footer_bytes := footer_bytes q + 1\<rparr>"
  have "byte_step c a ch S (upd_call c ?g T) []"
  proof (rule byte_lift)
    show "http_round sig c a [ch] S = Inr (False, upd_call c ?g T, [])"
      using assms(1,4) by (simp add: http_round_def parse_footers_def)
    show "live c a (upd_call c ?g T)" using assms(3) by (simp add: live_def)
    fix cs :: string assume cs: "cs \<noteq> []"
    have "parse_footers sig c a (ch # cs) S = parse_footers sig c a cs (upd_call c ?g T)"
    proof (cases "footer_loop sig c a cs T")
      case (Inr x)
      obtain b U r where x: "x = (b, U, r)" by (cases x) auto
      have "b" using loop_ok(2) [of T a c cs b U r] assms(2) Inr x by auto
      moreover have "length r \<le> length cs" using footer_loop_le [of sig c a cs T b U r] Inr x by auto
      ultimately show ?thesis
        using Inr x assms(5) [OF cs]
        by (simp add: parse_footers_def footer_loop_call Suc_diff_le) (simp add: upd_put ac_simps)
    qed (use assms(5) [OF cs] in \<open>simp add: parse_footers_def footer_loop_call\<close>)
    then show "\<exists>k. http_round sig c a (ch # cs) S
        = ebind (http_round sig c a cs (upd_call c ?g T)) (\<lambda>(b, U, r). Inr (b, addh c k U, r))"
      using assms(1,2) by (intro exI [of _ 0]) (simp only: lift_0, simp add: http_round_def)
  qed
  then show ?thesis by blast
qed

lemma http_byte:
  assumes live: "live c a S" and clean: "clean_byte c a ch S" and nd: "state (conns S a) \<noteq> S_REPLY_DONE"
  shows "\<exists>T r. byte_step c a ch S T r"
proof -
  let ?s = "conns S a"
  have open_conn: "state ?s < S_CLOSING" "S_REPLY_STATUS \<le> state ?s"
    and iov: "iov_base (iov (calls S c) ! ie_method) \<noteq> None" "call_conn (calls S c) = Some a"
    using live by (simp_all add: live_def)
  consider "state ?s = S_REPLY_STATUS" | "state ?s \<in> {S_REPLY_HEADER, S_REPLY_CONTINUE}"
    | "state ?s = S_REPLY_FOOTER" | "state ?s = S_REPLY_DATA"
    | "state ?s = S_REPLY_CHUNKED" "content_length ?s \<le> content_bytes (calls S c)"
    | "state ?s = S_REPLY_CHUNKED" "\<not> content_length ?s \<le> content_bytes (calls S c)"
    using open_conn nd by (cases "state ?s") auto
  then show ?thesis
  proof cases
    case 1
    have cb: "content_bytes (calls S c) = 0" using live 1 by (simp add: live_def)
    have cl: "ch \<noteq> NUL" "length (line ?s) < 1022"
        "ch = LF \<Longrightarrow> line ?s = [] \<Longrightarrow> \<not> (has_body ?s \<and> reading ?s \<and> writing ?s)"
      using clean 1 by (auto simp: clean_byte_def at_line_def)
    show ?thesis
    proof (cases "ch = LF")
      case False
      note b = status_byte [OF open_conn(1) cl(1) False cl(2)]
      let ?T = "put_conn a (?s\<lparr>line := line ?s @ [ch], is_chunked := False, content_length := - 1\<rparr>) S"
      have "byte_step c a ch S ?T []"
      proof (rule byte_lift)
        show "http_round sig c a [ch] S = Inr (False, ?T, [])" using b(1) 1 by (simp add: http_round_def)
        show "live c a ?T" using live 1 by (simp add: live_def)
        fix cs :: string assume "cs \<noteq> []"
        then obtain k where "parse_status_line sig c a (ch # cs) S
            = ebind (parse_status_line sig c a cs ?T) (\<lambda>(U, r). Inr (addh c k U, r))" using b(2) by blast
        then show "\<exists>k. http_round sig c a (ch # cs) S
            = ebind (http_round sig c a cs ?T) (\<lambda>(b, U, r). Inr (b, addh c k U, r))"
          using 1 by (intro exI [of _ k]) (simp add: http_round_def ebind_assoc case_prod_beta)
      qed
      then show ?thesis by blast
    next
      case True
      let ?t = "?s\<lparr>is_chunked := False, content_length := - 1\<rparr>"
      have "line ?t \<noteq> [] \<or> byte_before_line ?t \<noteq> CR"
        using cl(3) True by (auto simp: byte_before_line_CR)
      then have g: "get_line ?t (LF # cs) = Inr (True, ?t\<lparr>line := chop_CR (line ?t)\<rparr>, cs)" for cs
        using get_line_LF [of ?t] cl(2) by simp
      let ?S = "put_conn a (?t\<lparr>line := chop_CR (line ?t)\<rparr>) S"
      obtain T where T: "process_status sig c a 1 ?S = Inr T" "state (conns T a) \<in> {S_REPLY_HEADER, S_REPLY_CONTINUE}"
        "iov (calls T c) = iov (calls S c)" "content_bytes (calls T c) = content_bytes (calls S c)"
        "call_conn (calls T c) = call_conn (calls S c)"
        using process_status_ok [of ?S c a 1] iov open_conn(1) by auto
      have "http_round sig c a (LF # cs) S = Inr (False, T, cs)" for cs
        using g T(1) 1 by (simp add: http_round_def parse_status_line_def upd_put Suc_diff_le)
      moreover have "live c a T" using T iov cb by (auto simp: live_def)
      ultimately have "byte_step c a LF S T []" by (intro byte_exact) auto
      then show ?thesis using True by blast
    qed
  next
    case 2
    have cb: "content_bytes (calls S c) = 0" using live 2 by (auto simp: live_def)
    have cl: "ch \<noteq> NUL" "length (line ?s) < 1022"
        "ch = LF \<Longrightarrow> line ?s \<noteq> [] \<or> \<not> (has_body ?s \<and> reading ?s \<and> writing ?s)"
      using clean 2 by (auto simp: clean_byte_def at_line_def)
    show ?thesis
    proof (cases "ch = LF")
      case False
      let ?T = "put_conn a (?s\<lparr>line := line ?s @ [ch]\<rparr>) S"
      have "byte_step c a ch S (addh c 1 ?T) []"
        by (rule header_lift) (use 2 live header_byte(1,2) [OF cl(1) False cl(2)] in \<open>auto simp: live_def\<close>)
      then show ?thesis by blast
    next
      case True
      let ?s1 = "?s\<lparr>line := chop_CR (line ?s)\<rparr>"
      note b = header_LF(1) [OF cl(2) cl(3) [OF True], of c]
      show ?thesis
      proof (cases "line ?s1 = []")
        case e: True
        let ?T = "put_conn a (end_of_headers ?s1) S"
        have "http_round sig c a (LF # cs) S = Inr (False, addh c 1 ?T, cs)" for cs
          using b [of cs] e 2 by (auto simp: http_round_def parse_headers_def addh_def Suc_diff_le)
        moreover have "live c a ?T"
          using 2 iov cb by (auto simp: live_def end_of_headers_def)
        ultimately have "byte_step c a LF S (addh c 1 ?T) []" by (intro byte_exact) auto
        then show ?thesis using True by blast
      next
        case ne: False
        let ?T = "put_conn a ((header_line ?s1)\<lparr>line := []\<rparr>) (tell (h EV_CALL_RECV_HDR (Bytes (line ?s1))) S)"
        have st: "state (header_line ?s1) = state ?s" by (simp add: header_line_def Let_def)
        have l: "header_loop sig c a (LF # cs) S = header_loop sig c a cs ?T" for cs
          using b [of cs] ne 2 by auto
        have "byte_step c a LF S (addh c 1 ?T) []"
          by (rule header_lift) (use 2 st l iov cb in \<open>auto simp: live_def loop_Nil\<close>)
        then show ?thesis using True by blast
      qed
    qed
  next
    case 3
    have cl: "ch \<noteq> NUL" "length (line ?s) < 1022"
        "ch = LF \<Longrightarrow> line ?s \<noteq> [] \<or> \<not> (has_body ?s \<and> reading ?s \<and> writing ?s)"
      using clean 3 by (auto simp: clean_byte_def at_line_def)
    show ?thesis
    proof (cases "ch = LF")
      case False
      let ?T = "put_conn a (?s\<lparr>line := line ?s @ [ch]\<rparr>) S"
      have "\<exists>T. byte_step c a ch S T []"
        by (rule footer_lift [where T = ?T]) (use 3 live header_byte(3,4) [OF cl(1) False cl(2)] in \<open>auto simp: live_def\<close>)
      then show ?thesis by blast
    next
      case True
      let ?s1 = "?s\<lparr>line := chop_CR (line ?s)\<rparr>"
      note b = header_LF(2) [OF cl(2) cl(3) [OF True], of c]
      show ?thesis
      proof (cases "line ?s1 = []")
        case e: True
        let ?T = "upd_call c (\<lambda>q. q\<lparr>footer_bytes := footer_bytes q + 1\<rparr>) (put_conn a (?s1\<lparr>state := S_REPLY_DONE\<rparr>) S)"
        have "http_round sig c a (LF # cs) S = Inr (False, ?T, cs)" for cs
          using b [of cs] e 3 by (auto simp: http_round_def parse_footers_def Suc_diff_le)
        moreover have "live c a ?T" using 3 iov by (auto simp: live_def)
        ultimately have "byte_step c a LF S ?T []" by (intro byte_exact) auto
        then show ?thesis using True by blast
      next
        case ne: False
        let ?T = "put_conn a (?s1\<lparr>line := []\<rparr>) (tell (h EV_CALL_RECV_FOOTER (Bytes (line ?s1))) S)"
        have l: "footer_loop sig c a (LF # cs) S = footer_loop sig c a cs ?T" for cs
          using b [of cs] ne 3 by auto
        have "\<exists>T. byte_step c a LF S T []"
          by (rule footer_lift [where T = ?T]) (use 3 l iov in \<open>auto simp: live_def loop_Nil\<close>)
        then show ?thesis using True by blast
      qed
    qed
  next
    case 4
    let ?m = "unat (content_length ?s - content_bytes (calls S c))"
    let ?done = "\<lambda>T. upd_conn a (\<lambda>s. s\<lparr>state := S_REPLY_DONE\<rparr>) T"
    show ?thesis
    proof (cases "?m = 0")
      case True
      have "http_round sig c a buf S = Inr (False, ?done S, buf)" for buf
        using 4 True by (simp add: http_round_def parse_data_def Let_def sig_law data_Nil upd_put)
      then have "buf \<noteq> [] \<Longrightarrow> http_loop sig c a buf S = Inr (?done S, buf)" for buf
        using http_loop_round(2) [of c a buf S "?done S" buf] http_loop_done [of "?done S" a c buf] by simp
      then have "byte_step c a ch S (?done S) [ch]"
        using iov http_loop_done [of "?done S" a c]
        by (auto simp: byte_step_def live_def intro!: exI [of _ 0])
      then show ?thesis by blast
    next
      case False
      let ?T = "put_call c ((calls S c)\<lparr>content_bytes := content_bytes (calls S c) + 1\<rparr>)
                  (tell (h EV_CALL_RECV_DATA (Bytes [ch])) S)"
      note b = parse_data_byte(1-3) [of S a c ch]
      show ?thesis
      proof (cases "?m = 1")
        case True
        have "byte_step c a ch S (?done ?T) []"
          by (rule byte_exact) (use 4 True b(1,2) iov in \<open>auto simp: http_round_def live_def\<close>)
        then show ?thesis by blast
      next
        case m: False
        then have m: "1 < ?m" using False by linarith
        have "byte_step c a ch S ?T []"
        proof (rule byte_lift)
          show "http_round sig c a [ch] S = Inr (False, ?T, [])"
            using 4 m b(1) by (simp add: http_round_def)
          show "live c a ?T" using 4 iov by (simp add: live_def)
          show "\<exists>k. http_round sig c a (ch # cs) S
              = ebind (http_round sig c a cs ?T) (\<lambda>(b, U, r). Inr (b, addh c k U, r))" for cs
            using 4 m b(3) [of cs] by (intro exI [of _ 0]) (simp only: lift_0, simp add: http_round_def)
        qed
        then show ?thesis by blast
      qed
    qed
  next
    case 5
    have eq: "content_length ?s = content_bytes (calls S c)" using live 5 by (simp add: live_def)
    have cl: "ch \<noteq> NUL" "length (line ?s) < 1022"
        "ch = LF \<Longrightarrow> line ?s \<noteq> [] \<or> \<not> (has_body ?s \<and> reading ?s \<and> writing ?s)"
        "ch = LF \<Longrightarrow> unat (content_length ?s) + unat (fst (strtoul 16 (chop_CR (line ?s)))) < 2 ^ 64"
      using clean 5 by (auto simp: clean_byte_def at_line_def)
    have rd: "http_round sig c a buf U = ebind (chunk_loop sig c a buf U) (\<lambda>(V, r). Inr (False, V, r))"
      if "state (conns U a) = S_REPLY_CHUNKED" for buf and U :: "('cb, 'h, 'z) core_scheme"
      using that by (simp add: http_round_def xfer_chunked_def)
    have lift: "byte_step c a ch S T []"
      if "chunk_loop sig c a [ch] S = Inr (T, [])" "live c a T" "state (conns T a) = S_REPLY_CHUNKED"
        "\<And>cs. cs \<noteq> [] \<Longrightarrow> chunk_loop sig c a (ch # cs) S = chunk_loop sig c a cs T" for T
    proof (rule byte_lift)
      show "http_round sig c a [ch] S = Inr (False, T, [])" using that(1) rd [OF 5(1)] by simp
      show "live c a T" by (rule that(2))
      show "\<exists>k. http_round sig c a (ch # cs) S
          = ebind (http_round sig c a cs T) (\<lambda>(b, U, r). Inr (b, addh c k U, r))" if "cs \<noteq> []" for cs
        using rd [OF 5(1)] rd [OF \<open>state (conns T a) = _\<close>] \<open>\<And>cs. cs \<noteq> [] \<Longrightarrow> _\<close> [OF that]
        by (intro exI [of _ 0]) simp
    qed
    show ?thesis
    proof (cases "ch = LF")
      case False
      let ?T = "put_conn a (?s\<lparr>line := line ?s @ [ch]\<rparr>) S"
      have "byte_step c a ch S ?T []"
        by (rule lift) (use 5 live chunk_line_byte [OF cl(1) False cl(2) open_conn(1) 5(2)] in \<open>auto simp: live_def\<close>)
      then show ?thesis by blast
    next
      case True
      obtain v where v: "chunk_loop sig c a [LF] S = Inr (put_conn a v S, [])"
          "state v \<in> {S_REPLY_CHUNKED, S_REPLY_FOOTER}" "content_length ?s \<le> content_length v"
          "\<And>cs. cs \<noteq> [] \<Longrightarrow> chunk_loop sig c a (LF # cs) S
            = (if state v = S_REPLY_FOOTER then Inr (put_conn a v S, cs) else chunk_loop sig c a cs (put_conn a v S))"
        using chunk_line_LF [OF cl(2) cl(3) [OF True] 5(1) eq cl(4) [OF True]] unfolding Let_def by blast
      have lv: "live c a (put_conn a v S)" using v(2,3) iov eq by (auto simp: live_def)
      show ?thesis
      proof (cases "state v = S_REPLY_FOOTER")
        case f: True
        have "byte_step c a ch S (put_conn a v S) []"
          by (rule byte_exact) (use f v(1,4) lv True rd [OF 5(1)] in auto)
        then show ?thesis by blast
      next
        case f: False
        have "byte_step c a ch S (put_conn a v S) []"
          by (rule lift) (use f v(1,2,4) lv True in auto)
        then show ?thesis by blast
      qed
    qed
  next
    case 6
    let ?m = "unat (content_length ?s - content_bytes (calls S c))"
    let ?T = "put_call c ((calls S c)\<lparr>content_bytes := content_bytes (calls S c) + 1\<rparr>)
                (tell (h EV_CALL_RECV_DATA (Bytes [ch])) S)"
    have m: "0 < ?m"
    proof -
      have "content_length ?s - content_bytes (calls S c) \<noteq> 0" using 6(2) by auto
      then show ?thesis by (simp add: unat_gt_0)
    qed
    note b = parse_data_byte [of S a c ch, OF m]
    have le: "content_bytes (calls S c) + 1 \<le> content_length ?s"
    proof -
      have lt: "unat (content_bytes (calls S c)) < unat (content_length ?s)"
        using 6(2) by (simp add: word_less_nat_alt not_le)
      then show ?thesis using unat_Suc_below [OF lt] by (simp add: word_le_nat_alt)
    qed
    have lp: "chunk_loop sig c a (ch # cs) S = chunk_loop sig c a cs ?T" for cs
    proof (cases "?m = 1")
      case True
      then show ?thesis using b(2) 6 by (subst chunk_loop.simps) simp
    next
      case False
      then have m1: "1 < ?m" using m by linarith
      have gt: "\<not> content_length (conns ?T a) \<le> content_bytes (calls ?T c)" using b(4) [OF m1] 6(2) by simp
      have "chunk_loop sig c a (ch # cs) S = ebind (parse_data sig c a cs ?T) (\<lambda>(_, U, r). chunk_loop sig c a r U)"
        using 6 b(3) [OF m1] by (subst chunk_loop.simps) simp
      also have "\<dots> = chunk_loop sig c a cs ?T"
      proof (cases "cs = []")
        case True
        have "content_length (conns ?T a) - content_bytes (calls ?T c) \<noteq> 0" using gt by auto
        then have "parse_data sig c a [] ?T = Inr (False, ?T, [])"
          unfolding parse_data_def Let_def
          by (simp add: sig_law data_Nil upd_put unat_eq_0)
        then show ?thesis using True by simp
      next
        case ne: False
        show ?thesis by (subst (2) chunk_loop.simps) (use ne gt 6 in simp)
      qed
      finally show ?thesis .
    qed
    have "byte_step c a ch S ?T []"
    proof (rule byte_lift)
      show "http_round sig c a [ch] S = Inr (False, ?T, [])"
        using 6 lp [of "[]"] by (simp add: http_round_def xfer_chunked_def loop_Nil)
      show "live c a ?T" using 6 iov le by (simp add: live_def)
      show "\<exists>k. http_round sig c a (ch # cs) S
          = ebind (http_round sig c a cs ?T) (\<lambda>(b, U, r). Inr (b, addh c k U, r))" for cs
        using 6 lp [of cs] by (intro exI [of _ 0]) (simp only: lift_0, simp add: http_round_def xfer_chunked_def)
    qed
    then show ?thesis by blast
  qed
qed

section \<open>Pieces of a reply\<close>

text \<open>
  What \<open>do_recv\<close> does with the pieces of one reply: each piece that \<open>read\<close> returns
  is given to \<open>http_process_reply_bytes\<close> until the reply is done; what is left of the
  last piece belongs to the next reply.
\<close>

end

fun feed :: "('cb, 'h, 'z) signal \<Rightarrow> nat \<Rightarrow> nat \<Rightarrow> string list
    \<Rightarrow> ('cb, 'h, 'z) core_scheme \<Rightarrow> (('cb, 'h, 'z) core_scheme \<times> string) result" where
  "feed sig c a [] S = Inr (S, [])"
| "feed sig c a (p # ps) S =
     ebind (http_process_reply_bytes sig c p S) (\<lambda>(T, r).
       if state (conns T a) = S_REPLY_DONE then Inr (T, r @ concat ps) else feed sig c a ps T)"

fun clean_run :: "('cb, 'h, 'z) signal \<Rightarrow> nat \<Rightarrow> nat \<Rightarrow> string \<Rightarrow> ('cb, 'h, 'z) core_scheme \<Rightarrow> bool" where
  "clean_run sig c a [] S = True"
| "clean_run sig c a (ch # cs) S =
     (state (conns S a) = S_REPLY_DONE \<or>
      clean_byte c a ch S
      \<and> (case http_loop sig c a [ch] S of Inl _ \<Rightarrow> True | Inr (T, _) \<Rightarrow> clean_run sig c a cs T))"

context observer
begin

lemma clean_run_done: "state (conns S a) = S_REPLY_DONE \<Longrightarrow> clean_run sig c a x S"
  by (cases x) auto

lemma clean_run_addh: "clean_run sig c a x (addh c k S) = clean_run sig c a x S"
proof (induction x arbitrary: S)
  case (Cons ch x)
  have cb: "clean_byte c a ch (addh c k S) = clean_byte c a ch S"
    by (simp only: clean_byte_def at_line_def addh_fields)
  show ?case
  proof (cases "http_loop sig c a [ch] S")
    case (Inl e)
    then show ?thesis by (simp only: clean_run.simps cb http_loop_addh addh_fields ebind_simps sum.case)
  next
    case (Inr y)
    obtain T r where "y = (T, r)" by (cases y)
    then show ?thesis
      using Inr by (simp only: clean_run.simps cb http_loop_addh addh_fields ebind_simps sum.case
          prod.case Cons.IH)
  qed
qed simp

lemma stream_append:
  "live c a S \<Longrightarrow> clean_run sig c a (x @ y) S \<Longrightarrow> x \<noteq> [] \<Longrightarrow>
   \<exists>T r. http_loop sig c a x S = Inr (T, r) \<and> live c a T
     \<and> (r = [] \<or> state (conns T a) = S_REPLY_DONE) \<and> clean_run sig c a y T
     \<and> (y \<noteq> [] \<longrightarrow> (\<exists>k. http_loop sig c a (x @ y) S
           = ebind (http_loop sig c a (r @ y) T) (\<lambda>(U, r). Inr (addh c k U, r))))"
proof (induction x arbitrary: S)
  case (Cons ch x)
  show ?case
  proof (cases "state (conns S a) = S_REPLY_DONE")
    case True
    then show ?thesis
      using Cons.prems(1) http_loop_done [OF True] clean_run_done [OF True] by (auto intro!: exI [of _ 0])
  next
    case False
    then have cl: "clean_byte c a ch S" using Cons.prems(2) by simp
    obtain T r where b: "byte_step c a ch S T r" using http_byte [OF Cons.prems(1) cl False] by blast
    have one: "http_loop sig c a [ch] S = Inr (T, r)" "live c a T"
        "r = [] \<or> r = [ch] \<and> state (conns T a) = S_REPLY_DONE"
      using b by (auto simp: byte_step_def)
    have more: "\<exists>k. http_loop sig c a (ch # cs) S
        = ebind (http_loop sig c a (r @ cs) T) (\<lambda>(U, r). Inr (addh c k U, r))" if "cs \<noteq> []" for cs
      using b that by (auto simp: byte_step_def)
    have cr: "clean_run sig c a (x @ y) T" using Cons.prems(2) False one(1) by simp
    show ?thesis
    proof (cases "x = []")
      case True
      then show ?thesis using one more cr by auto
    next
      case x: False
      obtain k where k: "http_loop sig c a (ch # x) S
          = ebind (http_loop sig c a (r @ x) T) (\<lambda>(U, r). Inr (addh c k U, r))" using more [OF x] by blast
      obtain k' where k': "http_loop sig c a (ch # x @ y) S
          = ebind (http_loop sig c a (r @ x @ y) T) (\<lambda>(U, r). Inr (addh c k' U, r))"
        using more [of "x @ y"] x by auto
      show ?thesis
      proof (cases "state (conns T a) = S_REPLY_DONE")
        case True
        have "state (conns (addh c k T) a) = S_REPLY_DONE" using True by simp
        then show ?thesis
          using k k' http_loop_done [OF True] http_loop_done [of "addh c k T"] one(2)
            clean_run_done [of "addh c k T" a c y]
          by (auto simp: addh_add intro!: exI [of _ "k' - k"])
      next
        case nd: False
        then have r: "r = []" using one(3) by auto
        obtain U q where IH: "http_loop sig c a x T = Inr (U, q)" "live c a U"
            "q = [] \<or> state (conns U a) = S_REPLY_DONE" "clean_run sig c a y U"
            "y \<noteq> [] \<Longrightarrow> \<exists>k. http_loop sig c a (x @ y) T
              = ebind (http_loop sig c a (q @ y) U) (\<lambda>(V, r). Inr (addh c k V, r))"
          using Cons.IH [OF one(2) cr x] by blast
        have "\<exists>j. http_loop sig c a (ch # x @ y) S
            = ebind (http_loop sig c a (q @ y) (addh c k U)) (\<lambda>(V, r). Inr (addh c j V, r))" if "y \<noteq> []"
        proof -
          obtain j where "http_loop sig c a (x @ y) T
              = ebind (http_loop sig c a (q @ y) U) (\<lambda>(V, r). Inr (addh c j V, r))" using IH(5) \<open>y \<noteq> []\<close> by blast
          then show ?thesis
            using k' r by (intro exI [of _ "k' + j - k"])
              (simp add: http_loop_addh ebind_assoc case_prod_beta addh_add)
        qed
        then show ?thesis
          using k r IH(1-4) by (simp add: clean_run_addh)
      qed
    qed
  qed
qed simp

lemma feed_concat:
  assumes raw: "\<And>x. h EV_CALL_RECV_RAW_DATA x = id"
  shows "ps \<noteq> [] \<Longrightarrow> [] \<notin> set ps \<Longrightarrow> live c a S \<Longrightarrow> state (conns S a) \<noteq> S_REPLY_DONE \<Longrightarrow>
   clean_run sig c a (concat ps) S \<Longrightarrow>
   \<exists>T r k. feed sig c a ps S = Inr (T, r) \<and> http_process_reply_bytes sig c (concat ps) S = Inr (addh c k T, r)"
proof (induction ps arbitrary: S)
  case (Cons p ps)
  have proc: "http_process_reply_bytes sig c x U = http_loop sig c a x U" if "live c a U" for x U
  proof -
    have "call_conn (calls U c) = Some a" using that by (simp add: live_def)
    then show ?thesis unfolding http_process_reply_bytes_def sig_law raw by simp
  qed
  have p: "p \<noteq> []" using Cons.prems(2) by auto
  have cl: "clean_run sig c a (p @ concat ps) S" using Cons.prems(5) by simp
  obtain T r where st: "http_loop sig c a p S = Inr (T, r)" "live c a T"
      "r = [] \<or> state (conns T a) = S_REPLY_DONE" "clean_run sig c a (concat ps) T"
      "concat ps \<noteq> [] \<Longrightarrow> \<exists>k. http_loop sig c a (p @ concat ps) S
         = ebind (http_loop sig c a (r @ concat ps) T) (\<lambda>(U, r). Inr (addh c k U, r))"
    using stream_append [OF Cons.prems(3) cl p] by blast
  show ?case
  proof (cases "ps = []")
    case True
    then show ?thesis
      using st(1,3) proc [OF Cons.prems(3)] by (auto intro!: exI [of _ 0])
  next
    case False
    then have ne: "concat ps \<noteq> []" using Cons.prems(2) by (cases ps) auto
    then obtain k where k: "http_loop sig c a (p @ concat ps) S
         = ebind (http_loop sig c a (r @ concat ps) T) (\<lambda>(U, r). Inr (addh c k U, r))" using st(5) by blast
    show ?thesis
    proof (cases "state (conns T a) = S_REPLY_DONE")
      case True
      then show ?thesis
        using st(1) k proc [OF Cons.prems(3)] http_loop_done [OF True] by auto
    next
      case nd: False
      then have r: "r = []" using st(3) by simp
      obtain U q j where "feed sig c a ps T = Inr (U, q)"
          "http_process_reply_bytes sig c (concat ps) T = Inr (addh c j U, q)"
        using Cons.IH [OF False _ st(2) nd st(4)] Cons.prems(2) by auto
      then show ?thesis
        using st(1) k r nd proc [OF Cons.prems(3)] proc [OF st(2)]
        by (auto simp: addh_add)
    qed
  qed
qed simp

end

end
