(* ===== verification/Http_Reply.thy ===== *)
theory Http_Reply
  imports Http_Stream
begin

text \<open>
  Whole replies: the parser reads a status line, headers and a body of the announced
  length, or a chunked body, and hands exactly the bytes of the body to the
  handlers.  The input side is the grammar of HTTP/1.1 messages, written as
  functions that produce the text of a reply.
\<close>

section \<open>The text of a reply\<close>

definition crlf :: string where
  "crlf = [CR, LF]"

definition status_text :: "nat \<Rightarrow> nat \<Rightarrow> nat \<Rightarrow> string \<Rightarrow> string" where
  "status_text major minor status reason =
     ''HTTP/'' @ digits 10 major @ ''.'' @ digits 10 minor @ '' '' @ digits 10 status @ '' '' @ reason"

definition block_text :: "string list \<Rightarrow> string" where
  "block_text ls = concat (map (\<lambda>l. l @ crlf) ls) @ crlf"

definition chunk_text :: "string \<Rightarrow> string" where
  "chunk_text d = digits 16 (length d) @ crlf @ d @ crlf"

definition chunked_text :: "string list \<Rightarrow> string" where
  "chunked_text ds = concat (map chunk_text ds) @ ''0'' @ crlf"

text \<open>A line that fits the line buffer, and a header the parser has no interest in.\<close>

definition good_line :: "string \<Rightarrow> bool" where
  "good_line l \<longleftrightarrow> l \<noteq> [] \<and> NUL \<notin> set l \<and> LF \<notin> set l \<and> length l \<le> 1020"

definition plain_header :: "string \<Rightarrow> bool" where
  "plain_header l \<longleftrightarrow> good_line l \<and> tolower_c (hd l) \<notin> {CHR ''c'', CHR ''t''}"

section \<open>Reading lines\<close>

lemma get_line_text:
  assumes "line s = []" "NUL \<notin> set l" "LF \<notin> set l" "length l \<le> 1020"
  shows "get_line s (l @ crlf @ rest) = Inr (True, s\<lparr>line := l\<rparr>, rest)"
proof -
  have "cstr (l @ crlf @ rest) = l @ CR # LF # cstr rest"
    using assms(2) by (subst cstr_append) (simp_all add: crlf_def cstr_def)
  moreover have "takeWhile (\<lambda>d. d \<noteq> LF) (l @ CR # LF # cstr rest) = l @ [CR]"
    using assms(3) by (subst takeWhile_append2) auto
  ultimately have "strchr (l @ crlf @ rest) LF = Some (Suc (length l))"
    by (simp add: strchr_def Let_def)
  then show ?thesis
    using assms(1,4) by (simp add: get_line_def line_end_def Let_def crlf_def butlast_append)
qed

lemma scan_status_text:
  assumes "major < 2 ^ 32" "minor < 2 ^ 32" "status < 2 ^ 32"
  shows "scan_status (status_text major minor status reason)
       = Some (word_of_nat major, word_of_nat minor, word_of_nat status)"
proof -
  have nul: "NUL \<notin> set (digits 10 n)" for n
    using digits_plain [of 10 NUL n] by (auto simp: plain_char_def)
  have nd: "\<not> is_digit_c 10 (CHR ''.'')" "\<not> is_digit_c 10 (CHR '' '')"
      "tolower_c (CHR ''.'') \<noteq> CHR ''x''" "tolower_c (CHR '' '') \<noteq> CHR ''x''"
    by (simp_all add: is_digit_c_def digit_val_def Let_def tolower_c_def isupper_c_def)
  have cons: "cstr (c # s) = c # cstr s" if "c \<noteq> NUL" for c s using that by (simp add: cstr_def)
  let ?r = "cstr reason"
  have u: "scan_u (digits 10 n @ s) = Some (word_of_nat n, cstr s)"
    if n: "n < 2 ^ 32" "s \<noteq> []" "hd s \<in> {CHR ''.'', CHR '' ''}" for n s
  proof (rule scan_u_digits [OF n(1)])
    obtain c t where "s = c # t" "c \<in> {CHR ''.'', CHR '' ''}" using n(2,3) by (cases s) auto
    then have "cstr s = c # cstr t" using cons [of c t] by auto
    then show "cstr s = [] \<or> \<not> is_digit_c 10 (hd (cstr s)) \<and> tolower_c (hd (cstr s)) \<noteq> CHR ''x''"
      using nd \<open>c \<in> _\<close> by auto
  qed
  have "cstr (status_text major minor status reason)
      = ''HTTP/'' @ digits 10 major @ CHR ''.'' # digits 10 minor @ CHR '' '' # digits 10 status @ CHR '' '' # ?r"
    using nul by (simp add: status_text_def cstr_append cons)
  moreover have "cstr (CHR ''.'' # digits 10 minor @ CHR '' '' # digits 10 status @ CHR '' '' # ?r)
      = CHR ''.'' # digits 10 minor @ CHR '' '' # digits 10 status @ CHR '' '' # ?r"
    using nul by (simp add: cons cstr_append)
  moreover have "cstr (CHR '' '' # digits 10 status @ CHR '' '' # ?r) = CHR '' '' # digits 10 status @ CHR '' '' # ?r"
    using nul by (simp add: cons cstr_append)
  ultimately show ?thesis
    using u [OF assms(1), of "CHR ''.'' # digits 10 minor @ CHR '' '' # digits 10 status @ CHR '' '' # ?r"]
      u [OF assms(2), of "CHR '' '' # digits 10 status @ CHR '' '' # ?r"]
      u [OF assms(3), of "CHR '' '' # ?r"]
    by (simp add: scan_status_def scan_u_space cstr_def)
qed

section \<open>Readers\<close>

text \<open>
  A handler that is only interested in the bytes of the body.  \<open>collect\<close> is the one
  that stores them.
\<close>

locale reader = observer +
  assumes quiet: "ev \<noteq> EV_CALL_RECV_DATA \<Longrightarrow> h ev arg = id"

definition collect_bytes :: "event_type \<Rightarrow> any_type \<Rightarrow> string \<Rightarrow> string" where
  "collect_bytes ev arg l = (case (ev, arg) of (EV_CALL_RECV_DATA, Bytes d) \<Rightarrow> l @ d | _ \<Rightarrow> l)"

definition collect :: "('cb, 'h, string) signal" where
  "collect ev ob arg S = Inr (tell (collect_bytes ev arg) S)"

interpretation collector: reader collect collect_bytes
proof
  show "collect_bytes ev arg = id" if "ev \<noteq> EV_CALL_RECV_DATA" for ev arg
    using that by (auto simp: collect_bytes_def fun_eq_iff split: event_type.splits)
qed (auto simp: collect_def collect_bytes_def fun_eq_iff)

text \<open>The effect of a list of headers on the connection.\<close>

definition read_headers :: "string list \<Rightarrow> conn \<Rightarrow> conn" where
  "read_headers ls s = foldl (\<lambda>s l. (header_line (s\<lparr>line := l\<rparr>))\<lparr>line := []\<rparr>) s ls"

lemma read_headers_simps [simp]:
  "read_headers [] s = s"
  "read_headers (l # ls) s = read_headers ls ((header_line (s\<lparr>line := l\<rparr>))\<lparr>line := []\<rparr>)"
  by (simp_all add: read_headers_def)

lemma read_headers_append: "read_headers (ls @ ms) s = read_headers ms (read_headers ls s)"
  by (simp add: read_headers_def)

lemma read_headers_plain:
  "\<forall>l \<in> set ls. plain_header l \<Longrightarrow> line s = [] \<Longrightarrow> read_headers ls s = s"
proof (induction ls)
  case (Cons l ls)
  have "(header_line (s\<lparr>line := l\<rparr>))\<lparr>line := []\<rparr> = s"
    using Cons.prems by (auto simp: header_line_def plain_header_def)
  then show ?case using Cons by simp
qed simp

lemma header_line_frame:
  "state (header_line s) = state s" "line (header_line s) = line s"
  by (simp_all add: header_line_def Let_def)

lemma read_headers_state: "state (read_headers ls s) = state s" "line s = [] \<Longrightarrow> line (read_headers ls s) = []"
  by (induction ls arbitrary: s) (auto simp: header_line_frame)

context reader
begin

lemma block_header_loop:
  "\<forall>l \<in> set ls. good_line l \<Longrightarrow> line (conns S a) = [] \<Longrightarrow> state (conns S a) < S_CLOSING \<Longrightarrow>
   header_loop sig c a (block_text ls @ rest) S
     = Inr (True, put_conn a (end_of_headers (read_headers ls (conns S a))) S, rest)"
proof (induction ls arbitrary: S)
  case Nil
  have g: "get_line (conns S a) (crlf @ rest) = Inr (True, conns S a, rest)"
    using get_line_text [of "conns S a" "[]" rest] Nil.prems(2) by simp
  show ?case
    using Nil.prems(2) g by (subst header_loop.simps) (simp add: block_text_def upd_put)
next
  case (Cons l ls)
  let ?s = "conns S a"
  let ?S = "put_conn a ((header_line (?s\<lparr>line := l\<rparr>))\<lparr>line := []\<rparr>) S"
  have l: "l \<noteq> []" "NUL \<notin> set l" "LF \<notin> set l" "length l \<le> 1020"
    using Cons.prems(1) by (auto simp: good_line_def)
  have tx: "block_text (l # ls) @ rest = l @ crlf @ block_text ls @ rest"
    by (simp add: block_text_def)
  have "header_loop sig c a (block_text (l # ls) @ rest) S = header_loop sig c a (block_text ls @ rest) ?S"
    unfolding tx using get_line_text [OF Cons.prems(2) l(2-4)] l(1) Cons.prems(3)
    by (subst header_loop.simps) (simp add: upd_put sig_law quiet header_line_frame Let_def)
  also have "\<dots> = Inr (True, put_conn a (end_of_headers (read_headers ls (conns ?S a))) ?S, rest)"
    by (rule Cons.IH) (use Cons.prems in \<open>auto simp: header_line_frame\<close>)
  finally show ?case by simp
qed

lemma block_footer_loop:
  "\<forall>l \<in> set ls. good_line l \<Longrightarrow> line (conns S a) = [] \<Longrightarrow> state (conns S a) < S_CLOSING \<Longrightarrow>
   footer_loop sig c a (block_text ls @ rest) S
     = Inr (True, put_conn a ((conns S a)\<lparr>state := S_REPLY_DONE\<rparr>) S, rest)"
proof (induction ls arbitrary: S)
  case Nil
  have g: "get_line (conns S a) (crlf @ rest) = Inr (True, conns S a, rest)"
    using get_line_text [of "conns S a" "[]" rest] Nil.prems(2) by simp
  show ?case
    using Nil.prems(2) g by (subst footer_loop.simps) (simp add: block_text_def upd_put)
next
  case (Cons l ls)
  have l: "l \<noteq> []" "NUL \<notin> set l" "LF \<notin> set l" "length l \<le> 1020"
    using Cons.prems(1) by (auto simp: good_line_def)
  have tx: "block_text (l # ls) @ rest = l @ crlf @ block_text ls @ rest"
    by (simp add: block_text_def)
  have idem: "(conns S a)\<lparr>line := []\<rparr> = conns S a" using Cons.prems(2) by simp
  have "footer_loop sig c a (block_text (l # ls) @ rest) S = footer_loop sig c a (block_text ls @ rest) S"
    unfolding tx using get_line_text [OF Cons.prems(2) l(2-4)] l(1) Cons.prems(3)
    by (subst footer_loop.simps) (simp add: upd_put sig_law quiet Let_def idem)
  then show ?case using Cons by simp
qed

text \<open>From the start of a reply to the end of its headers.\<close>

lemma reply_headers:
  assumes "call_conn (calls S c) = Some a" "iov_base (iov (calls S c) ! ie_method) = Some meth"
    and "\<not> strcmp_eq meth ''HEAD''"
    and "state (conns S a) = S_REPLY_STATUS" "line (conns S a) = []"
    and "major < 2 ^ 15" "minor < 2 ^ 16" "status < 2 ^ 31" "status \<noteq> 100"
    and "NUL \<notin> set reason" "LF \<notin> set reason" "length (status_text major minor status reason) \<le> 1020"
    and "\<forall>l \<in> set ls. good_line l"
  defines "s0 \<equiv> (conns S a)\<lparr>is_chunked := False, content_length := - 1,
                   has_body := status_has_body (word_of_nat status), state := S_REPLY_HEADER\<rparr>"
  shows "\<exists>w. http_process_reply_bytes sig c (status_text major minor status reason @ crlf @ block_text ls @ rest) S
       = (let T = put_conn a (end_of_headers (read_headers ls s0)) (put_call c w S)
          in if rest \<noteq> [] then http_loop sig c a rest T else Inr (T, []))
     \<and> w = (calls S c)\<lparr>reply_version := 0x10000 * int major + int minor, reply_status := int status,
              header_bytes := header_bytes w\<rparr>"
proof -
  let ?st = "status_text major minor status reason" and ?q = "calls S c" and ?s = "conns S a"
  let ?t = "?s\<lparr>is_chunked := False, content_length := - 1\<rparr>"
  have "NUL \<notin> set (digits 10 n) \<and> LF \<notin> set (digits 10 n)" for n
    using digits_plain [of 10 _ n] by (auto simp: plain_char_def)
  then have nul: "NUL \<notin> set ?st" "LF \<notin> set ?st" using assms(10,11) by (auto simp: status_text_def)
  have g: "get_line ?t (?st @ crlf @ block_text ls @ rest)
      = Inr (True, ?t\<lparr>line := ?st\<rparr>, block_text ls @ rest)"
    by (rule get_line_text) (use nul assms(5,12) in auto)
  have bounds: "major < 2 ^ 32" "minor < 2 ^ 32" "status < 2 ^ 32" using assms(6-8) by simp_all
  have sint: "sint (word_of_nat n :: u32) = int n" if "n < 2 ^ 31" for n
    using that by (simp add: signed_of_nat signed_take_bit_int_eq_self)
  have v: "sint (0x10000 * word_of_nat major + word_of_nat minor :: u32) = 0x10000 * int major + int minor"
    using sint [of "0x10000 * major + minor"] assms(6,7) by simp
  have p: "parsed_status (indet_status S) ?st
      = (0x10000 * int major + int minor, int status, word_of_nat status)"
    using scan_status_text [OF bounds] v sint [OF assms(8)] by (simp add: parsed_status_def)
  have n100: "(word_of_nat status :: u32) \<noteq> 100"
  proof
    assume "(word_of_nat status :: u32) = 100"
    then have "unat (word_of_nat status :: u32) = unat (100 :: u32)" by simp
    then show False using bounds(3) assms(9) by (simp add: unsigned_of_nat take_bit_nat_eq_self)
  qed
  let ?buf = "?st @ crlf @ block_text ls @ rest"
  let ?n = "length ?buf - length (block_text ls @ rest)"
  define w1 where "w1 = ?q\<lparr>reply_version := 0x10000 * int major + int minor, reply_status := int status,
      header_bytes := header_bytes ?q + word_of_nat ?n\<rparr>"
  let ?S1 = "put_conn a s0 (put_call c w1 S)"
  have r1: "http_round sig c a ?buf S = Inr (False, ?S1, block_text ls @ rest)"
  proof -
    let ?S2 = "put_conn a (?t\<lparr>line := ?st\<rparr>) S"
    have line: "s0 = ?s\<lparr>is_chunked := False, content_length := - 1, line := ?st,
        has_body := status_has_body (word_of_nat status), state := S_REPLY_HEADER, line := []\<rparr>"
      by (rule conn.equality) (simp_all add: s0_def assms(5))
    have "process_status sig c a ?n ?S2 = Inr ?S1"
      using p assms(2-4) n100
      by (simp add: process_status_def Let_def sig_law quiet upd_put w1_def line)
    then show ?thesis
      using g assms(4) by (simp add: http_round_def parse_status_line_def upd_put)
  qed
  have len: "block_text ls @ rest \<noteq> []" by (simp add: block_text_def crlf_def)
  have sc: "state s0 = S_REPLY_HEADER" "line s0 = []" by (simp_all add: s0_def assms(5))
  define w where "w = w1\<lparr>header_bytes := header_bytes w1 + word_of_nat (length (block_text ls))\<rparr>"
  let ?T = "put_conn a (end_of_headers (read_headers ls s0)) (put_call c w S)"
  have r2: "http_round sig c a (block_text ls @ rest) ?S1 = Inr (False, ?T, rest)"
    using block_header_loop [of ls ?S1 a c rest] assms(13) sc
    by (simp add: http_round_def parse_headers_def upd_put w_def)
  have cl: "state (conns ?T a) < S_CLOSING"
    using sc read_headers_state(1) [of ls s0] by (simp add: end_of_headers_def)
  have "http_loop sig c a ?buf S = http_loop sig c a (block_text ls @ rest) ?S1"
    using http_loop_round(2) [OF r1 len] sc by simp
  also have "\<dots> = (if rest \<noteq> [] then http_loop sig c a rest ?T else Inr (?T, []))"
    using http_loop_round [OF r2] cl by simp
  finally have "http_process_reply_bytes sig c ?buf S
      = (if rest \<noteq> [] then http_loop sig c a rest ?T else Inr (?T, []))"
    using assms(1) by (simp add: http_process_reply_bytes_def sig_law quiet)
  then show ?thesis by (intro exI [of _ w]) (simp add: Let_def w_def w1_def)
qed

lemma parse_data_whole:
  assumes "unat (content_length (conns S a) - content_bytes (calls S c)) = length d"
  shows "parse_data sig c a (d @ rest) S = Inr (True,
     put_call c ((calls S c)\<lparr>content_bytes := content_bytes (calls S c) + word_of_nat (length d)\<rparr>)
       (tell (h EV_CALL_RECV_DATA (Bytes d)) S), rest)"
  using assms by (auto simp: parse_data_def Let_def sig_law upd_put)

lemma chunk_data:
  assumes "d \<noteq> []" "line (conns S a) = []" "state (conns S a) = S_REPLY_CHUNKED"
    and "content_length (conns S a) = content_bytes (calls S c)"
    and "unat (content_bytes (calls S c)) + length d < 2 ^ 64"
  defines "m \<equiv> content_bytes (calls S c) + word_of_nat (length d)"
  shows "chunk_loop sig c a (chunk_text d @ tail) S
       = chunk_loop sig c a tail (put_conn a ((conns S a)\<lparr>content_length := m\<rparr>)
           (put_call c ((calls S c)\<lparr>content_bytes := m\<rparr>) (tell (h EV_CALL_RECV_DATA (Bytes d)) S)))"
proof -
  let ?s = "conns S a" and ?cb = "content_bytes (calls S c)" and ?n = "length d"
  let ?ds = "digits 16 ?n"
  have n: "?n < 2 ^ 64" "?n \<noteq> 0" using assms(1,5) by auto
  have un: "unat (word_of_nat ?n :: u64) = ?n" using n(1) by (simp add: unsigned_of_nat take_bit_nat_eq_self)
  have pl: "plain_char ch" if "ch \<in> set ?ds" for ch using digits_plain [of 16 ch ?n] that by simp
  then have g: "get_line ?s (?ds @ crlf @ d @ crlf @ tail) = Inr (True, ?s\<lparr>line := ?ds\<rparr>, d @ crlf @ tail)"
    by (intro get_line_text) (use assms(2) digits_length [of 16 ?n 64] n in \<open>auto simp: plain_char_def\<close>)
  have st: "strtoul 16 ?ds = (word_of_nat ?n, length ?ds, False)"
    using strtoul_digits [of 16 ?n "[]"] n by (simp add: cstr_def)
  have nz: "(word_of_nat ?n :: u64) \<noteq> 0" using un n(2) by (metis unsigned_0)
  let ?S3 = "put_conn a (?s\<lparr>content_length := m\<rparr>) S"
  let ?T = "put_conn a (?s\<lparr>content_length := m\<rparr>)
      (put_call c ((calls S c)\<lparr>content_bytes := m\<rparr>) (tell (h EV_CALL_RECV_DATA (Bytes d)) S))"
  have sub: "unat (content_length (conns ?S3 a) - content_bytes (calls ?S3 c)) = ?n"
    using un by (simp add: m_def)
  have l0: "?s\<lparr>line := [], content_length := x\<rparr> = ?s\<lparr>content_length := x\<rparr>" for x
    using assms(2) by (intro conn.equality) simp_all
  have "chunk_loop sig c a (?ds @ crlf @ d @ crlf @ tail) S
      = ebind (parse_data sig c a (d @ crlf @ tail) ?S3) (\<lambda>(_, S3, r). chunk_loop sig c a r S3)"
    using g st nz assms(3,4) digits_not_Nil [of 16 ?n]
    by (subst chunk_loop.simps) (simp add: Let_def upd_put l0 m_def)
  also have "\<dots> = chunk_loop sig c a (crlf @ tail) ?T"
    using parse_data_whole [OF sub, of "crlf @ tail"] by (simp add: m_def)
  also have "\<dots> = chunk_loop sig c a tail ?T"
  proof -
    have "get_line (conns ?T a) (crlf @ tail) = Inr (True, conns ?T a, tail)"
      using get_line_text [of "conns ?T a" "[]" tail] assms(2) by simp
    then show ?thesis
      using assms(2,3) by (subst chunk_loop.simps) (simp add: upd_put Let_def crlf_def)
  qed
  finally show ?thesis by (simp add: chunk_text_def)
qed

lemma tell_data: "tell (h EV_CALL_RECV_DATA (Bytes e)) (tell (h EV_CALL_RECV_DATA (Bytes d)) S)
    = tell (h EV_CALL_RECV_DATA (Bytes (d @ e))) S"
  by (simp add: data_append)

lemma chunks_data:
  "\<forall>d \<in> set ds. d \<noteq> [] \<Longrightarrow> line (conns S a) = [] \<Longrightarrow> state (conns S a) = S_REPLY_CHUNKED \<Longrightarrow>
   content_length (conns S a) = content_bytes (calls S c) \<Longrightarrow>
   unat (content_bytes (calls S c)) + length (concat ds) < 2 ^ 64 \<Longrightarrow>
   chunk_loop sig c a (concat (map chunk_text ds) @ tail) S
     = (let m = content_bytes (calls S c) + word_of_nat (length (concat ds)) in
        chunk_loop sig c a tail (put_conn a ((conns S a)\<lparr>content_length := m\<rparr>)
          (put_call c ((calls S c)\<lparr>content_bytes := m\<rparr>)
            (tell (h EV_CALL_RECV_DATA (Bytes (concat ds))) S))))"
proof (induction ds arbitrary: S)
  case Nil
  have "(conns S a)\<lparr>content_length := content_bytes (calls S c)\<rparr> = conns S a"
    using Nil.prems(4) by (intro conn.equality) simp_all
  then show ?case by (simp add: Let_def data_Nil id_def [symmetric])
next
  case (Cons d ds)
  let ?cb = "content_bytes (calls S c)"
  let ?m = "?cb + word_of_nat (length d)"
  let ?T = "put_conn a ((conns S a)\<lparr>content_length := ?m\<rparr>)
      (put_call c ((calls S c)\<lparr>content_bytes := ?m\<rparr>) (tell (h EV_CALL_RECV_DATA (Bytes d)) S))"
  have um: "unat ?m = unat ?cb + length d"
    using Cons.prems(5) unat_add_no_wrap [of ?cb "word_of_nat (length d)"]
    by (simp add: unsigned_of_nat take_bit_nat_eq_self)
  have "chunk_loop sig c a (concat (map chunk_text (d # ds)) @ tail) S
      = chunk_loop sig c a (concat (map chunk_text ds) @ tail) ?T"
    using chunk_data [of d S a c "concat (map chunk_text ds) @ tail"] Cons.prems by simp
  also have "\<dots> = (let m = content_bytes (calls ?T c) + word_of_nat (length (concat ds)) in
        chunk_loop sig c a tail (put_conn a ((conns ?T a)\<lparr>content_length := m\<rparr>)
          (put_call c ((calls ?T c)\<lparr>content_bytes := m\<rparr>)
            (tell (h EV_CALL_RECV_DATA (Bytes (concat ds))) ?T))))"
    by (rule Cons.IH) (use Cons.prems um in auto)
  finally show ?case by (simp add: Let_def tell_data ac_simps del: put_order(6))
qed

lemma chunked_body:
  assumes "\<forall>d \<in> set ds. d \<noteq> []" "line (conns S a) = []" "state (conns S a) = S_REPLY_CHUNKED"
    and "content_length (conns S a) = content_bytes (calls S c)"
    and "unat (content_bytes (calls S c)) + length (concat ds) < 2 ^ 64"
    and "\<forall>l \<in> set ls. good_line l"
  shows "\<exists>T. http_loop sig c a (chunked_text ds @ block_text ls @ rest) S = Inr (T, rest)
     \<and> state (conns T a) = S_REPLY_DONE \<and> core.more T = h EV_CALL_RECV_DATA (Bytes (concat ds)) (core.more S)
     \<and> content_bytes (calls T c) = content_bytes (calls S c) + word_of_nat (length (concat ds))
     \<and> reply_status (calls T c) = reply_status (calls S c)"
proof -
  let ?m = "content_bytes (calls S c) + word_of_nat (length (concat ds))"
  let ?S1 = "put_conn a ((conns S a)\<lparr>content_length := ?m\<rparr>)
      (put_call c ((calls S c)\<lparr>content_bytes := ?m\<rparr>) (tell (h EV_CALL_RECV_DATA (Bytes (concat ds))) S))"
  let ?S2 = "put_conn a ((conns S a)\<lparr>content_length := ?m, line := [], state := S_REPLY_FOOTER\<rparr>) ?S1"
  let ?tail = "block_text ls @ rest"
  have g: "get_line (conns ?S1 a) (''0'' @ crlf @ ?tail) = Inr (True, (conns ?S1 a)\<lparr>line := ''0''\<rparr>, ?tail)"
    by (rule get_line_text) (use assms(2) in auto)
  have "digit_char 0 = CHR ''0''" by code_simp
  then have "digits 16 0 = ''0''" by (subst digits.simps) simp
  then have st: "strtoul 16 ''0'' = (0, 1, False)"
    using strtoul_digits [of 16 0 "[]"] by (simp add: cstr_def)
  have zero: "chunk_loop sig c a (''0'' @ crlf @ ?tail) ?S1 = Inr (?S2, ?tail)"
    using g st assms(3) by (subst chunk_loop.simps) (simp add: Let_def upd_put)
  have "chunk_loop sig c a (chunked_text ds @ ?tail) S = Inr (?S2, ?tail)"
    using chunks_data [OF assms(1-5), of "''0'' @ crlf @ ?tail"] zero by (simp add: chunked_text_def Let_def)
  then have r1: "http_round sig c a (chunked_text ds @ ?tail) S = Inr (False, ?S2, ?tail)"
    using assms(3) by (simp add: http_round_def xfer_chunked_def)
  have ne: "?tail \<noteq> []" by (simp add: block_text_def crlf_def)
  let ?n = "length ?tail - length rest"
  let ?T = "upd_call c (\<lambda>q. q\<lparr>footer_bytes := footer_bytes q + word_of_nat ?n\<rparr>)
      (put_conn a ((conns ?S2 a)\<lparr>state := S_REPLY_DONE\<rparr>) ?S2)"
  have r2: "http_round sig c a ?tail ?S2 = Inr (False, ?T, rest)"
    using block_footer_loop [of ls ?S2 a c rest] assms(6) by (simp add: http_round_def parse_footers_def)
  have "http_loop sig c a (chunked_text ds @ ?tail) S = http_loop sig c a ?tail ?S2"
    using http_loop_round(2) [OF r1 ne] by simp
  also have "\<dots> = Inr (?T, rest)"
    using http_loop_round [OF r2] http_loop_done [of ?T a c rest] by (cases "rest = []") simp_all
  finally show ?thesis by (intro exI [of _ ?T]) simp
qed

lemma sized_body:
  assumes "state (conns S a) = S_REPLY_DATA" "content_bytes (calls S c) = 0"
    and "content_length (conns S a) = word_of_nat (length d)" "length d < 2 ^ 64"
  shows "\<exists>T. http_loop sig c a (d @ rest) S = Inr (T, rest)
     \<and> state (conns T a) = S_REPLY_DONE \<and> core.more T = h EV_CALL_RECV_DATA (Bytes d) (core.more S)
     \<and> content_bytes (calls T c) = word_of_nat (length d) \<and> reply_status (calls T c) = reply_status (calls S c)"
proof -
  have "unat (content_length (conns S a) - content_bytes (calls S c)) = length d"
    using assms(2-4) by (simp add: unsigned_of_nat take_bit_nat_eq_self)
  note p = parse_data_whole [OF this, of rest]
  let ?T = "put_conn a ((conns S a)\<lparr>state := S_REPLY_DONE\<rparr>)
      (put_call c ((calls S c)\<lparr>content_bytes := word_of_nat (length d)\<rparr>) (tell (h EV_CALL_RECV_DATA (Bytes d)) S))"
  have r: "http_round sig c a (d @ rest) S = Inr (False, ?T, rest)"
    using p assms(1,2) by (simp add: http_round_def upd_put)
  have "http_loop sig c a (d @ rest) S = Inr (?T, rest)"
    using http_loop_round [OF r] http_loop_done [of ?T a c rest] by (cases "rest = []") simp_all
  then show ?thesis by (intro exI [of _ ?T]) simp
qed

end

section \<open>Header lines the parser looks at\<close>

definition length_header :: "nat \<Rightarrow> string" where
  "length_header n = ''Content-Length: '' @ digits 10 n"

definition chunked_header :: string where
  "chunked_header = ''Transfer-Encoding: chunked''"

lemma digits_no_NUL: "NUL \<notin> set (digits 10 n)" "LF \<notin> set (digits 10 n)"
  using digits_plain [of 10 NUL n] digits_plain [of 10 LF n] by (auto simp: plain_char_def)

lemma length_header_good: "n < 2 ^ 64 \<Longrightarrow> good_line (length_header n)"
  using digits_length [of 10 n 64] digits_no_NUL [of n] by (auto simp: good_line_def length_header_def)

lemma chunked_header_good: "good_line chunked_header"
  by (simp add: good_line_def chunked_header_def)

lemma header_line_length:
  assumes "n < 2 ^ 64" "n \<noteq> 0"
  shows "header_line (s\<lparr>line := length_header n\<rparr>) = s\<lparr>line := length_header n, content_length := word_of_nat n\<rparr>"
proof -
  have c: "cstr (length_header n) = length_header n"
    using digits_no_NUL(1) by (intro cstr_no_NUL) (simp add: length_header_def)
  have cmp: "strncasecmp_eq (length_header n) ''content-length:'' 15"
  proof -
    have "take 15 (length_header n) = ''Content-Length:''" by (simp add: length_header_def)
    moreover have "map tolower_c ''Content-Length:'' = map tolower_c (take 15 (cstr ''content-length:''))"
      by code_simp
    ultimately show ?thesis unfolding strncasecmp_eq_def c by simp
  qed
  have "strtoul 10 (digits 10 n) = (word_of_nat n, length (digits 10 n), False)"
    using strtoul_digits [of 10 n "[]"] assms(1) by (simp add: cstr_def)
  then have v: "fst (strtoul 10 (drop 15 (length_header n))) = word_of_nat n"
    by (simp add: length_header_def strtoul_space)
  have nz: "(word_of_nat n :: u64) \<noteq> 0"
  proof
    assume "(word_of_nat n :: u64) = 0"
    then have "unat (word_of_nat n :: u64) = 0" by simp
    then show False using assms by (simp add: unsigned_of_nat take_bit_nat_eq_self)
  qed
  have "tolower_c (CHR ''C'') = CHR ''c''" by code_simp
  then have hd: "tolower_c (hd (length_header n)) = CHR ''c''" by (simp add: length_header_def)
  show ?thesis
    using cmp v nz hd by (simp add: header_line_def Let_def)
qed

lemma header_line_chunked:
  "header_line (s\<lparr>line := chunked_header\<rparr>) = s\<lparr>line := chunked_header, is_chunked := True\<rparr>"
proof -
  have "tolower_c (hd chunked_header) = CHR ''t''"
    "strncasecmp_eq chunked_header ''transfer-encoding:'' 18"
    "strcasecmp_eq (dropWhile isspace_c (drop 18 chunked_header)) ''chunked''"
    by code_simp+
  then show ?thesis by (simp add: header_line_def Let_def)
qed

section \<open>Properties\<close>




text \<open>A call to which a reply is due, on connection 7.\<close>

definition waiting :: "(unit, unit, string) core_scheme" where
  "waiting = (core.extend initial_state [])
     \<lparr>conns := (\<lambda>_. zero_conn)(7 := zero_conn\<lparr>state := S_REPLY_STATUS\<rparr>),
      calls := (\<lambda>_. zero_call)(2 := zero_call\<lparr>call_conn := Some 7,
                 iov := (replicate ie_num null_iovec)[0 := \<lparr>iov_base = Some ''GET'', iov_len = 3\<rparr>]\<rparr>)\<rparr>"

lemma waiting_fields:
  "conns waiting 7 = zero_conn\<lparr>state := S_REPLY_STATUS\<rparr>"
  "call_conn (calls waiting 2) = Some 7" "iov_base (iov (calls waiting 2) ! ie_method) = Some ''GET''"
  "content_bytes (calls waiting 2) = 0" "core.more waiting = []"
  by (simp_all add: waiting_def zero_call_def core.defs initial_state_def)

lemma status_200: "length (status_text 1 1 200 ''OK'') \<le> 1020" "status_has_body (word_of_nat 200)"
  "\<not> strcmp_eq ''GET'' ''HEAD''" "plain_header ''Server: x''"
proof -
  have "length (digits 10 n) \<le> 33" if "n < 2 ^ 32" for n using digits_length [of 10 n 32] that by simp
  from this [of 1] this [of 200] show "length (status_text 1 1 200 ''OK'') \<le> 1020"
    by (simp add: status_text_def)
  show "status_has_body (word_of_nat 200)" by (simp add: status_has_body_def)
  show "\<not> strcmp_eq ''GET'' ''HEAD''" "plain_header ''Server: x''" by code_simp+
qed



text \<open>The end of the trailer of a chunked reply, in two pieces.\<close>

definition in_trailer :: "(unit, unit, string) core_scheme" where
  "in_trailer = upd_conn 7 (\<lambda>s. s\<lparr>state := S_REPLY_FOOTER\<rparr>) waiting"


end
