(* ===== verification/Core_Addr.thy ===== *)
theory Core_Addr
  imports Objects C_String "HOL-Library.Signed_Division"
begin

text \<open>
  The addresses of \<^verbatim>\<open>src/src/core.c\<close>: the hash table of server addresses, the pool of
  local addresses with their free ports, and the server list of \<^verbatim>\<open>conn.c\<close>.

  What the resolver of the C library answers is the argument \<open>resolver\<close>.  An address
  (\<open>s_addr\<close>) is the 32-bit value that a little-endian machine loads from the four bytes in
  network order: the last octet of an address is the most significant byte.
\<close>

section \<open>The hash table of servers\<close>

abbreviation (input) hash_table_size :: nat where "hash_table_size \<equiv> 1024"

definition hash_step :: "u64 \<Rightarrow> char \<Rightarrow> u64" where
  "hash_step h ch =
     (let h1 = push_bit 4 h + of_nat (of_char ch); g = h1 AND 0xf0000000
      in if g \<noteq> 0 then (h1 XOR drop_bit 24 g) AND NOT g else h1)"

text \<open>The result is an \<open>int\<close>: the low 32 bits, read as a signed number.\<close>

definition hash_code :: "string \<Rightarrow> int \<Rightarrow> int" where
  "hash_code host prt = sint (ucast (foldl hash_step (word_of_int prt) (cstr host)) :: u32)"

definition hash_index :: "string \<Rightarrow> int \<Rightarrow> int" where
  "hash_index host prt = hash_code host prt smod int hash_table_size"

text \<open>
  \<open>hash_enter\<close> looks for a free entry without end; \<open>n\<close> bounds the number of entries it
  inspects.  With \<open>hash_table_size\<close> it inspects every entry, so that \<open>Out_of_fuel\<close>
  stands for a loop that never ends.
\<close>

fun enter_loop :: "nat \<Rightarrow> hash_entry list \<Rightarrow> nat \<Rightarrow> nat result" where
  "enter_loop 0 tab index = Inl Out_of_fuel"
| "enter_loop (Suc n) tab index =
     ebind (nth_c tab index) (\<lambda>he.
       case he_hostname he of
         None \<Rightarrow> Inr index
       | Some _ \<Rightarrow> enter_loop n tab (if hash_table_size \<le> index + 1 then 0 else index + 1))"

definition hash_enter :: "nat \<Rightarrow> string \<Rightarrow> int \<Rightarrow> u32 \<times> int \<Rightarrow> hash_entry list \<Rightarrow> hash_entry list result" where
  "hash_enter n host prt addr tab =
     (if hash_index host prt < 0 then Inl Undefined
      else ebind (enter_loop n tab (nat (hash_index host prt))) (\<lambda>index.
        update_c tab index \<lparr>he_hostname = Some host, he_port = prt, he_sin = addr\<rparr>))"

fun lookup_loop :: "nat \<Rightarrow> hash_entry list \<Rightarrow> string \<Rightarrow> int \<Rightarrow> nat \<Rightarrow> nat \<Rightarrow> (u32 \<times> int) option result" where
  "lookup_loop 0 tab host prt start index = Inl Out_of_fuel"
| "lookup_loop (Suc n) tab host prt start index =
     ebind (nth_c tab index) (\<lambda>he.
       case he_hostname he of
         None \<Rightarrow> Inr None
       | Some name \<Rightarrow>
           if he_port he = prt \<and> strcmp_eq name host then Inr (Some (he_sin he))
           else
             let index' = (if hash_table_size \<le> index + 1 then 0 else index + 1) in
             if index' = start then Inr None
             else lookup_loop n tab host prt start index')"

definition hash_lookup :: "nat \<Rightarrow> string \<Rightarrow> int \<Rightarrow> hash_entry list \<Rightarrow> (u32 \<times> int) option result" where
  "hash_lookup n host prt tab =
     (if hash_index host prt < 0 then Inl Undefined
      else lookup_loop n tab host prt (nat (hash_index host prt)) (nat (hash_index host prt)))"

section \<open>Local addresses and their ports\<close>

abbreviation (input) min_ip_port :: int where "min_ip_port \<equiv> 1024"
abbreviation (input) port_words :: nat where "port_words \<equiv> 1008"

definition ffs :: "u32 \<Rightarrow> int" where
  "ffs w = (case find (bit w) [0..<32] of None \<Rightarrow> 0 | Some i \<Rightarrow> int i + 1)"

text \<open>
  \<open>ffs\<close> gets the low half of the \<open>long\<close>; the test of the high half depends on the
  macro \<open>SIZEOF_LONG\<close>, which no configuration of the program defines.
\<close>

definition lffs :: "u64 \<Rightarrow> int" where
  "lffs w = ffs (ucast w)"

definition port_put :: "local_addr \<Rightarrow> int \<Rightarrow> local_addr result" where
  "port_put addr prt =
     (if prt < min_ip_port then Inl Undefined
      else
        let p = nat (prt - min_ip_port); i = p div 64; b = p mod 64 in
        ebind (nth_c (port_free_map addr) i) (\<lambda>w.
        ebind (update_c (port_free_map addr) i (w OR push_bit b 1)) (\<lambda>ws.
          Inr (addr\<lparr>port_free_map := ws\<rparr>))))"

text \<open>
  The inner loop of \<open>port_get\<close>: the next word with a free port after \<open>i\<close>, or \<open>None\<close> when
  the search is back at \<open>previous\<close>.
\<close>

fun next_word :: "nat \<Rightarrow> u64 list \<Rightarrow> nat \<Rightarrow> nat \<Rightarrow> nat option result" where
  "next_word 0 ws prev i = Inl Out_of_fuel"
| "next_word (Suc n) ws prev i =
     (let i1 = i + 1; i2 = (if length ws \<le> i1 then 0 else i1) in
      if i2 = prev then Inr None
      else ebind (nth_c ws i2) (\<lambda>w. if w = 0 then next_word n ws prev i2 else Inr (Some i2)))"

text \<open>\<open>bit >= BITSPERLONG - 1\<close> is an unsigned comparison; shifting by a negative number is undefined.\<close>

definition port_take :: "nat \<Rightarrow> local_addr \<Rightarrow> (int \<times> local_addr) result" where
  "port_take i addr =
     ebind (nth_c (port_free_map addr) i) (\<lambda>w.
       let b = lffs (w AND local_addr.mask addr) - 1 in
       if b < 0 then Inl Undefined
       else
         let m = (if 63 \<le> b then 0 else NOT (push_bit (nat b + 1) 1 - 1)) in
         ebind (update_c (port_free_map addr) i (w AND NOT (push_bit (nat b) 1))) (\<lambda>ws.
           Inr (b + int i * 64 + min_ip_port,
                addr\<lparr>previous := int i, mask := m, port_free_map := ws\<rparr>)))"

definition port_get :: "local_addr \<Rightarrow> (int \<times> local_addr) result" where
  "port_get addr =
     (let i = nat (previous addr) in
      ebind (nth_c (port_free_map addr) i) (\<lambda>w.
        if w AND local_addr.mask addr = 0 then
          ebind (next_word port_words (port_free_map addr) i i) (\<lambda>r.
            case r of
              None \<Rightarrow> Inr (- 1, addr)
            | Some j \<Rightarrow> port_take j (addr\<lparr>mask := - 1\<rparr>))
        else port_take i addr))"

definition new_address :: "u32 \<Rightarrow> local_addr" where
  "new_address addr = \<lparr>ip = addr, port_free_map = replicate port_words (- 1), mask = - 1, previous = 0\<rparr>"

definition core_add_address :: "u32 \<Rightarrow> ('cb, 'h, 'z) core_scheme \<Rightarrow> ('cb, 'h, 'z) core_scheme result" where
  "core_add_address addr S =
     (case malloc S of
        (None, S1) \<Rightarrow> Inl (Exit 1)
      | (Some _, S1) \<Rightarrow> Inr (S1\<lparr>addresses := addresses S1 @ [new_address addr]\<rparr>))"

definition core_get_next_myaddr :: "('cb, 'h, 'z) core_scheme \<Rightarrow> (nat \<times> ('cb, 'h, 'z) core_scheme) result" where
  "core_get_next_myaddr S =
     ebind (c_assert (addr_last S < length (addresses S)) S) (\<lambda>S.
       let a = addr_last S in
       Inr (a, S\<lparr>addr_last := (if a + 1 = length (addresses S) then 0 else a + 1)\<rparr>))"

section \<open>Resolving names\<close>

text \<open>
  What \<open>gethostbyname\<close> finds for a name (\<open>None\<close> for an entry that is not an IPv4
  address), and what \<open>inet_aton\<close> reads.
\<close>

record resolver =
  gethostbyname :: "string \<Rightarrow> u32 option option"
  inet_aton :: "string \<Rightarrow> u32 option"

definition core_addr_intern :: "resolver \<Rightarrow> ('cb, 'h, 'z) signal \<Rightarrow> string \<Rightarrow> int
    \<Rightarrow> ('cb, 'h, 'z) core_scheme \<Rightarrow> ('cb, 'h, 'z) core_scheme result" where
  "core_addr_intern res sig host prt S =
     ebind (sig EV_HOSTNAME_LOOKUP_START 0 (Bytes host) S) (\<lambda>S.
     ebind (sig EV_HOSTNAME_LOOKUP_STOP 0 (Bytes host) S) (\<lambda>S.
     ebind (case gethostbyname res host of
              Some None \<Rightarrow> Inl (Exit 1)
            | Some (Some addr) \<Rightarrow> Inr addr
            | None \<Rightarrow> (case inet_aton res host of None \<Rightarrow> Inl (Exit 1) | Some addr \<Rightarrow> Inr addr)) (\<lambda>addr.
     ebind (hash_enter hash_table_size host prt (addr, prt) (hash_table S)) (\<lambda>tab.
       Inr (S\<lparr>hash_table := tab\<rparr>)))))"

text \<open>The addresses of a range: \<open>s_addr += htonl (1)\<close> adds to the most significant byte.\<close>

fun range_loop :: "nat \<Rightarrow> u32 \<Rightarrow> u32 \<Rightarrow> ('cb, 'h, 'z) core_scheme \<Rightarrow> ('cb, 'h, 'z) core_scheme result" where
  "range_loop 0 addr end_addr S = Inl Out_of_fuel"
| "range_loop (Suc n) addr end_addr S =
     (if addr \<noteq> end_addr then
        ebind (core_add_address addr S) (range_loop n (addr + 0x01000000) end_addr)
      else Inr S)"

definition core_add_addresses :: "nat \<Rightarrow> resolver \<Rightarrow> string
    \<Rightarrow> ('cb, 'h, 'z) core_scheme \<Rightarrow> ('cb, 'h, 'z) core_scheme result" where
  "core_add_addresses n res spec S =
     (case gethostbyname res spec of
        Some None \<Rightarrow> Inl (Exit 1)
      | Some (Some addr) \<Rightarrow> core_add_address addr S
      | None \<Rightarrow>
          (case strchr spec CHR ''-'' of
             Some k \<Rightarrow>
               (case inet_aton res (take k spec) of
                  None \<Rightarrow> Inl (Exit 1)
                | Some addr \<Rightarrow>
                    (case inet_aton res (drop (k + 1) spec) of
                       None \<Rightarrow> Inl (Exit 1)
                     | Some end_addr \<Rightarrow>
                         ebind (range_loop n addr end_addr S) (core_add_address end_addr)))
           | None \<Rightarrow>
               (case inet_aton res spec of
                  Some addr \<Rightarrow> core_add_address addr S
                | None \<Rightarrow> Inl (Exit 1))))"

section \<open>The list of servers\<close>

text \<open>The outcome of opening and mapping a file.\<close>

datatype mapped_file = Not_opened | Not_mapped | Mapped string

text \<open>The names in the file, one for each iteration of the loop over the mapping.\<close>

function server_names :: "string \<Rightarrow> string list" where
  "server_names f = (if f = [] then [] else cstr f # server_names (drop (length (cstr f) + 1) f))"
  by auto
termination by (relation "measure length") auto

definition conn_add_servers :: "mapped_file \<Rightarrow> resolver \<Rightarrow> ('cb, 'h, 'z) signal
    \<Rightarrow> ('cb, 'h, 'z) core_scheme \<Rightarrow> ('cb, 'h, 'z) core_scheme result" where
  "conn_add_servers file res sig S =
     (case file of
        Not_opened \<Rightarrow> Inl (Exit 1)
      | Not_mapped \<Rightarrow> Inl (Exit 1)
      | Mapped f \<Rightarrow>
          if f = [] then Inl (Exit 1)
          else ebind (efold (\<lambda>name S. core_addr_intern res sig name (server_port (param S)) S)
                       (server_names f) (S\<lparr>srv_file := f\<rparr>))
                 (\<lambda>S. Inr (S\<lparr>srvcurrent := 0\<rparr>)))"

declare server_names.simps [simp del]

section \<open>The hash value\<close>

lemma hash_step_mask: "hash_step h ch AND 0xf0000000 = 0"
proof -
  define w where "w = push_bit 4 h + (of_nat (of_char ch) :: u64)"
  have m: "(0xf0000000 :: u64) = push_bit 28 (semiring_bit_operations_class.mask 4)"
    by (simp add: mask_eq_decr_exp)
  have "((w XOR drop_bit 24 (w AND 0xf0000000)) AND NOT (w AND 0xf0000000)) AND 0xf0000000 = 0"
    unfolding m by (rule bit_word_eqI) (auto simp: bit_simps)
  then show ?thesis by (simp add: hash_step_def w_def [symmetric] Let_def)
qed

lemma hash_fold_mask:
  assumes "s \<noteq> []"
  shows "foldl hash_step h s AND 0xf0000000 = 0"
proof -
  obtain u c where "s = u @ [c]" using assms by (metis rev_exhaust)
  then show ?thesis by (simp add: hash_step_mask)
qed

lemma masked_int_nonneg:
  fixes h :: u64
  assumes "h AND 0xf0000000 = 0"
  shows "0 \<le> sint (ucast h :: u32)"
proof -
  have m: "(0xf0000000 :: u64) = push_bit 28 (semiring_bit_operations_class.mask 4)"
    by (simp add: mask_eq_decr_exp)
  have "bit h 31 = bit (h AND 0xf0000000) 31" unfolding m by (simp add: bit_simps)
  then have "\<not> bit (ucast h :: u32) 31" using assms by (simp add: bit_simps)
  then show ?thesis using bit_last_iff [of "ucast h :: u32"] by simp
qed

text \<open>The keys whose index is inside the table: every port but for the empty name.\<close>

definition valid_key :: "string \<Rightarrow> int \<Rightarrow> bool" where
  "valid_key host prt \<longleftrightarrow> cstr host \<noteq> [] \<or> (0 \<le> prt \<and> prt < 2 ^ 31)"

lemma smod_nonneg: "0 \<le> a \<Longrightarrow> a smod int hash_table_size = a mod 1024"
  by (cases "a = 0") (simp_all add: smod_int_alt_def sgn_if abs_if)

lemma hash_code_nonneg:
  assumes "valid_key host prt"
  shows "0 \<le> hash_code host prt"
proof (cases "cstr host = []")
  case True
  then have p: "0 \<le> prt" "prt < 2 ^ 31" using assms by (auto simp: valid_key_def)
  have "(ucast (word_of_int prt :: u64) :: u32) = word_of_int prt"
    by (rule bit_word_eqI) (simp add: bit_simps)
  moreover have "sint (word_of_int prt :: u32) = prt"
    using p by (simp add: signed_of_int signed_take_bit_int_eq_self_iff)
  ultimately show ?thesis using True p by (simp add: hash_code_def)
next
  case False
  then show ?thesis by (simp add: hash_code_def masked_int_nonneg hash_fold_mask)
qed

lemma hash_index_range:
  assumes "valid_key host prt"
  shows "0 \<le> hash_index host prt" "hash_index host prt < 1024"
  using smod_nonneg [OF hash_code_nonneg [OF assms]] unfolding hash_index_def
  by (metis pos_mod_sign zero_less_numeral, metis pos_mod_bound zero_less_numeral)

lemma hash_index_cstr: "strcmp_eq a b \<Longrightarrow> hash_index a prt = hash_index b prt"
  by (simp add: hash_index_def hash_code_def strcmp_eq_def)

section \<open>The table is a map\<close>

text \<open>
  The entries in the order in which a search that begins at \<open>st\<close> meets them.
\<close>

definition slot :: "nat \<Rightarrow> nat \<Rightarrow> nat" where
  "slot st d = (st + d) mod hash_table_size"

definition occupied :: "hash_entry list \<Rightarrow> nat \<Rightarrow> bool" where
  "occupied tab i \<longleftrightarrow> he_hostname (tab ! i) \<noteq> None"

definition holds_key :: "hash_entry list \<Rightarrow> nat \<Rightarrow> string \<Rightarrow> int \<Rightarrow> bool" where
  "holds_key tab i host prt \<longleftrightarrow>
     (case he_hostname (tab ! i) of None \<Rightarrow> False | Some name \<Rightarrow> he_port (tab ! i) = prt \<and> strcmp_eq name host)"

lemma slot_less [simp]: "slot st d < hash_table_size"
  by (simp add: slot_def)

lemma slot_if:
  "st < hash_table_size \<Longrightarrow> d \<le> hash_table_size \<Longrightarrow>
     slot st d = (if st + d < hash_table_size then st + d else st + d - hash_table_size)"
  by (simp add: slot_def mod_if)

lemma slot_Suc: "slot st (Suc d) = (if hash_table_size \<le> slot st d + 1 then 0 else slot st d + 1)"
proof -
  have "slot st (Suc d) = (if Suc (slot st d) = 1024 then 0 else Suc (slot st d))"
    by (simp add: slot_def mod_Suc)
  then show ?thesis using slot_less [of st d] by (simp del: slot_less split: if_splits)
qed

lemma slot_0: "st < hash_table_size \<Longrightarrow> slot st 0 = st"
  by (simp add: slot_def)

lemma slot_start: "st < hash_table_size \<Longrightarrow> d < hash_table_size \<Longrightarrow> slot st d = st \<longleftrightarrow> d = 0"
  by (auto simp: slot_if)

lemma slot_reaches:
  assumes "st < hash_table_size" "i < hash_table_size"
  obtains d where "d < hash_table_size" "slot st d = i"
proof (cases "st \<le> i")
  case True
  then show ?thesis using assms by (intro that [of "i - st"]) (simp_all add: slot_if)
next
  case False
  then show ?thesis using assms by (intro that [of "i + hash_table_size - st"]) (simp_all add: slot_if)
qed

lemma slot_inject:
  assumes "st < hash_table_size" "d < hash_table_size" "e < hash_table_size" "slot st d = slot st e"
  shows "d = e"
  using assms by (simp add: slot_if split: if_splits)

text \<open>The first entry at or after distance \<open>d\<close> that ends the search.\<close>

definition stops :: "hash_entry list \<Rightarrow> string \<Rightarrow> int \<Rightarrow> nat \<Rightarrow> nat \<Rightarrow> bool" where
  "stops tab host prt st d \<longleftrightarrow> \<not> occupied tab (slot st d) \<or> holds_key tab (slot st d) host prt"

definition found :: "hash_entry list \<Rightarrow> string \<Rightarrow> int \<Rightarrow> nat \<Rightarrow> nat option \<Rightarrow> (u32 \<times> int) option" where
  "found tab host prt st r = (case r of None \<Rightarrow> None | Some d \<Rightarrow>
     if occupied tab (slot st d) then Some (he_sin (tab ! slot st d)) else None)"

lemma lookup_loop_slot:
  assumes "length tab = hash_table_size"
  shows "lookup_loop (Suc n) tab host prt st (slot st d) =
     (if stops tab host prt st d then Inr (found tab host prt st (Some d))
      else if slot st (Suc d) = st then Inr None
      else lookup_loop n tab host prt st (slot st (Suc d)))"
proof -
  have i: "slot st d < length tab" using assms by simp
  show ?thesis
    unfolding lookup_loop.simps slot_Suc [symmetric] nth_c_in [OF i]
    by (simp add: found_def stops_def occupied_def holds_key_def Let_def split: option.splits)
qed

lemma lookup_loop_find:
  assumes "length tab = hash_table_size" "st < hash_table_size"
  shows "d < hash_table_size \<Longrightarrow> lookup_loop (hash_table_size - d) tab host prt st (slot st d)
     = Inr (found tab host prt st (find (stops tab host prt st) [d..<hash_table_size]))"
proof (induction "hash_table_size - Suc d" arbitrary: d)
  case 0
  then have d: "d = 1023" by simp
  have n: "hash_table_size - d = Suc 0" "[d..<hash_table_size] = [d]" "slot st (Suc d) = st"
    using assms(2) by (simp_all add: d slot_def)
  show ?case unfolding n(1,2) lookup_loop_slot [OF assms(1)] n(3) by (simp add: found_def)
next
  case (Suc k)
  then have d: "Suc d < hash_table_size" by simp
  have n: "hash_table_size - d = Suc (hash_table_size - Suc d)"
    "[d..<hash_table_size] = d # [Suc d..<hash_table_size]"
    using d by (simp_all add: upt_conv_Cons)
  have nst: "slot st (Suc d) \<noteq> st" using slot_start [OF assms(2) d] by simp
  have IH: "lookup_loop (hash_table_size - Suc d) tab host prt st (slot st (Suc d))
    = Inr (found tab host prt st (find (stops tab host prt st) [Suc d..<hash_table_size]))"
    by (rule Suc.hyps(1)) (use Suc.hyps(2) d in simp_all)
  show ?case unfolding n lookup_loop_slot [OF assms(1)] using nst IH by simp
qed

lemma hash_lookup_find:
  assumes "length tab = hash_table_size" "valid_key host prt"
  defines "st \<equiv> nat (hash_index host prt)"
  shows "hash_lookup hash_table_size host prt tab
       = Inr (found tab host prt st (find (stops tab host prt st) [0..<hash_table_size]))"
proof -
  have st: "st < hash_table_size" using hash_index_range [OF assms(2)] by (simp add: st_def)
  show ?thesis
    using lookup_loop_find [OF assms(1) st, of 0 host prt] hash_index_range [OF assms(2)] slot_0 [OF st]
    by (simp add: hash_lookup_def st_def)
qed

lemma find_upt:
  "find P [0..<n] = Some d \<longleftrightarrow> d < n \<and> P d \<and> (\<forall>e < d. \<not> P e)"
  by (auto simp: find_Some_iff)

lemma find_upt_None: "find P [0..<n] = None \<longleftrightarrow> (\<forall>d < n. \<not> P d)"
  by (auto simp: find_None_iff)

lemma enter_loop_find:
  assumes "length tab = hash_table_size"
  shows "d \<le> hash_table_size \<Longrightarrow> enter_loop (hash_table_size - d) tab (slot st d)
     = (case find (\<lambda>e. \<not> occupied tab (slot st e)) [d..<hash_table_size] of
          None \<Rightarrow> Inl Out_of_fuel | Some e \<Rightarrow> Inr (slot st e))"
proof (induction "hash_table_size - d" arbitrary: d)
  case 0
  then show ?case by simp
next
  case (Suc k)
  then have d: "d < hash_table_size" by simp
  have n: "hash_table_size - d = Suc (hash_table_size - Suc d)"
    "[d..<hash_table_size] = d # [Suc d..<hash_table_size]"
    using d by (simp_all add: upt_conv_Cons)
  have IH: "enter_loop (hash_table_size - Suc d) tab (slot st (Suc d))
    = (case find (\<lambda>e. \<not> occupied tab (slot st e)) [Suc d..<hash_table_size] of
          None \<Rightarrow> Inl Out_of_fuel | Some e \<Rightarrow> Inr (slot st e))"
    by (rule Suc.hyps(1)) (use Suc.hyps(2) d in simp_all)
  have i: "slot st d < length tab" using assms by simp
  show ?case
    unfolding n enter_loop.simps slot_Suc [symmetric] nth_c_in [OF i]
    using IH by (simp add: occupied_def split: option.splits)
qed

lemma enter_loop_full:
  assumes "length tab = hash_table_size" "\<forall>i < hash_table_size. occupied tab i"
  shows "i < hash_table_size \<Longrightarrow> enter_loop n tab i = Inl Out_of_fuel"
proof (induction n arbitrary: i)
  case (Suc n)
  then obtain name where "he_hostname (tab ! i) = Some name"
    using assms(2) by (auto simp: occupied_def)
  then show ?case using Suc assms(1) by (auto simp: Let_def)
qed simp

text \<open>
  The invariant of open addressing without deletion: between the place where the search
  for a key begins and an entry with that key there is no free entry.
\<close>

definition key_index :: "string \<Rightarrow> int \<Rightarrow> nat" where
  "key_index host prt = nat (hash_index host prt)"

definition no_holes :: "hash_entry list \<Rightarrow> bool" where
  "no_holes tab \<longleftrightarrow> length tab = hash_table_size \<and>
     (\<forall>host prt d e. valid_key host prt \<and> d < hash_table_size \<and> e < d
        \<and> holds_key tab (slot (key_index host prt) d) host prt
        \<longrightarrow> occupied tab (slot (key_index host prt) e))"

text \<open>The map that the table stands for: the first entry with the key.\<close>

definition server_map :: "hash_entry list \<Rightarrow> string \<Rightarrow> int \<Rightarrow> (u32 \<times> int) option" where
  "server_map tab host prt =
     map_option (\<lambda>d. he_sin (tab ! slot (key_index host prt) d))
       (find (\<lambda>d. holds_key tab (slot (key_index host prt) d) host prt) [0..<hash_table_size])"

lemma key_index_less [simp]: "valid_key host prt \<Longrightarrow> key_index host prt < hash_table_size"
  using hash_index_range [of host prt] by (simp add: key_index_def)

lemma holds_occupied: "holds_key tab i host prt \<Longrightarrow> occupied tab i"
  by (auto simp: holds_key_def occupied_def split: option.splits)

lemma no_holesD:
  "no_holes tab \<Longrightarrow> valid_key host prt \<Longrightarrow> d < hash_table_size \<Longrightarrow> e < d
     \<Longrightarrow> holds_key tab (slot (key_index host prt) d) host prt
     \<Longrightarrow> occupied tab (slot (key_index host prt) e)"
  unfolding no_holes_def by blast

lemma hash_lookup_map:
  assumes inv: "no_holes tab" and key: "valid_key host prt"
  shows "hash_lookup hash_table_size host prt tab = Inr (server_map tab host prt)"
proof -
  let ?st = "key_index host prt"
  let ?holds = "\<lambda>d. holds_key tab (slot ?st d) host prt"
  have len: "length tab = hash_table_size" using inv by (simp add: no_holes_def)
  have "found tab host prt ?st (find (stops tab host prt ?st) [0..<hash_table_size])
      = map_option (\<lambda>d. he_sin (tab ! slot ?st d)) (find ?holds [0..<hash_table_size])"
  proof (cases "find (stops tab host prt ?st) [0..<hash_table_size]")
    case None
    then have "find ?holds [0..<hash_table_size] = None"
      by (auto simp: find_upt_None stops_def)
    then show ?thesis using None by (simp add: found_def)
  next
    case (Some d)
    then have d: "d < hash_table_size" "stops tab host prt ?st d"
      "\<forall>e < d. \<not> stops tab host prt ?st e" by (auto simp: find_upt)
    show ?thesis
    proof (cases "occupied tab (slot ?st d)")
      case True
      then have "find ?holds [0..<hash_table_size] = Some d"
        using d by (auto simp: find_upt stops_def)
      then show ?thesis using Some True by (simp add: found_def)
    next
      case False
      have "\<not> ?holds e" if "e < hash_table_size" for e
        using d(3) False no_holesD [OF inv key that, of d] holds_occupied
        by (metis stops_def linorder_neqE_nat)
      then have "find ?holds [0..<hash_table_size] = None" by (simp add: find_upt_None)
      then show ?thesis using Some False by (simp add: found_def)
    qed
  qed
  then show ?thesis
    using hash_lookup_find [OF len key] by (simp add: server_map_def key_index_def)
qed

text \<open>Keys are compared up to the terminator of the name.\<close>

lemma holds_key_update:
  assumes "i < length tab"
  shows "holds_key (tab[i := \<lparr>he_hostname = Some name, he_port = q, he_sin = addr\<rparr>]) j host prt
     \<longleftrightarrow> (if j = i then q = prt \<and> strcmp_eq name host else holds_key tab j host prt)"
    "occupied (tab[i := \<lparr>he_hostname = Some name, he_port = q, he_sin = addr\<rparr>]) j \<longleftrightarrow> j = i \<or> occupied tab j"
proof -
  let ?tab = "tab[i := \<lparr>he_hostname = Some name, he_port = q, he_sin = addr\<rparr>]"
  have n: "?tab ! j = (if j = i then \<lparr>he_hostname = Some name, he_port = q, he_sin = addr\<rparr> else tab ! j)"
    using assms by simp
  show "holds_key ?tab j host prt
     \<longleftrightarrow> (if j = i then q = prt \<and> strcmp_eq name host else holds_key tab j host prt)"
    "occupied ?tab j \<longleftrightarrow> j = i \<or> occupied tab j"
    unfolding holds_key_def occupied_def n by auto
qed

lemma key_index_cstr: "strcmp_eq a b \<Longrightarrow> key_index a prt = key_index b prt"
  by (simp add: key_index_def hash_index_cstr)

lemma enter_map:
  assumes inv: "no_holes tab" and key: "valid_key name q"
    and room: "\<exists>i < hash_table_size. \<not> occupied tab i"
  obtains i where "i < hash_table_size" "\<not> occupied tab i"
    "hash_enter hash_table_size name q addr tab
       = Inr (tab[i := \<lparr>he_hostname = Some name, he_port = q, he_sin = addr\<rparr>])"
    "no_holes (tab[i := \<lparr>he_hostname = Some name, he_port = q, he_sin = addr\<rparr>])"
    "\<forall>host prt. valid_key host prt \<longrightarrow>
       server_map (tab[i := \<lparr>he_hostname = Some name, he_port = q, he_sin = addr\<rparr>]) host prt
       = (if strcmp_eq name host \<and> q = prt \<and> server_map tab host prt = None then Some addr
          else server_map tab host prt)"
proof -
  let ?st = "key_index name q"
  have len: "length tab = hash_table_size" using inv by (simp add: no_holes_def)
  obtain i0 where "i0 < hash_table_size" "\<not> occupied tab i0" using room by blast
  then obtain d0 where "d0 < hash_table_size" "\<not> occupied tab (slot ?st d0)"
    using slot_reaches [OF key_index_less [OF key]] by metis
  then obtain e0 where f: "find (\<lambda>e. \<not> occupied tab (slot ?st e)) [0..<hash_table_size] = Some e0"
    by (metis find_upt_None not_None_eq)
  then have e0: "e0 < hash_table_size" "\<not> occupied tab (slot ?st e0)"
    "\<And>e. e < e0 \<Longrightarrow> occupied tab (slot ?st e)" by (auto simp: find_upt)
  let ?i = "slot ?st e0"
  let ?tab = "tab[?i := \<lparr>he_hostname = Some name, he_port = q, he_sin = addr\<rparr>]"
  have i: "?i < length tab" using len by simp
  have ent: "enter_loop hash_table_size tab ?st = Inr ?i"
    using enter_loop_find [OF len, of 0 ?st] slot_0 [OF key_index_less [OF key]] f
    by simp
  have enter: "hash_enter hash_table_size name q addr tab = Inr ?tab"
    using hash_index_range [OF key] ent i by (simp add: hash_enter_def key_index_def)
  note upd = holds_key_update [OF i]
  have inv': "no_holes ?tab"
    unfolding no_holes_def
  proof (intro conjI allI impI; (elim conjE)?)
    show "length ?tab = hash_table_size" using len by simp
  next
    fix host prt d e
    assume k: "valid_key host prt" "d < hash_table_size" "e < d"
      and h: "holds_key ?tab (slot (key_index host prt) d) host prt"
    show "occupied ?tab (slot (key_index host prt) e)"
    proof (cases "slot (key_index host prt) d = ?i")
      case True
      then have "q = prt \<and> strcmp_eq name host" using h upd(1) by simp
      then have same: "key_index host prt = ?st" using key_index_cstr [of name host] by simp
      then have "d = e0" using slot_inject [OF key_index_less [OF key] k(2) e0(1)] True by simp
      then show ?thesis using e0(3) k(3) same upd(2) by simp
    next
      case False
      then show ?thesis using h no_holesD [OF inv k] upd by simp
    qed
  qed
  have map': "server_map ?tab host prt
      = (if strcmp_eq name host \<and> q = prt \<and> server_map tab host prt = None then Some addr
         else server_map tab host prt)" if k: "valid_key host prt" for host prt
  proof -
    let ?holds = "\<lambda>t d. holds_key t (slot (key_index host prt) d) host prt"
    have free: "\<not> holds_key tab ?i host prt" using e0(2) holds_occupied by blast
    have old: "he_sin (?tab ! slot (key_index host prt) d) = he_sin (tab ! slot (key_index host prt) d)"
      if "?holds tab d" for d
      using that free by (metis nth_list_update_neq)
    show ?thesis
    proof (cases "strcmp_eq name host \<and> q = prt")
      case False
      then have "?holds ?tab = ?holds tab" using upd(1) free by (auto simp: fun_eq_iff)
      then show ?thesis
        using False old by (auto simp: server_map_def find_upt intro!: option.map_cong)
    next
      case True
      then have same: "key_index host prt = ?st" using key_index_cstr [of name host] by simp
      have holds: "?holds ?tab d \<longleftrightarrow> d = e0 \<or> ?holds tab d" if "d < hash_table_size" for d
        using upd(1) True same slot_inject [OF key_index_less [OF key] that e0(1)] by auto
      show ?thesis
      proof (cases "find (?holds tab) [0..<hash_table_size]")
        case None
        then have "find (?holds ?tab) [0..<hash_table_size] = Some e0"
          using holds e0(1) by (auto simp: find_upt find_upt_None)
        then show ?thesis using None True same i by (simp add: server_map_def)
      next
        case (Some d)
        then have d: "d < hash_table_size" "?holds tab d" "\<forall>e < d. \<not> ?holds tab e"
          by (auto simp: find_upt)
        have "d < e0"
          using no_holesD [OF inv k d(1) _ d(2), of e0] e0(2) d(2) holds_occupied same
          by (metis linorder_neqE_nat)
        then have "find (?holds ?tab) [0..<hash_table_size] = Some d"
          using holds d by (auto simp: find_upt)
        then show ?thesis using Some d(2) old by (simp add: server_map_def)
      qed
    qed
  qed
  show thesis by (rule that [of ?i]) (use e0 enter inv' map' in auto)
qed

lemma enter_full:
  "no_holes tab \<Longrightarrow> valid_key name q \<Longrightarrow> \<forall>i < hash_table_size. occupied tab i
     \<Longrightarrow> hash_enter n name q addr tab = Inl Out_of_fuel"
  using enter_loop_full [of tab "key_index name q" n] hash_index_range [of name q]
  by (simp add: hash_enter_def key_index_def no_holes_def)

section \<open>Entering a list of servers\<close>

fun enter_all :: "(string \<times> int \<times> u32) list \<Rightarrow> hash_entry list \<Rightarrow> hash_entry list result" where
  "enter_all [] tab = Inr tab"
| "enter_all ((host, prt, addr) # es) tab =
     ebind (hash_enter hash_table_size host prt (addr, prt) tab) (enter_all es)"

definition empty_table :: "hash_entry list" where
  "empty_table = replicate hash_table_size \<lparr>he_hostname = None, he_port = 0, he_sin = (0, 0)\<rparr>"

definition num_entries :: "hash_entry list \<Rightarrow> nat" where
  "num_entries tab = card {i. i < hash_table_size \<and> occupied tab i}"

lemma num_entries_room:
  "num_entries tab < hash_table_size \<Longrightarrow> \<exists>i < hash_table_size. \<not> occupied tab i"
proof (rule ccontr)
  assume n: "num_entries tab < hash_table_size" and "\<not> (\<exists>i < hash_table_size. \<not> occupied tab i)"
  then have "{i. i < hash_table_size \<and> occupied tab i} = {..<hash_table_size}" by auto
  then show False using n by (simp add: num_entries_def)
qed

lemma num_entries_full:
  assumes "num_entries tab = hash_table_size"
  shows "\<forall>i < hash_table_size. occupied tab i"
proof -
  have "{i. i < hash_table_size \<and> occupied tab i} = {..<hash_table_size}"
    by (rule card_subset_eq) (use assms in \<open>auto simp: num_entries_def\<close>)
  then show ?thesis by auto
qed

lemma num_entries_enter:
  assumes "i < hash_table_size" "\<not> occupied tab i" "length tab = hash_table_size"
  shows "num_entries (tab[i := \<lparr>he_hostname = Some name, he_port = q, he_sin = addr\<rparr>]) = Suc (num_entries tab)"
proof -
  have "{j. j < hash_table_size \<and> occupied (tab[i := \<lparr>he_hostname = Some name, he_port = q, he_sin = addr\<rparr>]) j}
      = insert i {j. j < hash_table_size \<and> occupied tab j}"
    using assms by (auto simp: holds_key_update)
  then show ?thesis using assms(2) by (simp add: num_entries_def)
qed

lemma enter_all_map:
  assumes "no_holes tab" "num_entries tab + length es \<le> hash_table_size"
    and "\<forall>(host, prt, addr) \<in> set es. valid_key host prt"
  shows "\<exists>tab'. enter_all es tab = Inr tab' \<and> no_holes tab' \<and> num_entries tab' = num_entries tab + length es
     \<and> (\<forall>host prt. valid_key host prt \<longrightarrow> server_map tab' host prt =
          (case server_map tab host prt of Some v \<Rightarrow> Some v
           | None \<Rightarrow> map_of (map (\<lambda>(h, p, a). ((cstr h, p), (a, p))) es) (cstr host, prt)))"
  using assms
proof (induction es arbitrary: tab)
  case Nil
  then show ?case by (auto split: option.splits)
next
  case (Cons e es)
  obtain h p a where e: "e = (h, p, a)" by (cases e)
  have len: "length tab = hash_table_size" using Cons.prems(1) by (simp add: no_holes_def)
  have key: "valid_key h p" using Cons.prems(3) e by auto
  have room: "\<exists>i < hash_table_size. \<not> occupied tab i"
    by (rule num_entries_room) (use Cons.prems(2) in simp)
  define upd where "upd = (\<lambda>i. tab[i := \<lparr>he_hostname = Some h, he_port = p, he_sin = (a, p)\<rparr>])"
  obtain i where i: "i < hash_table_size" "\<not> occupied tab i"
    and ent: "hash_enter hash_table_size h p (a, p) tab = Inr (upd i)"
    and inv: "no_holes (upd i)"
    and smap: "\<forall>host prt. valid_key host prt \<longrightarrow> server_map (upd i) host prt
       = (if strcmp_eq h host \<and> p = prt \<and> server_map tab host prt = None then Some (a, p)
          else server_map tab host prt)"
    unfolding upd_def by (rule enter_map [OF Cons.prems(1) key room, of "(a, p)"])
  define t where "t = upd i"
  note ent = ent [folded t_def] and inv = inv [folded t_def] and smap = smap [folded t_def]
  have t: "t = tab[i := \<lparr>he_hostname = Some h, he_port = p, he_sin = (a, p)\<rparr>]" by (simp add: t_def upd_def)
  have num: "num_entries t = Suc (num_entries tab)" unfolding t by (rule num_entries_enter [OF i len])
  obtain tab' where tab': "enter_all es t = Inr tab'" "no_holes tab'"
    "num_entries tab' = num_entries t + length es"
    "\<forall>host prt. valid_key host prt \<longrightarrow> server_map tab' host prt =
          (case server_map t host prt of Some v \<Rightarrow> Some v
           | None \<Rightarrow> map_of (map (\<lambda>(h, p, a). ((cstr h, p), (a, p))) es) (cstr host, prt))"
    using Cons.IH [OF inv] Cons.prems(2,3) num by auto
  have "server_map tab' host prt = (case server_map tab host prt of Some v \<Rightarrow> Some v
      | None \<Rightarrow> map_of (map (\<lambda>(h, p, a). ((cstr h, p), (a, p))) (e # es)) (cstr host, prt))"
    if "valid_key host prt" for host prt
    using tab'(4) smap that by (auto simp: e strcmp_eq_def split: option.splits)
  then show ?case using tab'(1-3) ent num by (auto simp: e)
qed

lemma empty_table_ok: "no_holes empty_table" "num_entries empty_table = 0" "server_map empty_table host prt = None"
  by (simp_all add: no_holes_def empty_table_def num_entries_def occupied_def holds_key_def
      server_map_def find_upt_None)

section \<open>The free ports\<close>

definition addr_ok :: "local_addr \<Rightarrow> bool" where
  "addr_ok addr \<longleftrightarrow> length (port_free_map addr) = port_words
     \<and> 0 \<le> previous addr \<and> previous addr < int port_words"

definition free_ports :: "local_addr \<Rightarrow> int set" where
  "free_ports addr = {p. min_ip_port \<le> p \<and> p \<le> 65535
     \<and> bit (port_free_map addr ! (nat (p - min_ip_port) div 64)) (nat (p - min_ip_port) mod 64)}"

lemma port_index:
  assumes "min_ip_port \<le> p" "p \<le> 65535"
  shows "nat (p - min_ip_port) div 64 < port_words"
proof -
  have "nat (p - min_ip_port) < 64 * port_words" using assms by simp
  then show ?thesis by (simp add: less_mult_imp_div_less mult.commute)
qed

lemma port_same_bit:
  fixes p q :: int
  assumes "min_ip_port \<le> p" "min_ip_port \<le> q"
  shows "nat (p - min_ip_port) div 64 = nat (q - min_ip_port) div 64
     \<and> nat (p - min_ip_port) mod 64 = nat (q - min_ip_port) mod 64 \<longleftrightarrow> p = q"
proof
  assume "nat (p - min_ip_port) div 64 = nat (q - min_ip_port) div 64
     \<and> nat (p - min_ip_port) mod 64 = nat (q - min_ip_port) mod 64"
  then have "nat (p - min_ip_port) = nat (q - min_ip_port)" by (metis div_mult_mod_eq)
  then show "p = q" using assms by simp
qed simp

lemma bit_set_bit64:
  fixes w :: u64
  assumes "b < 64" "c < 64"
  shows "bit (w OR push_bit b 1) c \<longleftrightarrow> bit w c \<or> c = b"
    "bit (w AND NOT (push_bit b 1)) c \<longleftrightarrow> bit w c \<and> c \<noteq> b"
  using assms by (auto simp: bit_simps)

lemma port_put_frees:
  assumes "addr_ok addr" "min_ip_port \<le> p" "p \<le> 65535"
  shows "\<exists>addr'. port_put addr p = Inr addr' \<and> addr_ok addr' \<and> free_ports addr' = insert p (free_ports addr)"
proof -
  let ?i = "nat (p - min_ip_port) div 64" and ?b = "nat (p - min_ip_port) mod 64"
  have i: "?i < length (port_free_map addr)" using assms port_index by (simp add: addr_ok_def)
  let ?addr = "addr\<lparr>port_free_map := (port_free_map addr)[?i := port_free_map addr ! ?i OR push_bit ?b 1]\<rparr>"
  have "port_put addr p = Inr ?addr" using assms(2) i by (simp add: port_put_def Let_def)
  moreover have "addr_ok ?addr" using assms(1) by (simp add: addr_ok_def)
  moreover have "q \<in> free_ports ?addr \<longleftrightarrow> q \<in> insert p (free_ports addr)" for q
  proof (cases "min_ip_port \<le> q \<and> q \<le> 65535")
    case True
    let ?j = "nat (q - min_ip_port) div 64" and ?c = "nat (q - min_ip_port) mod 64"
    have "bit (port_free_map ?addr ! ?j) ?c \<longleftrightarrow> bit (port_free_map addr ! ?j) ?c \<or> (?j = ?i \<and> ?c = ?b)"
      using i bit_set_bit64(1) [of ?b ?c] by (simp add: nth_list_update)
    then show ?thesis
      using True assms(2) port_same_bit [of q p] by (auto simp: free_ports_def)
  next
    case False
    then show ?thesis using assms by (auto simp: free_ports_def)
  qed
  ultimately show ?thesis by blast
qed

lemma ffs_cases:
  "(ffs w = 0 \<and> w = 0) \<or> (\<exists>i < 32. ffs w = int i + 1 \<and> bit w i)"
proof (cases "find (bit w) [0..<32]")
  case None
  then have "\<And>i. i < 32 \<Longrightarrow> \<not> bit w i" by (simp add: find_upt_None)
  then have "w = 0" by (intro bit_word_eqI) simp
  then show ?thesis using None by (simp add: ffs_def)
next
  case (Some i)
  then have "i < 32" "bit w i" by (simp_all add: find_upt)
  then show ?thesis using Some by (simp add: ffs_def)
qed

lemma port_take_uses:
  assumes ok: "addr_ok addr" and i: "i < port_words" and take: "port_take i addr = Inr (p, addr')"
  shows "p \<in> free_ports addr \<and> free_ports addr' = free_ports addr - {p} \<and> addr_ok addr'"
proof -
  define w where "w = port_free_map addr ! i"
  define b where "b = lffs (w AND local_addr.mask addr) - 1"
  have il: "i < length (port_free_map addr)" using ok i by (simp add: addr_ok_def)
  have b0: "0 \<le> b" using take il by (auto simp: port_take_def w_def b_def Let_def split: if_splits)
  then obtain k where k: "k < 32" "b = int k" "bit w k"
    using ffs_cases [of "ucast (w AND local_addr.mask addr)"]
    by (auto simp: b_def lffs_def bit_simps)
  let ?ws = "(port_free_map addr)[i := w AND NOT (push_bit k 1)]"
  have r: "p = int k + int i * 64 + min_ip_port" "port_free_map addr' = ?ws" "previous addr' = int i"
    using take il b0 k(2) unfolding b_def w_def
    by (auto simp: port_take_def Let_def Inr_iff)
  have pi: "nat (p - min_ip_port) div 64 = i" "nat (p - min_ip_port) mod 64 = k"
    using k(1) r(1) by (simp_all add: nat_add_distrib nat_mult_distrib)
  have pr: "min_ip_port \<le> p" "p \<le> 65535" using r(1) k(1) i by simp_all
  have mem: "p \<in> free_ports addr" using pr pi k(3) by (simp add: free_ports_def w_def)
  have "q \<in> free_ports addr' \<longleftrightarrow> q \<in> free_ports addr - {p}" for q
  proof (cases "min_ip_port \<le> q \<and> q \<le> 65535")
    case True
    let ?j = "nat (q - min_ip_port) div 64" and ?c = "nat (q - min_ip_port) mod 64"
    have "bit (?ws ! ?j) ?c \<longleftrightarrow> bit (port_free_map addr ! ?j) ?c \<and> \<not> (?j = i \<and> ?c = k)"
      using il k(1) bit_set_bit64(2) [of k ?c w] by (auto simp: nth_list_update w_def)
    then show ?thesis
      using True pr(1) port_same_bit [of q p] by (auto simp: free_ports_def r(2) pi)
  next
    case False
    then show ?thesis by (auto simp: free_ports_def)
  qed
  moreover have "addr_ok addr'" using ok r i by (simp add: addr_ok_def)
  ultimately show ?thesis using mem by blast
qed

lemma next_word_range:
  "next_word n ws prev i = Inr (Some j) \<Longrightarrow> j < length ws \<and> ws ! j \<noteq> 0"
  by (induction n arbitrary: i) (auto simp: Let_def Inr_iff split: if_splits)


text \<open>The number of steps from a word until the search is back at \<open>prev\<close>.\<close>

definition steps_back :: "nat \<Rightarrow> nat \<Rightarrow> nat \<Rightarrow> nat" where
  "steps_back len prev i = (if i < prev then prev - i else len + prev - i)"

lemma next_word_ok:
  assumes "prev < length ws"
  shows "i < length ws \<Longrightarrow> steps_back (length ws) prev i \<le> n \<Longrightarrow>
     \<exists>r. next_word n ws prev i = Inr r \<and>
       (r = None \<longrightarrow> (\<forall>k < length ws. steps_back (length ws) prev k < steps_back (length ws) prev i \<longrightarrow> ws ! k = 0))"
proof (induction n arbitrary: i)
  case 0
  then show ?case using assms by (auto simp: steps_back_def split: if_splits)
next
  case (Suc n)
  let ?s = "steps_back (length ws) prev"
  define j where "j = (if length ws \<le> i + 1 then 0 else i + 1)"
  have j: "j < length ws" using assms by (auto simp: j_def)
  have step: "next_word (Suc n) ws prev i = (if j = prev then Inr None
      else if ws ! j = 0 then next_word n ws prev j else Inr (Some j))"
    unfolding next_word.simps Let_def j_def [symmetric] using j by simp
  show ?case
  proof (cases "j = prev")
    case True
    then have "?s i = 1" using Suc.prems(1) assms by (auto simp: j_def steps_back_def split: if_splits)
    moreover have "\<forall>k < length ws. ?s k \<noteq> 0" using assms by (auto simp: steps_back_def)
    ultimately show ?thesis unfolding step using True by auto
  next
    case False
    have sj: "?s i = Suc (?s j)"
      using False Suc.prems(1) assms by (auto simp: j_def steps_back_def split: if_splits)
    have near: "k = j \<or> ?s k < ?s j" if "k < length ws" "?s k < ?s i" for k
      using that sj j assms by (auto simp: steps_back_def split: if_splits)
    show ?thesis
      using Suc.IH [OF j] Suc.prems(2) sj near False unfolding step by auto
  qed
qed

lemma port_get_cases:
  assumes ok: "addr_ok addr"
  shows "port_get addr \<noteq> Inl Out_of_fuel
    \<and> (\<forall>p addr'. port_get addr = Inr (p, addr') \<longrightarrow>
         (p = - 1 \<and> addr' = addr
            \<and> (\<forall>k < port_words. k \<noteq> nat (previous addr) \<longrightarrow> port_free_map addr ! k = 0))
       \<or> (p \<in> free_ports addr \<and> free_ports addr' = free_ports addr - {p} \<and> addr_ok addr'))"
proof -
  define i where "i = nat (previous addr)"
  define ws where "ws = port_free_map addr"
  have len: "length ws = port_words" and i: "i < port_words"
    using ok by (auto simp: addr_ok_def ws_def i_def)
  have take_fuel: "port_take j a \<noteq> Inl Out_of_fuel" for j a
    by (auto simp: port_take_def nth_c_def update_c_def Let_def split: if_splits)
  have get: "port_get addr = (if ws ! i AND local_addr.mask addr = 0
      then ebind (next_word port_words ws i i) (\<lambda>r. case r of None \<Rightarrow> Inr (- 1, addr)
             | Some j \<Rightarrow> port_take j (addr\<lparr>mask := - 1\<rparr>))
      else port_take i addr)"
    using i len by (simp add: port_get_def ws_def i_def Let_def)
  show ?thesis
  proof (cases "ws ! i AND local_addr.mask addr = 0")
    case False
    then show ?thesis using get take_fuel port_take_uses [OF ok i] by auto
  next
    case True
    obtain r where r: "next_word port_words ws i i = Inr r"
      "r = None \<longrightarrow> (\<forall>k < length ws. steps_back (length ws) i k < steps_back (length ws) i i \<longrightarrow> ws ! k = 0)"
      using next_word_ok [of i ws i port_words] i len by (auto simp: steps_back_def)
    show ?thesis
    proof (cases r)
      case None
      have "ws ! k = 0" if "k < port_words" "k \<noteq> i" for k
      proof -
        have "steps_back (length ws) i k < steps_back (length ws) i i"
          using that i len by (cases "k < i") (simp_all add: steps_back_def)
        then show ?thesis using r(2) None that(1) len by simp
      qed
      then show ?thesis using get True r(1) None by (auto simp: i_def ws_def)
    next
      case (Some j)
      let ?a = "addr\<lparr>mask := - 1\<rparr>"
      have j: "j < port_words" using next_word_range r(1) Some len by metis
      have ok': "addr_ok ?a" and fp: "free_ports ?a = free_ports addr"
        using ok by (simp_all add: addr_ok_def free_ports_def)
      show ?thesis
        using get True r(1) Some take_fuel port_take_uses [OF ok' j] fp by auto
    qed
  qed
qed

text \<open>
  A fresh address: the state of its pool after the first \<open>k\<close> ports were taken.
\<close>

definition taken :: "u32 \<Rightarrow> nat \<Rightarrow> local_addr" where
  "taken addr k = \<lparr>ip = addr, port_free_map = NOT (semiring_bit_operations_class.mask k) # replicate 1007 (- 1),
     mask = NOT (semiring_bit_operations_class.mask k), previous = 0\<rparr>"

lemma new_address_taken: "new_address addr = taken addr 0"
proof -
  have "replicate 1008 (- 1 :: u64) = - 1 # replicate 1007 (- 1)"
    using replicate_Suc [of 1007 "- 1 :: u64"] by simp
  then show ?thesis by (simp add: new_address_def taken_def)
qed

lemma lffs_taken:
  "k < 32 \<Longrightarrow> lffs (NOT (semiring_bit_operations_class.mask k)) = int k + 1"
  "32 \<le> k \<Longrightarrow> lffs (NOT (semiring_bit_operations_class.mask k)) = 0"
proof -
  let ?w = "ucast (NOT (semiring_bit_operations_class.mask k) :: u64) :: u32"
  have b: "bit ?w i \<longleftrightarrow> k \<le> i \<and> i < 32" for i by (auto simp: bit_simps)
  show "lffs (NOT (semiring_bit_operations_class.mask k)) = int k + 1" if "k < 32"
  proof -
    have "find (bit ?w) [0..<32] = Some k" using that b by (auto simp: find_upt)
    then show ?thesis by (simp add: lffs_def ffs_def)
  qed
  show "lffs (NOT (semiring_bit_operations_class.mask k)) = 0" if "32 \<le> k"
  proof -
    have "find (bit ?w) [0..<32] = None" using that b by (auto simp: find_upt_None)
    then show ?thesis by (simp add: lffs_def ffs_def)
  qed
qed

lemma not_mask_nonzero: "k < 64 \<Longrightarrow> NOT (semiring_bit_operations_class.mask k) \<noteq> (0 :: u64)"
proof
  assume k: "k < 64" and "NOT (semiring_bit_operations_class.mask k) = (0 :: u64)"
  then have "\<not> bit (NOT (semiring_bit_operations_class.mask k) :: u64) k" by simp
  then show False using k by (simp add: bit_simps)
qed

lemma port_get_taken:
  "k < 32 \<Longrightarrow> port_get (taken addr k) = Inr (min_ip_port + int k, taken addr (Suc k))"
  "port_get (taken addr 32) = Inl Undefined"
proof -
  have take: "port_get (taken addr k) = port_take 0 (taken addr k)" if "k < 64" for k
    using not_mask_nonzero [OF that] by (simp add: port_get_def taken_def Let_def)
  have m: "2 * 2 ^ k - 1 = (semiring_bit_operations_class.mask (Suc k) :: u64)"
    "(NOT (semiring_bit_operations_class.mask k) AND NOT (2 ^ k) :: u64) = NOT (semiring_bit_operations_class.mask (Suc k))" for k
    by (simp add: mask_eq_decr_exp) (rule bit_word_eqI, auto simp: bit_simps less_Suc_eq)
  show "port_get (taken addr k) = Inr (min_ip_port + int k, taken addr (Suc k))" if "k < 32"
    using that unfolding take [of k, OF order.strict_trans [OF that], simplified]
    by (simp add: port_take_def taken_def lffs_taken Let_def nat_add_distrib m)
  show "port_get (taken addr 32) = Inl Undefined"
    using take [of 32] by (simp add: port_take_def taken_def lffs_taken Let_def)
qed

section \<open>Ranges of addresses\<close>

text \<open>
  \<open>s_addr += htonl (1)\<close> adds to the last octet, without a carry into the others, which
  are the low 24 bits.
\<close>

definition same_network :: "u32 \<Rightarrow> u32 \<Rightarrow> bool" where
  "same_network a e \<longleftrightarrow> take_bit 24 a = take_bit 24 e"

definition octet_distance :: "u32 \<Rightarrow> u32 \<Rightarrow> nat" where
  "octet_distance a e = unat (drop_bit 24 (e - a))"

text \<open>With memory available, \<open>core_add_address\<close> only appends to the pool.\<close>

definition always_memory :: "('cb, 'h, 'z) core_scheme \<Rightarrow> bool" where
  "always_memory S \<longleftrightarrow> (\<forall>n. malloc_ok S n)"

lemma core_add_address_memory:
  "always_memory S \<Longrightarrow> core_add_address a S =
     Inr (S\<lparr>mallocs := Suc (mallocs S), addresses := addresses S @ [new_address a]\<rparr>)"
  by (simp add: core_add_address_def malloc_def always_memory_def)

lemma core_add_address_cases:
  assumes "always_memory S"
  obtains S1 where "core_add_address a S = Inr S1" "always_memory S1"
    "addresses S1 = addresses S @ [new_address a]"
  using core_add_address_memory [OF assms, of a] assms by (simp add: always_memory_def)

lemma range_loop_steps:
  assumes "\<And>j. j < k \<Longrightarrow> a + of_nat j * 0x01000000 \<noteq> e" "a + of_nat k * 0x01000000 = e"
    and "always_memory S" "k < n"
  shows "\<exists>S'. range_loop n a e S = Inr S' \<and> always_memory S'
     \<and> addresses S' = addresses S @ map (\<lambda>j. new_address (a + of_nat j * 0x01000000)) [0..<k]"
  using assms
proof (induction k arbitrary: a n S)
  case 0
  then show ?case by (cases n) auto
next
  case (Suc k)
  obtain m where n: "n = Suc m" "k < m" using Suc.prems(4) by (cases n) auto
  obtain S1 where S1: "core_add_address a S = Inr S1" "always_memory S1"
    "addresses S1 = addresses S @ [new_address a]"
    by (rule core_add_address_cases [OF Suc.prems(3)])
  have shift: "(a + 0x01000000) + of_nat j * 0x01000000 = a + of_nat (Suc j) * 0x01000000" for j
    by (simp add: algebra_simps)
  have "\<exists>S'. range_loop m (a + 0x01000000) e S1 = Inr S' \<and> always_memory S'
     \<and> addresses S' = addresses S1 @ map (\<lambda>j. new_address ((a + 0x01000000) + of_nat j * 0x01000000)) [0..<k]"
  proof (rule Suc.IH)
    show "(a + 0x01000000) + of_nat j * 0x01000000 \<noteq> e" if "j < k" for j
      unfolding shift by (rule Suc.prems(1)) (use that in simp)
    show "(a + 0x01000000) + of_nat k * 0x01000000 = e" unfolding shift by (rule Suc.prems(2))
  qed (use S1 n in auto)
  moreover have "a \<noteq> e" using Suc.prems(1) [of 0] by simp
  moreover have "map f [0..<Suc k] = f 0 # map (\<lambda>j. f (Suc j)) [0..<k]" for f :: "nat \<Rightarrow> local_addr"
    by (simp add: upt_conv_Cons map_Suc_upt [symmetric] del: upt_Suc)
  ultimately show ?case using S1 by (simp add: n(1) shift del: of_nat_Suc upt_Suc)
qed

lemma range_loop_endless:
  assumes "\<And>j. a + of_nat j * 0x01000000 \<noteq> e" "always_memory S"
  shows "range_loop n a e S = Inl Out_of_fuel"
  using assms
proof (induction n arbitrary: a S)
  case (Suc n)
  obtain S1 where S1: "core_add_address a S = Inr S1" "always_memory S1"
    by (rule core_add_address_cases [OF Suc.prems(2)])
  have "(a + 0x01000000) + of_nat j * 0x01000000 \<noteq> e" for j
    using Suc.prems(1) [of "Suc j"] by (simp add: algebra_simps)
  then have "range_loop n (a + 0x01000000) e S1 = Inl Out_of_fuel"
    by (rule Suc.IH) (rule S1(2))
  then show ?case using Suc.prems(1) [of 0] S1(1) by simp
qed simp

lemma uint_take_bit24: "uint (take_bit 24 (a :: u32)) = uint a mod 0x01000000"
  by (simp only: unsigned_take_bit_eq) (simp add: take_bit_eq_mod)

lemma step_take_bit: "take_bit 24 (a + of_nat j * 0x01000000 :: u32) = take_bit 24 a"
proof -
  have "uint (a + of_nat j * 0x01000000) mod 0x01000000
      = ((uint a + uint (of_nat j :: u32) * 0x01000000) mod 2 ^ 32) mod 0x01000000"
    by (simp add: uint_word_ariths mod_simps)
  also have "\<dots> = (uint a + uint (of_nat j :: u32) * 0x01000000) mod 0x01000000"
    by (rule mod_mod_cancel) simp
  also have "\<dots> = uint a mod 0x01000000" by simp
  finally show ?thesis by (intro word_uint_eqI) (simp only: uint_take_bit24)
qed

lemma diff_take_bit:
  assumes "take_bit 24 a = take_bit 24 (e :: u32)"
  shows "take_bit 24 (e - a) = 0"
proof -
  have "uint e mod 0x01000000 = uint a mod 0x01000000"
    using assms by (metis uint_take_bit24)
  then have "(uint e - uint a) mod 0x01000000 = 0" by (simp add: mod_eq_dvd_iff)
  moreover have "uint (e - a) mod 0x01000000 = ((uint e - uint a) mod 2 ^ 32) mod 0x01000000"
    by (simp add: uint_word_ariths)
  moreover have "((uint e - uint a) mod 2 ^ 32) mod 0x01000000 = (uint e - uint a) mod 0x01000000"
    by (rule mod_mod_cancel) simp
  ultimately show ?thesis by (intro word_uint_eqI) (simp only: uint_take_bit24 unsigned_0)
qed

lemma octet_distance_less: "octet_distance a e < 256"
proof -
  have "unat (e - a) < 2 ^ 32" using unsigned_less [of "e - a"] by simp
  moreover have "octet_distance a e = unat (e - a) div 0x01000000"
    by (simp add: octet_distance_def drop_bit_eq_div unat_div)
  ultimately show ?thesis by simp
qed

lemma same_network_distance:
  assumes "same_network a e"
  shows "a + of_nat (octet_distance a e) * 0x01000000 = e"
    "j < octet_distance a e \<Longrightarrow> a + of_nat j * 0x01000000 \<noteq> e"
proof -
  have z: "take_bit 24 (e - a) = 0"
    using assms diff_take_bit by (simp add: same_network_def)
  have "e - a = push_bit 24 (drop_bit 24 (e - a)) + take_bit 24 (e - a)"
    by (rule bits_ident [symmetric])
  then have "e - a = push_bit 24 (of_nat (octet_distance a e))"
    unfolding z octet_distance_def by (simp only: add_0_right of_nat_unat ucast_id)
  then have d: "e - a = of_nat (octet_distance a e) * 0x01000000" by (simp add: push_bit_eq_mult)
  then show "a + of_nat (octet_distance a e) * 0x01000000 = e" by (metis add.commute diff_add_cancel)
  assume j: "j < octet_distance a e"
  have u: "unat (of_nat k * 0x01000000 :: u32) = k * 0x01000000" if "k < 256" for k
  proof -
    have "(of_nat k * 0x01000000 :: u32) = of_nat (k * 0x01000000)" by simp
    moreover have "unat (of_nat (k * 0x01000000) :: u32) = k * 0x01000000"
      by (subst unsigned_of_nat) (use that in \<open>simp add: take_bit_nat_eq_self\<close>)
    ultimately show ?thesis by (simp only:)
  qed
  show "a + of_nat j * 0x01000000 \<noteq> e"
  proof
    assume "a + of_nat j * 0x01000000 = e"
    then have "of_nat j * 0x01000000 = (of_nat (octet_distance a e) * 0x01000000 :: u32)"
      using d by (metis add_diff_cancel_left')
    then have "j * 0x01000000 = octet_distance a e * 0x01000000"
      using u [of j] u [of "octet_distance a e"] j octet_distance_less [of a e] by (metis order.strict_trans)
    then show False using j by simp
  qed
qed

section \<open>The list of servers and the local addresses\<close>

text \<open>A file of names, each with its terminator.\<close>

definition server_file :: "string list \<Rightarrow> string" where
  "server_file names = concat (map (\<lambda>s. s @ [NUL]) names)"

lemma cstr_terminated: "NUL \<notin> set s \<Longrightarrow> cstr (s @ NUL # r) = s"
  unfolding cstr_def by (subst takeWhile_append2) auto

lemma server_names_file:
  "\<forall>s \<in> set names. NUL \<notin> set s \<Longrightarrow> server_names (server_file names) = names"
proof (induction names)
  case Nil
  then show ?case by (simp add: server_file_def server_names.simps)
next
  case (Cons s names)
  have f: "server_file (s # names) = s @ NUL # server_file names" by (simp add: server_file_def)
  have "cstr (server_file (s # names)) = s" unfolding f by (rule cstr_terminated) (use Cons.prems in simp)
  then show ?case
    using Cons by (subst server_names.simps) (simp add: f)
qed

definition file_offset :: "string list \<Rightarrow> nat \<Rightarrow> nat" where
  "file_offset names k = length (server_file (take k names))"

lemma drop_file_offset:
  assumes "k < length names"
  shows "drop (file_offset names k) (server_file names) = names ! k @ NUL # server_file (drop (Suc k) names)"
proof -
  have "names = take k names @ names ! k # drop (Suc k) names" using assms by (rule id_take_nth_drop)
  then have "server_file names = server_file (take k names) @ server_file (names ! k # drop (Suc k) names)"
    by (metis server_file_def concat_append map_append)
  then show ?thesis by (simp add: file_offset_def server_file_def)
qed

lemma file_offset_Suc: "k < length names \<Longrightarrow> file_offset names (Suc k) = file_offset names k + length (names ! k) + 1"
  by (simp add: file_offset_def server_file_def take_Suc_conv_app_nth)

lemma file_offset_end: "length names \<le> k \<Longrightarrow> file_offset names k = length (server_file names)"
  by (simp add: file_offset_def)

lemma file_offset_before: "k < length names \<Longrightarrow> file_offset names k < length (server_file names)"
proof -
  assume "k < length names"
  then have "0 < length (drop (file_offset names k) (server_file names))" by (subst drop_file_offset) auto
  then show ?thesis by simp
qed

text \<open>The state of the cursor when the name with number \<open>k\<close> is next.\<close>

definition at_server :: "string list \<Rightarrow> nat \<Rightarrow> ('cb, 'h, 'z) core_scheme \<Rightarrow> bool" where
  "at_server names k S \<longleftrightarrow> k < length names \<and> servers (param S) \<noteq> None
     \<and> srv_file S = server_file names \<and> srvcurrent S = file_offset names k"

lemma conn_init_at_server:
  assumes "at_server names k S" "\<forall>s \<in> set names. NUL \<notin> set s"
  shows "hostname (conns (conn_init a S) a) = names ! k
     \<and> at_server names (if Suc k = length names then 0 else Suc k) (conn_init a S)"
proof -
  have k: "k < length names" and S: "servers (param S) \<noteq> None" "srv_file S = server_file names"
    "srvcurrent S = file_offset names k"
    using assms(1) by (auto simp: at_server_def)
  have host: "cstr (drop (srvcurrent S) (srv_file S)) = names ! k"
    unfolding S drop_file_offset [OF k] by (rule cstr_terminated) (use assms(2) k in simp)
  have nxt: "srvcurrent (conn_init a S)
      = (if length (server_file names) \<le> file_offset names (Suc k) then 0 else file_offset names (Suc k))"
    using S(1) host S(2,3) file_offset_Suc [OF k] by (auto simp: conn_init_def upd_conn_def Let_def)
  have keep: "servers (param (conn_init a S)) \<noteq> None" "srv_file (conn_init a S) = server_file names"
    using S by (auto simp: conn_init_def upd_conn_def Let_def)
  have "hostname (conns (conn_init a S) a) = names ! k"
    using S(1) host by (auto simp: conn_init_def upd_conn_def Let_def)
  moreover have "at_server names (if Suc k = length names then 0 else Suc k) (conn_init a S)"
  proof (cases "Suc k = length names")
    case True
    then have "names \<noteq> []" by auto
    then show ?thesis
      using True nxt keep file_offset_end [of names "Suc k"] by (simp add: at_server_def file_offset_def server_file_def)
  next
    case False
    then show ?thesis
      using k nxt keep file_offset_before [of "Suc k" names] by (simp add: at_server_def)
  qed
  ultimately show ?thesis by blast
qed

fun next_addrs :: "nat \<Rightarrow> ('cb, 'h, 'z) core_scheme \<Rightarrow> (nat list \<times> ('cb, 'h, 'z) core_scheme) result" where
  "next_addrs 0 S = Inr ([], S)"
| "next_addrs (Suc n) S =
     ebind (core_get_next_myaddr S) (\<lambda>(a, S1). ebind (next_addrs n S1) (\<lambda>(as, S2). Inr (a # as, S2)))"

lemma next_addrs_cycle:
  "addr_last S < length (addresses S) \<Longrightarrow>
     \<exists>S'. next_addrs n S = Inr (map (\<lambda>j. (addr_last S + j) mod length (addresses S)) [0..<n], S')"
proof (induction n arbitrary: S)
  case (Suc n)
  define a where "a = addr_last S"
  define S1 where "S1 = S\<lparr>addr_last := (if a + 1 = length (addresses S) then 0 else a + 1)\<rparr>"
  have g: "core_get_next_myaddr S = Inr (a, S1)"
    using Suc.prems by (simp add: core_get_next_myaddr_def a_def S1_def Let_def)
  have S1: "addr_last S1 < length (addresses S1)" "length (addresses S1) = length (addresses S)"
    using Suc.prems by (auto simp: S1_def a_def)
  obtain S' where S': "next_addrs n S1 = Inr (map (\<lambda>j. (addr_last S1 + j) mod length (addresses S1)) [0..<n], S')"
    using Suc.IH [OF S1(1)] by blast
  have "(addr_last S1 + j) mod length (addresses S1) = (a + Suc j) mod length (addresses S)" for j
  proof (cases "a + 1 = length (addresses S)")
    case True
    have "(a + Suc j) mod length (addresses S) = (j + length (addresses S)) mod length (addresses S)"
      using True by (metis add.commute add_Suc_right Suc_eq_plus1 group_cancel.add1)
    then show ?thesis using True by (simp add: S1_def)
  qed (simp add: S1_def)
  moreover have "map f [0..<Suc n] = f 0 # map (\<lambda>j. f (Suc j)) [0..<n]" for f :: "nat \<Rightarrow> nat"
    by (simp add: upt_conv_Cons map_Suc_upt [symmetric] del: upt_Suc)
  ultimately show ?case using g S' Suc.prems by (simp add: a_def del: upt_Suc)
qed simp

section \<open>Properties\<close>

text \<open>
  C13: the hash table is a map from servers to addresses: after entering any list of at
  most 1024 servers, looking up a name and port finds the address entered first for it,
  and nothing when it was not entered; no search leaves the table or fails to end.
\<close>

theorem server_table_lookup:
  assumes "length es \<le> hash_table_size" "\<forall>(host, prt, addr) \<in> set es. valid_key host prt"
  shows "\<exists>tab. enter_all es empty_table = Inr tab
     \<and> (\<forall>host prt. valid_key host prt \<longrightarrow> hash_lookup hash_table_size host prt tab
          = Inr (map_of (map (\<lambda>(h, p, a). ((cstr h, p), (a, p))) es) (cstr host, prt)))"
  using enter_all_map [OF empty_table_ok(1) _ assms(2)] assms(1) empty_table_ok(2,3) hash_lookup_map
  by (metis (no_types, lifting) add_0 option.simps(4))

theorem server_table_lookup_witness:
  "\<exists>tab. enter_all [(''a'', 80, 5), (''b'', 80, 6), (''a'', 80, 7)] empty_table = Inr tab
     \<and> hash_lookup hash_table_size ''a'' 80 tab = Inr (Some (5, 80))
     \<and> hash_lookup hash_table_size ''b'' 81 tab = Inr None"
proof -
  have v: "valid_key ''a'' 80" "valid_key ''b'' 80" "valid_key ''b'' 81"
    by (simp_all add: valid_key_def cstr_def)
  show ?thesis
    using server_table_lookup [of "[(''a'', 80, 5), (''b'', 80, 6), (''a'', 80, 7)]"] v
    by (auto simp: cstr_def)
qed

text \<open>
  C14: entering one server more than the table has entries never ends: whatever number of
  entries are inspected, the search for a free one goes on.
\<close>

theorem full_table_never_returns:
  assumes "length es = hash_table_size" "\<forall>(host, prt, addr) \<in> set es. valid_key host prt"
    and "enter_all es empty_table = Inr tab" "valid_key name q"
  shows "hash_enter n name q addr tab = Inl Out_of_fuel"
proof -
  have "no_holes tab" "num_entries tab = hash_table_size"
    using enter_all_map [OF empty_table_ok(1) _ assms(2)] assms(1,3) empty_table_ok(2) by auto
  then show ?thesis using enter_full [OF _ assms(4)] num_entries_full by blast
qed

theorem full_table_never_returns_witness:
  "\<exists>tab. enter_all (map (\<lambda>k. (''h'', int k, 1)) [0..<hash_table_size]) empty_table = Inr tab
     \<and> hash_enter 5000 ''x'' 80 (2, 80) tab = Inl Out_of_fuel"
proof -
  let ?es = "map (\<lambda>k. (''h'', int k, 1)) [0..<hash_table_size] :: (string \<times> int \<times> u32) list"
  have v: "\<forall>(host, prt, addr) \<in> set ?es. valid_key host prt" "valid_key ''x'' 80" "length ?es = hash_table_size"
    by (auto simp: valid_key_def cstr_def)
  obtain tab where t: "enter_all ?es empty_table = Inr tab"
    using enter_all_map [OF empty_table_ok(1) _ v(1)] v(3) empty_table_ok(2) by auto
  then show ?thesis using full_table_never_returns [OF v(3,1) t v(2)] by blast
qed



text \<open>
  \<open>port_put\<close> gives one port back and changes nothing else.
\<close>

theorem port_put_returns_port:
  assumes "addr_ok addr" "min_ip_port \<le> p" "p \<le> 65535"
  shows "\<exists>addr'. port_put addr p = Inr addr' \<and> addr_ok addr' \<and> free_ports addr' = insert p (free_ports addr)"
  by (rule port_put_frees [OF assms])

theorem port_put_returns_port_witness:
  "\<exists>addr'. port_put (taken 0 3) 1024 = Inr addr' \<and> 1024 \<in> free_ports addr'"
  using port_put_returns_port [of "taken 0 3" 1024] by (auto simp: addr_ok_def taken_def)

text \<open>
  Because \<open>lffs\<close> looks at half a word only, a fresh address gives out the 32 ports
  from 1024 on, in order; the next request shifts by a negative number.
\<close>

theorem port_get_ends_after_32:
  "(\<forall>k < 32. port_get (taken addr k) = Inr (1024 + int k, taken addr (Suc k)))
   \<and> new_address addr = taken addr 0 \<and> port_get (taken addr 32) = Inl Undefined"
  by (simp add: port_get_taken new_address_taken)

theorem port_get_ends_after_32_witness:
  "port_get (taken 7 5) = Inr (1029, taken 7 6)"
  using port_get_ends_after_32 [of 7] by auto



text \<open>
  The local addresses are used round robin.
\<close>

theorem local_addresses_cycle:
  assumes "addr_last S < length (addresses S)"
  shows "\<exists>S'. next_addrs n S = Inr (map (\<lambda>j. (addr_last S + j) mod length (addresses S)) [0..<n], S')"
  by (rule next_addrs_cycle [OF assms])

theorem local_addresses_cycle_witness:
  "\<exists>S'. next_addrs 5 ((initial_state :: (unit, unit) core)\<lparr>addresses := [new_address 3, new_address 4]\<rparr>)
     = Inr ([0, 1, 0, 1, 0], S')"
proof -
  let ?S = "(initial_state :: (unit, unit) core)\<lparr>addresses := [new_address 3, new_address 4]\<rparr>"
  have "addr_last ?S < length (addresses ?S)" by (simp add: initial_state_def)
  from local_addresses_cycle [OF this, of 5] show ?thesis
    by (simp add: initial_state_def upt_rec numeral_2_eq_2 [symmetric] numeral_3_eq_3 [symmetric])
qed

text \<open>
  The names in a mapped server file are those between its terminators, and new
  connections get them in turn, from the first one again after the last one.
\<close>

theorem servers_in_turn:
  assumes "\<forall>s \<in> set names. NUL \<notin> set s"
  shows "server_names (server_file names) = names
     \<and> (at_server names k S \<longrightarrow> hostname (conns (conn_init a S) a) = names ! k
          \<and> at_server names (if Suc k = length names then 0 else Suc k) (conn_init a S))"
  using server_names_file [OF assms] conn_init_at_server [OF _ assms] by blast

definition two_servers :: "(unit, unit) core" where
  "two_servers = initial_state\<lparr>srv_file := server_file [''x'', ''yz''],
     param := default_params\<lparr>servers := Some ''file''\<rparr>\<rparr>"

theorem servers_in_turn_witness:
  "server_names (server_file [''x'', ''yz'']) = [''x'', ''yz'']
   \<and> hostname (conns (conn_init 3 two_servers) 3) = ''x''"
proof -
  have "at_server [''x'', ''yz''] 0 two_servers"
    by (simp add: at_server_def two_servers_def file_offset_def server_file_def initial_state_def)
  then show ?thesis using servers_in_turn [of "[''x'', ''yz'']" 0 two_servers 3] by auto
qed

end
