(* ===== verification/Core_Engine.thy ===== *)
theory Core_Engine
  imports Core_Addr Http
begin

text \<open>
  The engine of \<^verbatim>\<open>src/src/core.c\<close>, in the configuration with \<open>epoll\<close> and without SSL:
  connecting, queueing and sending requests, receiving replies, timeouts, closing, and
  the main loop.  Every function takes \<open>sig\<close>, which stands for \<open>event_signal\<close>, and a
  bound \<open>n\<close> on the iterations of each loop that the code does not bound itself
  (\<open>Out_of_fuel\<close> when it was too small).
\<close>

text \<open>The functions that the program passes to \<open>timer_schedule\<close>.\<close>

datatype callback_id = Conn_timeout | Core_runtime_timer | Rate_tick | One_second_timer
  | Perf_sample | Wsess_think_time_expired | Wsesslog_think_time_expired | Wsesspage_think_time_expired

abbreviation (input) EAGAIN :: int where "EAGAIN \<equiv> 11"
abbreviation (input) EINTR :: int where "EINTR \<equiv> 4"
abbreviation (input) EADDRNOTAVAIL :: int where "EADDRNOTAVAIL \<equiv> 99"
abbreviation (input) ECONNRESET :: int where "ECONNRESET \<equiv> 104"
abbreviation (input) EINPROGRESS :: int where "EINPROGRESS \<equiv> 115"

section \<open>System calls\<close>

text \<open>The macro \<open>SYSCALL\<close> clears \<open>errno\<close> first.\<close>

definition sys_call :: "('cb, 'h, 'z) core_scheme \<Rightarrow> int \<times> ('cb, 'h, 'z) core_scheme" where
  "sys_call S = syscall (S\<lparr>errno := 0\<rparr>)"

text \<open>\<open>getsockopt (SO_ERROR)\<close>: a pending error of the socket replaces \<open>errno\<close>.\<close>

definition take_async_error :: "('cb, 'h, 'z) core_scheme \<Rightarrow> ('cb, 'h, 'z) core_scheme" where
  "take_async_error S = (case sysc S (sysc_done S) of (r, e) \<Rightarrow>
     S\<lparr>sysc_done := Suc (sysc_done S), errno := (if r = 0 \<and> e \<noteq> 0 then e else errno S)\<rparr>)"

text \<open>\<open>writev\<close> takes at most the bytes it is given, in order.\<close>

definition pending_bytes :: "nat \<Rightarrow> iovec list \<Rightarrow> string" where
  "pending_bytes i iovs = concat (map iov_bytes (drop i iovs))"

definition sys_writev :: "int \<Rightarrow> string \<Rightarrow> ('cb, 'h, 'z) core_scheme \<Rightarrow> nat option \<times> ('cb, 'h, 'z) core_scheme" where
  "sys_writev fd bytes S =
     (let S1 = S\<lparr>writes_done := Suc (writes_done S), errno := 0\<rparr> in
      case writes S (writes_done S) of
        Write_error e \<Rightarrow> (None, S1\<lparr>errno := e\<rparr>)
      | Wrote k \<Rightarrow> (let k = min k (length bytes) in
                    (Some k, S1\<lparr>wire := (wire S)(fd := wire S fd @ take k bytes)\<rparr>)))"

definition recv_size :: nat where
  "recv_size = 8192"

definition sys_read :: "('cb, 'h, 'z) core_scheme \<Rightarrow> string option \<times> ('cb, 'h, 'z) core_scheme" where
  "sys_read S =
     (let S1 = S\<lparr>reads_done := Suc (reads_done S), errno := 0\<rparr> in
      case reads S (reads_done S) of
        Read_error e \<Rightarrow> (None, S1\<lparr>errno := e\<rparr>)
      | Read_bytes bs \<Rightarrow> (Some (take recv_size bs), S1))"

section \<open>Closing\<close>

text \<open>The two loops of \<open>core_close\<close>: the successor is read before the reference is dropped.\<close>

fun release_calls :: "nat \<Rightarrow> (call \<Rightarrow> nat option) \<Rightarrow> ('cb, 'h, 'z) signal \<Rightarrow> nat option
    \<Rightarrow> ('cb, 'h, 'z) core_scheme \<Rightarrow> ('cb, 'h, 'z) core_scheme result" where
  "release_calls n follow sig None S = Inr S"
| "release_calls 0 follow sig (Some c) S = Inl Out_of_fuel"
| "release_calls (Suc n) follow sig (Some c) S =
     (let p = follow (calls S c) in ebind (object_dec_ref sig c S) (release_calls n follow sig p))"

definition drop_calls :: "nat \<Rightarrow> ('cb, 'h, 'z) signal \<Rightarrow> nat
    \<Rightarrow> ('cb, 'h, 'z) core_scheme \<Rightarrow> ('cb, 'h, 'z) core_scheme result" where
  "drop_calls n sig a S =
     ebind (release_calls n sendq_next sig (sendq (conns S a)) S) (\<lambda>S.
     let S = upd_conn a (\<lambda>s. s\<lparr>sendq := None\<rparr>) S in
     ebind (release_calls n recvq_next sig (recvq (conns S a)) S) (\<lambda>S.
       Inr (upd_conn a (\<lambda>s. s\<lparr>recvq := None\<rparr>) S)))"

definition drop_watchdog :: "nat \<Rightarrow> ('cb, 'h, 'z) core_scheme \<Rightarrow> ('cb, 'h, 'z) core_scheme result" where
  "drop_watchdog a S =
     (case watchdog (conns S a) of
        None \<Rightarrow> Inr S
      | Some t \<Rightarrow> ebind (timer_cancel t S) (\<lambda>S. Inr (upd_conn a (\<lambda>s. s\<lparr>watchdog := None\<rparr>) S)))"

text \<open>
  The descriptor leaves the \<open>epoll\<close> set; when that fails although it had been added,
  the assertion on \<open>errno\<close> fails too.
\<close>

definition close_socket :: "int \<Rightarrow> nat \<Rightarrow> ('cb, 'h, 'z) core_scheme \<Rightarrow> ('cb, 'h, 'z) core_scheme result" where
  "close_socket fd a S =
     (let (r, S) = syscall S in
      ebind (c_assert (r < 0 \<and> epoll_added (conns S a) \<longrightarrow> errno S = 0) S) (\<lambda>S.
        Inr (upd_conn a (\<lambda>s. s\<lparr>reading := False, writing := False\<rparr>)
               (S\<lparr>epoll_set := (epoll_set S)(fd := None)\<rparr>))))"

definition return_port :: "nat \<Rightarrow> ('cb, 'h, 'z) core_scheme \<Rightarrow> ('cb, 'h, 'z) core_scheme result" where
  "return_port a S =
     (if 0 < myport (conns S a) then
        ebind (deref (myaddr (conns S a))) (\<lambda>k.
        ebind (nth_c (addresses S) k) (\<lambda>addr.
        ebind (port_put addr (myport (conns S a))) (\<lambda>addr.
          Inr (S\<lparr>addresses := (addresses S)[k := addr]\<rparr>))))
      else Inr S)"

definition core_close :: "nat \<Rightarrow> ('cb, 'h, 'z) signal \<Rightarrow> nat
    \<Rightarrow> ('cb, 'h, 'z) core_scheme \<Rightarrow> ('cb, 'h, 'z) core_scheme result" where
  "core_close n sig a S =
     (if S_CLOSING \<le> state (conns S a) then Inr S
      else
        ebind (drop_watchdog a (upd_conn a (\<lambda>s. s\<lparr>state := S_CLOSING\<rparr>) S)) (\<lambda>S.
        ebind (drop_calls n sig a S) (\<lambda>S.
        let fd = sd (conns S a) in
        ebind (sig EV_CONN_CLOSE a (Lng 0) (upd_conn a (\<lambda>s. s\<lparr>sd := - 1\<rparr>) S)) (\<lambda>S.
        ebind (c_assert (state (conns S a) = S_CLOSING) S) (\<lambda>S.
        ebind (if 0 \<le> fd then close_socket fd a S else Inr S) (\<lambda>S.
        ebind (return_port a S) (object_dec_ref sig a)))))))"

definition conn_failure :: "nat \<Rightarrow> ('cb, 'h, 'z) signal \<Rightarrow> nat \<Rightarrow> int
    \<Rightarrow> ('cb, 'h, 'z) core_scheme \<Rightarrow> ('cb, 'h, 'z) core_scheme result" where
  "conn_failure n sig a err S = ebind (sig EV_CONN_FAILED a (Lng err) S) (core_close n sig a)"

definition conn_timeout :: "nat \<Rightarrow> ('cb, 'h, 'z) signal \<Rightarrow> nat
    \<Rightarrow> ('cb, 'h, 'z) core_scheme \<Rightarrow> ('cb, 'h, 'z) core_scheme result" where
  "conn_timeout n sig a S =
     ebind (sig EV_CONN_TIMEOUT a (Lng 0) (upd_conn a (\<lambda>s. s\<lparr>watchdog := None\<rparr>) S)) (core_close n sig a)"

section \<open>Waiting for input and output\<close>

datatype io_dir = READ | WRITE

text \<open>
  With \<open>epoll\<close> a descriptor has one interest: clearing one direction asks for the
  other, and setting one replaces the other.
\<close>

definition clear_active :: "nat \<Rightarrow> io_dir \<Rightarrow> ('cb, 'h, 'z) core_scheme \<Rightarrow> ('cb, 'h, 'z) core_scheme result" where
  "clear_active a dir S =
     (let fd = sd (conns S a); (r, S) = syscall S in
      if r < 0 then Inl (Exit 1)
      else
        let S = S\<lparr>epoll_set := (epoll_set S)(fd \<mapsto> (a, case dir of WRITE \<Rightarrow> Interest_in | READ \<Rightarrow> Interest_out))\<rparr> in
        Inr (case dir of
               WRITE \<Rightarrow> upd_conn a (\<lambda>s. s\<lparr>writing := False\<rparr>) S
             | READ \<Rightarrow> upd_conn a (\<lambda>s. s\<lparr>reading := False\<rparr>) S))"

definition earliest_timeout :: "nat \<Rightarrow> ('cb, 'h, 'z) core_scheme \<Rightarrow> real" where
  "earliest_timeout a S =
     (let t = (case sendq (conns S a) of None \<Rightarrow> 0 | Some c \<Rightarrow> call_timeout (calls S c)) in
      case recvq (conns S a) of
        None \<Rightarrow> t
      | Some c \<Rightarrow> if t = 0 \<or> call_timeout (calls S c) < t then call_timeout (calls S c) else t)"

definition set_active :: "nat \<Rightarrow> io_dir
    \<Rightarrow> (callback_id, 'h, 'z) core_scheme \<Rightarrow> (callback_id, 'h, 'z) core_scheme result" where
  "set_active a dir S =
     (let fd = sd (conns S a);
          (r, S) = syscall S;
          S = upd_conn a (\<lambda>s. s\<lparr>epoll_added := True\<rparr>) S in
      if r < 0 then Inl (Exit 1)
      else
        let S = S\<lparr>epoll_set := (epoll_set S)(fd \<mapsto> (a, case dir of WRITE \<Rightarrow> Interest_out | READ \<Rightarrow> Interest_in)),
                  max_sd := max (max_sd S) fd\<rparr>;
            S = (case dir of
                   WRITE \<Rightarrow> upd_conn a (\<lambda>s. s\<lparr>writing := True\<rparr>) S
                 | READ \<Rightarrow> upd_conn a (\<lambda>s. s\<lparr>reading := True\<rparr>) S) in
        if watchdog (conns S a) \<noteq> None then Inr S
        else
          let t = earliest_timeout a S in
          if 0 < t then
            (let (n, S) = timer_now S; (w, S) = timer_schedule Conn_timeout a (t - n) S
             in Inr (upd_conn a (\<lambda>s. s\<lparr>watchdog := w\<rparr>) S))
          else Inr S)"

text \<open>\<open>param.timeout ? timer_now () + param.timeout : 0.0\<close>, and the one with the think timeout.\<close>

definition set_send_timeout :: "nat \<Rightarrow> ('cb, 'h, 'z) core_scheme \<Rightarrow> ('cb, 'h, 'z) core_scheme" where
  "set_send_timeout c S =
     (if timeout (param S) \<noteq> 0 then
        (let (n, S) = timer_now S in upd_call c (\<lambda>q. q\<lparr>call_timeout := n + timeout (param S)\<rparr>) S)
      else upd_call c (\<lambda>q. q\<lparr>call_timeout := 0\<rparr>) S)"

definition set_recv_timeout :: "nat \<Rightarrow> ('cb, 'h, 'z) core_scheme \<Rightarrow> ('cb, 'h, 'z) core_scheme" where
  "set_recv_timeout c S =
     (let t = timeout (param S) + think_timeout (param S) in
      if 0 < t then (let (n, S) = timer_now S in upd_call c (\<lambda>q. q\<lparr>call_timeout := t + n\<rparr>) S)
      else upd_call c (\<lambda>q. q\<lparr>call_timeout := t\<rparr>) S)"

section \<open>Sending\<close>

text \<open>
  The loop over the I/O vector after a write of \<open>k\<close> bytes.  A finished fragment gets its
  saved contents back; after the last one \<open>iov[IE_LEN]\<close> is read, which is \<open>beyond\<close>.
\<close>

function advance_iov :: "iovec \<Rightarrow> nat \<Rightarrow> nat \<Rightarrow> iovec list \<Rightarrow> iovec \<Rightarrow> nat \<times> iovec list \<times> iovec" where
  "advance_iov beyond i k iovs saved =
     (if length iovs \<le> i then (i, iovs, saved)
      else
        let v = iovs ! i in
        if k < iov_len v then
          (i, iovs[i := \<lparr>iov_base = map_option (drop k) (iov_base v), iov_len = iov_len v - k\<rparr>], saved)
        else
          let iovs' = iovs[i := saved] in
          advance_iov beyond (i + 1) (k - iov_len v) iovs'
            (if i + 1 < length iovs' then iovs' ! (i + 1) else beyond))"
  by pat_completeness auto
termination by (relation "measure (\<lambda>(beyond, i, k, iovs, saved). length iovs - i)") auto

declare advance_iov.simps [simp del]

text \<open>The reference to the call passes from the send queue to the end of the receive queue.\<close>

definition move_to_recvq :: "nat \<Rightarrow> nat \<Rightarrow> ('cb, 'h, 'z) core_scheme \<Rightarrow> ('cb, 'h, 'z) core_scheme result" where
  "move_to_recvq a c S =
     (let S = upd_call c (\<lambda>q. q\<lparr>recvq_next := None\<rparr>) S in
      case recvq (conns S a) of
        None \<Rightarrow> Inr (upd_conn a (\<lambda>s. s\<lparr>recvq := Some c, recvq_tail := Some c\<rparr>) S)
      | Some _ \<Rightarrow>
          ebind (deref (recvq_tail (conns S a))) (\<lambda>t.
            Inr (upd_conn a (\<lambda>s. s\<lparr>recvq_tail := Some c\<rparr>) (upd_call t (\<lambda>q. q\<lparr>recvq_next := Some c\<rparr>) S))))"

text \<open>The request waits for its reply; the first component tells whether another one is to be sent.\<close>

definition expect_reply :: "(callback_id, 'h, 'z) signal \<Rightarrow> nat \<Rightarrow> nat
    \<Rightarrow> (callback_id, 'h, 'z) core_scheme \<Rightarrow> (bool \<times> (callback_id, 'h, 'z) core_scheme) result" where
  "expect_reply sig a c S =
     ebind (move_to_recvq a c S) (\<lambda>S.
     ebind (set_active a READ (set_recv_timeout c S)) (\<lambda>S.
     let S = (if state (conns S a) < S_REPLY_STATUS
              then upd_conn a (\<lambda>s. s\<lparr>state := S_REPLY_STATUS\<rparr>) S else S) in
     case sendq (conns S a) of
       None \<Rightarrow> Inr (False, S)
     | Some c' \<Rightarrow>
         ebind (sig EV_CALL_SEND_START c' (Lng 0) S) (\<lambda>S.
           Inr (state (conns S a) < S_CLOSING, S))))"

text \<open>What follows when the last fragment was written.\<close>

definition request_sent :: "(callback_id, 'h, 'z) signal \<Rightarrow> nat \<Rightarrow> nat
    \<Rightarrow> (callback_id, 'h, 'z) core_scheme \<Rightarrow> (bool \<times> (callback_id, 'h, 'z) core_scheme) result" where
  "request_sent sig a c S =
     (let S = upd_conn a (\<lambda>s. s\<lparr>sendq := sendq_next (calls S c)\<rparr>) S in
      ebind (if sendq (conns S a) = None
             then clear_active a WRITE (upd_conn a (\<lambda>s. s\<lparr>sendq_tail := None\<rparr>) S)
             else Inr S) (\<lambda>S.
      ebind (sig EV_CALL_SEND_STOP c (Lng 0) S) (\<lambda>S.
      if S_CLOSING \<le> state (conns S a) then ebind (object_dec_ref sig c S) (\<lambda>S. Inr (False, S))
      else expect_reply sig a c S)))"

text \<open>The bookkeeping of a write of \<open>k\<close> bytes.\<close>

definition written :: "nat \<Rightarrow> nat \<Rightarrow> ('cb, 'h, 'z) core_scheme \<Rightarrow> ('cb, 'h, 'z) core_scheme" where
  "written c k S =
     (let q = calls S c;
          (i, iovs, saved) = advance_iov (indet_iovec S) (iov_index q) k (iov q) (iov_saved q)
      in upd_call c (\<lambda>q. q\<lparr>req_size := req_size q + of_nat k, iov_index := i, iov := iovs, iov_saved := saved\<rparr>) S)"

text \<open>One iteration of \<open>do_send\<close>.\<close>

definition send_step :: "nat \<Rightarrow> (callback_id, 'h, 'z) signal \<Rightarrow> nat
    \<Rightarrow> (callback_id, 'h, 'z) core_scheme \<Rightarrow> (bool \<times> (callback_id, 'h, 'z) core_scheme) result" where
  "send_step n sig a S =
     (let fd = sd (conns S a) in
      case sendq (conns S a) of
        None \<Rightarrow> Inl Assertion
      | Some c \<Rightarrow>
        ebind (sig EV_CALL_SEND_RAW_DATA c (Lng 0) S) (\<lambda>S.
        case sys_writev fd (pending_bytes (iov_index (calls S c)) (iov (calls S c))) S of
          (None, S) \<Rightarrow>
            if errno S = EAGAIN then Inr (False, S)
            else
              let S = take_async_error S in
              ebind (conn_failure n sig a (errno S) S) (\<lambda>S. Inr (False, S))
        | (Some k, S) \<Rightarrow>
            let S = written c k S in
            if iov_index (calls S c) < length (iov (calls S c)) then
              ebind (set_active a WRITE (set_send_timeout c S)) (\<lambda>S. Inr (False, S))
            else request_sent sig a c S))"

fun do_send :: "nat \<Rightarrow> (callback_id, 'h, 'z) signal \<Rightarrow> nat
    \<Rightarrow> (callback_id, 'h, 'z) core_scheme \<Rightarrow> (callback_id, 'h, 'z) core_scheme result" where
  "do_send 0 sig a S = Inl Out_of_fuel"
| "do_send (Suc n) sig a S =
     ebind (send_step n sig a S) (\<lambda>(more, S). if more then do_send n sig a S else Inr S)"

section \<open>Receiving\<close>

definition recv_done :: "('cb, 'h, 'z) signal \<Rightarrow> nat
    \<Rightarrow> ('cb, 'h, 'z) core_scheme \<Rightarrow> ('cb, 'h, 'z) core_scheme result" where
  "recv_done sig c S =
     ebind (deref (call_conn (calls S c))) (\<lambda>a.
     let S = upd_conn a (\<lambda>s. s\<lparr>recvq := recvq_next (calls S c)\<rparr>) S in
     ebind (if recvq (conns S a) = None then
              ebind (clear_active a READ S) (\<lambda>S. Inr (upd_conn a (\<lambda>s. s\<lparr>recvq_tail := None\<rparr>) S))
            else Inr S) (\<lambda>S.
     ebind (sig EV_CALL_RECV_STOP c (Lng 0) S) (object_dec_ref sig c)))"

fun recv_loop :: "nat \<Rightarrow> ('cb, 'h, 'z) signal \<Rightarrow> nat \<Rightarrow> string
    \<Rightarrow> ('cb, 'h, 'z) core_scheme \<Rightarrow> (bool \<times> nat \<times> ('cb, 'h, 'z) core_scheme) result" where
  "recv_loop 0 sig a buf S = Inl Out_of_fuel"
| "recv_loop (Suc n) sig a buf S =
     (case recvq (conns S a) of
        None \<Rightarrow> Inl Assertion
      | Some c \<Rightarrow>
          let S = (if state (conns S a) = S_REPLY_STATUS then set_recv_timeout c S else S) in
          ebind (http_process_reply_bytes sig c buf S) (\<lambda>(S, rest).
          ebind (if state (conns S a) = S_REPLY_DONE then
                   ebind (recv_done sig c S) (\<lambda>S.
                     if S_CLOSING \<le> state (conns S a) then Inr (True, S)
                     else Inr (False, upd_conn a (\<lambda>s. s\<lparr>state := S_REPLY_STATUS\<rparr>) S))
                 else Inr (False, S)) (\<lambda>(stop, S).
          if stop then Inr (True, c, S)
          else if rest \<noteq> [] then recv_loop n sig a rest S else Inr (False, c, S))))"

definition do_recv :: "nat \<Rightarrow> (callback_id, 'h, 'z) signal \<Rightarrow> nat
    \<Rightarrow> (callback_id, 'h, 'z) core_scheme \<Rightarrow> (callback_id, 'h, 'z) core_scheme result" where
  "do_recv n sig a S =
     (case recvq (conns S a) of
        None \<Rightarrow> Inl Assertion
      | Some c \<Rightarrow>
          (case sys_read S of
             (None, S) \<Rightarrow> if errno S \<noteq> EAGAIN then conn_failure n sig a (errno S) S else Inr S
           | (Some buf, S) \<Rightarrow>
               if buf = [] then
                 if state (conns S a) \<noteq> S_REPLY_DATA then conn_failure n sig a ECONNRESET S
                 else recv_done sig c (upd_conn a (\<lambda>s. s\<lparr>state := S_REPLY_DONE\<rparr>) S)
               else
                 ebind (recv_loop n sig a buf S) (\<lambda>(stop, c, S).
                   if stop then Inr S
                   else case recvq (conns S a) of
                          None \<Rightarrow> Inr S
                        | Some _ \<Rightarrow> ebind (deref (call_conn (calls S c))) (\<lambda>b. set_active b READ S))))"

section \<open>Connecting\<close>

definition core_exit :: "('cb, 'h, 'z) core_scheme \<Rightarrow> ('cb, 'h, 'z) core_scheme" where
  "core_exit S = S\<lparr>running := False, param := (param S)\<lparr>num_conns := 0\<rparr>\<rparr>"

text \<open>The length of the current burst of connection attempts and its maximum.\<close>

definition count_burst :: "('cb, 'h, 'z) core_scheme \<Rightarrow> ('cb, 'h, 'z) core_scheme" where
  "count_burst S =
     (if iteration S = prev_iteration S then S\<lparr>conn_burst := conn_burst S + 1\<rparr>
      else S\<lparr>max_burst_len := (if max_burst_len S < conn_burst S then conn_burst S else max_burst_len S),
             conn_burst := 1, prev_iteration := iteration S\<rparr>)"

text \<open>
  The calls that set up the socket: \<open>fcntl\<close>, \<open>SO_LINGER\<close> when asked for, \<open>TCP_NODELAY\<close>,
  \<open>SO_SNDBUF\<close> and \<open>SO_RCVBUF\<close>; each may fail.
\<close>

fun all_succeed :: "nat \<Rightarrow> ('cb, 'h, 'z) core_scheme \<Rightarrow> bool \<times> ('cb, 'h, 'z) core_scheme" where
  "all_succeed 0 S = (True, S)"
| "all_succeed (Suc k) S = (let (r, S) = syscall S in if r < 0 then (False, S) else all_succeed k S)"

definition setup_socket :: "('cb, 'h, 'z) core_scheme \<Rightarrow> bool \<times> ('cb, 'h, 'z) core_scheme" where
  "setup_socket S = all_succeed (if close_with_reset (param S) then 5 else 4) S"

text \<open>The loop that tries the free ports of a local address (option \<open>--hog\<close>).\<close>

fun bind_port :: "nat \<Rightarrow> nat \<Rightarrow> ('cb, 'h, 'z) core_scheme \<Rightarrow> (int option \<times> ('cb, 'h, 'z) core_scheme) result" where
  "bind_port 0 k S = Inl Out_of_fuel"
| "bind_port (Suc n) k S =
     ebind (nth_c (addresses S) k) (\<lambda>addr.
     ebind (port_get addr) (\<lambda>(p, addr).
       let S = S\<lparr>addresses := (addresses S)[k := addr]\<rparr> in
       if p < 0 then Inr (None, S)
       else
         let (r, S) = sys_call S in
         if r = 0 then Inr (Some p, S)
         else if errno S = EADDRNOTAVAIL then Inr (None, S)
         else bind_port n k S))"

text \<open>Binding: the first component tells whether the code goes on to \<open>connect\<close>.\<close>

definition bind_local :: "nat \<Rightarrow> nat \<Rightarrow> nat \<Rightarrow> ('cb, 'h, 'z) core_scheme
    \<Rightarrow> (bool \<times> ('cb, 'h, 'z) core_scheme) result" where
  "bind_local n a k S =
     (if hog (param S) then
        ebind (bind_port n k S) (\<lambda>(p, S).
          case p of
            None \<Rightarrow> Inr (False, S)
          | Some p \<Rightarrow> Inr (True, upd_conn a (\<lambda>s. s\<lparr>myport := p\<rparr>) S))
      else
        ebind (nth_c (addresses S) k) (\<lambda>addr.
          if ip addr \<noteq> 0 then (let (r, S) = sys_call S in Inr (r = 0, S)) else Inr (True, S)))"

text \<open>The call of \<open>connect\<close> and what follows; \<open>False\<close> is a jump to \<open>failure\<close>.\<close>

definition start_connect :: "(callback_id, 'h, 'z) signal \<Rightarrow> nat
    \<Rightarrow> (callback_id, 'h, 'z) core_scheme \<Rightarrow> (bool \<times> (callback_id, 'h, 'z) core_scheme) result" where
  "start_connect sig a S =
     (let (r, S) = sys_call S in
      if r = 0 then
        ebind (sig EV_CONN_CONNECTED a (Lng 0) (upd_conn a (\<lambda>s. s\<lparr>state := S_CONNECTED\<rparr>) S))
          (\<lambda>S. Inr (True, S))
      else if errno S = EINPROGRESS then
        ebind (set_active a WRITE (upd_conn a (\<lambda>s. s\<lparr>state := S_CONNECTING\<rparr>) S)) (\<lambda>S.
          if 0 < timeout (param S) then
            ebind (c_assert (watchdog (conns S a) = None) S) (\<lambda>S.
              let (w, S) = timer_schedule Conn_timeout a (timeout (param S)) S
              in Inr (True, upd_conn a (\<lambda>s. s\<lparr>watchdog := w\<rparr>) S))
          else Inr (True, S))
      else ebind (return_port a (take_async_error S)) (\<lambda>S. Inr (False, S)))"

text \<open>
  The attempt: \<open>True\<close> when \<open>core_connect\<close> returns 0, \<open>False\<close> for a jump to \<open>failure\<close>.
\<close>

definition try_connect :: "nat \<Rightarrow> (callback_id, 'h, 'z) signal \<Rightarrow> nat
    \<Rightarrow> (callback_id, 'h, 'z) core_scheme \<Rightarrow> (bool \<times> (callback_id, 'h, 'z) core_scheme) result" where
  "try_connect n sig a S =
     (let (fd, S) = sys_call (count_burst S) in
      if fd < 0 then Inr (False, S)
      else
        let (ok, S) = setup_socket S in
        if \<not> ok then Inr (False, S)
        else
          let S = upd_conn a (\<lambda>s. s\<lparr>sd := fd\<rparr>) S in
          ebind (hash_lookup hash_table_size (hostname (conns S a)) (port (conns S a)) (hash_table S)) (\<lambda>sin.
          if sin = None then Inr (False, S)
          else
            ebind (sig EV_CONN_CONNECTING a (Lng 0) S) (\<lambda>S.
            if S_CLOSING \<le> state (conns S a) then Inr (False, S)
            else
              ebind (core_get_next_myaddr S) (\<lambda>(k, S).
              ebind (bind_local n a k (upd_conn a (\<lambda>s. s\<lparr>myaddr := Some k\<rparr>) S)) (\<lambda>(ok, S).
                if ok then start_connect sig a S else Inr (False, S))))))"

definition core_connect :: "nat \<Rightarrow> (callback_id, 'h, 'z) signal \<Rightarrow> nat
    \<Rightarrow> (callback_id, 'h, 'z) core_scheme \<Rightarrow> (int \<times> (callback_id, 'h, 'z) core_scheme) result" where
  "core_connect n sig a S =
     ebind (try_connect n sig a S) (\<lambda>(ok, S).
       if ok then Inr (0, S)
       else ebind (conn_failure n sig a (errno S) S) (\<lambda>S. Inr (- 1, S)))"

section \<open>Queueing a request\<close>

definition version_string :: string where
  "version_string = ''0.9.1''"

definition http10req :: string where
  "http10req = '' HTTP/1.0'' @ [CR, LF] @ ''User-Agent: httperf/'' @ version_string
     @ [CR, LF] @ ''Connection: keep-alive'' @ [CR, LF] @ ''Host: ''"

definition http11req :: string where
  "http11req = '' HTTP/1.1'' @ [CR, LF] @ ''User-Agent: httperf/'' @ version_string
     @ [CR, LF] @ ''Host: ''"

definition http10req_nohost :: string where
  "http10req_nohost = '' HTTP/1.0'' @ [CR, LF] @ ''User-Agent: httperf/'' @ version_string
     @ [CR, LF] @ ''Connection: keep-alive''"

definition http11req_nohost :: string where
  "http11req_nohost = '' HTTP/1.1'' @ [CR, LF] @ ''User-Agent: httperf/'' @ version_string"

definition fill_host :: "params \<Rightarrow> conn \<Rightarrow> call \<Rightarrow> call" where
  "fill_host p s q =
     (if no_host_hdr p then call_set_iov ie_host [] 0 q
      else if iov_base (iov q ! ie_host) = None then call_set_iov ie_host (fqdname s) (fqdname_len s) q
      else q)"

definition fill_protocol :: "params \<Rightarrow> call \<Rightarrow> call result" where
  "fill_protocol p q =
     (let req = (\<lambda>r. Inr (call_set_iov ie_protl r (length r) q)) in
      if req_version q = 0x10000 then req (if no_host_hdr p then http10req_nohost else http10req)
      else if req_version q = 0x10001 then req (if no_host_hdr p then http11req_nohost else http11req)
      else Inl (Exit 1))"

definition core_send :: "(callback_id, 'h, 'z) signal \<Rightarrow> nat \<Rightarrow> nat
    \<Rightarrow> (callback_id, 'h, 'z) core_scheme \<Rightarrow> (int \<times> (callback_id, 'h, 'z) core_scheme) result" where
  "core_send sig a c S =
     ebind (sig EV_CALL_ISSUE c (Lng 0) S) (\<lambda>S.
     let S = upd_call c (\<lambda>q. fill_host (param S) (conns S a) (q\<lparr>call_conn := Some a\<rparr>)) S in
     ebind (fill_protocol (param S) (calls S c)) (\<lambda>q.
     let S = upd_call c (\<lambda>_. q\<lparr>iov_index := 0, iov_saved := iov q ! 0\<rparr>) S;
         S = object_inc_ref c S;
         S = upd_call c (\<lambda>q. q\<lparr>sendq_next := None\<rparr>) S in
     case sendq (conns S a) of
       None \<Rightarrow>
         ebind (sig EV_CALL_SEND_START c (Lng 0)
                 (upd_conn a (\<lambda>s. s\<lparr>sendq := Some c, sendq_tail := Some c\<rparr>) S)) (\<lambda>S.
           if S_CLOSING \<le> state (conns S a) then Inr (- 1, S)
           else ebind (set_active a WRITE (set_send_timeout c S)) (\<lambda>S. Inr (0, S)))
     | Some _ \<Rightarrow>
         ebind (deref (sendq_tail (conns S a))) (\<lambda>t.
           Inr (0, upd_conn a (\<lambda>s. s\<lparr>sendq_tail := Some c\<rparr>) (upd_call t (\<lambda>q. q\<lparr>sendq_next := Some c\<rparr>) S)))))"

section \<open>The main loop\<close>

text \<open>\<open>core_init\<close>: \<open>epoll_create\<close>, \<open>calloc\<close>, \<open>getrlimit\<close> and \<open>setrlimit\<close> may fail.\<close>

definition core_init :: "mapped_file \<Rightarrow> resolver \<Rightarrow> (callback_id, 'h, 'z) signal
    \<Rightarrow> (callback_id, 'h, 'z) core_scheme \<Rightarrow> (callback_id, 'h, 'z) core_scheme result" where
  "core_init file res sig S =
     (let S = S\<lparr>hash_table := replicate hash_table_size \<lparr>he_hostname = None, he_port = 0, he_sin = (0, 0)\<rparr>\<rparr> in
      ebind (if addresses S = [] then core_add_address 0 S else Inr S) (\<lambda>S.
      let (epfd, S) = syscall S in
      if epfd < 0 then Inl (Exit 1)
      else
        (case malloc S of
           (None, S) \<Rightarrow> Inl (Exit 1)
         | (Some _, S) \<Rightarrow>
             (case all_succeed 2 S of
                (False, S) \<Rightarrow> Inl (Exit 1)
              | (True, S) \<Rightarrow>
                  ebind (if servers (param S) \<noteq> None then conn_add_servers file res sig S
                         else core_addr_intern res sig (server (param S)) (server_port (param S)) S) (\<lambda>S.
                    if runtime (param S) \<noteq> 0
                    then Inr (snd (timer_schedule Core_runtime_timer 0 (runtime (param S)) S))
                    else Inr S)))))"

definition core_runtime_timer :: "('cb, 'h, 'z) core_scheme \<Rightarrow> ('cb, 'h, 'z) core_scheme" where
  "core_runtime_timer S = core_exit S"

text \<open>The handling of one ready descriptor.\<close>

definition handle_ready :: "nat \<Rightarrow> (callback_id, 'h, 'z) signal \<Rightarrow> nat \<times> bool \<times> bool
    \<Rightarrow> (callback_id, 'h, 'z) core_scheme \<Rightarrow> (callback_id, 'h, 'z) core_scheme result" where
  "handle_ready n sig = (\<lambda>(a, readable, writable) S.
     let S = object_inc_ref a S in
     ebind (drop_watchdog a S) (\<lambda>S.
     ebind (if state (conns S a) = S_CONNECTING then
              if writable then
                ebind (clear_active a WRITE S) (\<lambda>S.
                  sig EV_CONN_CONNECTED a (Lng 0) (upd_conn a (\<lambda>s. s\<lparr>state := S_CONNECTED\<rparr>) S))
              else Inr S
            else
              ebind (if readable \<and> recvq (conns S a) \<noteq> None then do_recv n sig a S else Inr S) (\<lambda>S.
                if writable \<and> sendq (conns S a) \<noteq> None then do_send n sig a S else Inr S))
       (object_dec_ref sig a)))"

definition core_step :: "nat \<Rightarrow> (callback_id, ('h, 'z) core_ext) callback \<Rightarrow> (callback_id, 'h, 'z) signal
    \<Rightarrow> (callback_id, 'h, 'z) core_scheme \<Rightarrow> (callback_id, 'h, 'z) core_scheme result" where
  "core_step n cb sig S =
     ebind (timer_tick cb (S\<lparr>iteration := iteration S + 1\<rparr>)) (\<lambda>S.
       let S1 = S\<lparr>waits_done := Suc (waits_done S)\<rparr> in
       case waits S (waits_done S) of
         Wait_error e \<Rightarrow> Inr (S1\<lparr>errno := e\<rparr>)
       | Ready rs \<Rightarrow> efold (handle_ready n sig) rs S1)"

fun core_loop :: "nat \<Rightarrow> nat \<Rightarrow> (callback_id, ('h, 'z) core_ext) callback \<Rightarrow> (callback_id, 'h, 'z) signal
    \<Rightarrow> (callback_id, 'h, 'z) core_scheme \<Rightarrow> (callback_id, 'h, 'z) core_scheme result" where
  "core_loop 0 n cb sig S = (if running S then Inl Out_of_fuel else Inr S)"
| "core_loop (Suc m) n cb sig S =
     (if running S then ebind (core_step n cb sig S) (core_loop m n cb sig) else Inr S)"

end
