(* ===== verification/Engine_Send.thy ===== *)
theory Engine_Send
  imports Core_Engine
begin

text \<open>
  What \<open>do_send\<close> does to the byte stream and to the two queues of a connection: a partial
  write leaves exactly the unwritten bytes to be sent, requests leave the connection in
  the order of the send queue and whole, and pass to the receive queue in that order.
  \<open>observes\<close> is the contract of the statistics collectors; the handlers of the events that
  \<open>do_send\<close> signals are assumed to keep it.
\<close>

section \<open>The I/O vector\<close>

definition wf_iov :: "iovec \<Rightarrow> bool" where
  "wf_iov v \<longleftrightarrow> (case iov_base v of None \<Rightarrow> iov_len v = 0 | Some s \<Rightarrow> iov_len v \<le> length s)"

lemma iov_bytes_length: "wf_iov v \<Longrightarrow> length (iov_bytes v) = iov_len v"
  by (auto simp: wf_iov_def iov_bytes_def split: option.splits)

text \<open>A fragment without its first \<open>k\<close> bytes.\<close>

definition cut :: "nat \<Rightarrow> iovec \<Rightarrow> iovec" where
  "cut k v = \<lparr>iov_base = map_option (drop k) (iov_base v), iov_len = iov_len v - k\<rparr>"

lemma cut_bytes: "iov_bytes (cut k v) = drop k (iov_bytes v)"
  by (auto simp: cut_def iov_bytes_def drop_take split: option.splits)

lemma cut_0 [simp]: "cut 0 v = v"
  by (cases v) (simp add: cut_def option.map_id0 [unfolded id_def] map_option.identity)

lemma cut_cut: "cut j (cut k v) = cut (j + k) v"
  by (cases "iov_base v") (auto simp: cut_def add.commute)

lemma wf_cut: "wf_iov v \<Longrightarrow> wf_iov (cut k v)"
  by (auto simp: wf_iov_def cut_def split: option.splits)

text \<open>
  \<open>in_progress orig i iovs saved\<close>: the array while the request \<open>orig\<close> is being sent and its
  fragment \<open>i\<close> is the next one.
\<close>

definition in_progress :: "iovec list \<Rightarrow> nat \<Rightarrow> iovec list \<Rightarrow> iovec \<Rightarrow> bool" where
  "in_progress orig i iovs saved \<longleftrightarrow>
     i < length orig \<and> saved = orig ! i \<and> (\<exists>k \<le> iov_len (orig ! i). iovs = orig[i := cut k (orig ! i)])"

lemma pending_bytes_Cons:
  "i < length iovs \<Longrightarrow> pending_bytes i iovs = iov_bytes (iovs ! i) @ pending_bytes (Suc i) iovs"
  by (simp add: pending_bytes_def Cons_nth_drop_Suc [symmetric])

lemma pending_bytes_end [simp]: "length iovs \<le> i \<Longrightarrow> pending_bytes i iovs = []"
  by (simp add: pending_bytes_def)

lemma pending_bytes_update: "j < i \<Longrightarrow> pending_bytes i (iovs[j := v]) = pending_bytes i iovs"
  by (simp add: pending_bytes_def drop_update_cancel)

lemma in_progress_suffix:
  assumes "\<forall>v \<in> set orig. wf_iov v" "in_progress orig i iovs saved"
  shows "\<exists>j. pending_bytes i iovs = drop j (pending_bytes 0 orig)"
proof -
  obtain k where i: "i < length orig" "k \<le> iov_len (orig ! i)" "iovs = orig[i := cut k (orig ! i)]"
    using assms(2) by (auto simp: in_progress_def)
  have k: "k \<le> length (iov_bytes (orig ! i))" using i assms(1) by (simp add: iov_bytes_length)
  have "pending_bytes i iovs = drop k (iov_bytes (orig ! i)) @ pending_bytes (Suc i) orig"
    using i by (simp add: pending_bytes_Cons pending_bytes_update cut_bytes)
  moreover have "pending_bytes 0 orig = concat (map iov_bytes (take i orig)) @ iov_bytes (orig ! i) @ pending_bytes (Suc i) orig"
    using i(1) by (simp add: pending_bytes_def id_take_nth_drop [of i orig, symmetric] flip: concat_append map_append)
      (metis Cons_nth_drop_Suc append_take_drop_id concat.simps(2) concat_append list.simps(9) map_append)
  ultimately show ?thesis
    using k by (intro exI [of _ "length (concat (map iov_bytes (take i orig))) + k"]) simp
qed

lemma in_progress_start: "orig \<noteq> [] \<Longrightarrow> in_progress orig 0 orig (orig ! 0)"
  by (auto simp: in_progress_def intro: exI [of _ 0])

lemma advance_iov_progress:
  assumes "\<forall>v \<in> set orig. wf_iov v" "in_progress orig i iovs saved" "k \<le> length (pending_bytes i iovs)"
    and "advance_iov beyond i k iovs saved = (i', iovs', saved')"
  shows "pending_bytes i' iovs' = drop k (pending_bytes i iovs)
     \<and> (if k < length (pending_bytes i iovs) then in_progress orig i' iovs' saved'
        else i' = length orig \<and> iovs' = orig)"
  using assms(2-)
proof (induction "length orig - i" arbitrary: i k iovs saved)
  case 0
  then show ?case by (simp add: in_progress_def)
next
  case (Suc m)
  from Suc.prems(1) obtain d where i: "i < length orig" "saved = orig ! i"
    "d \<le> iov_len (orig ! i)" "iovs = orig[i := cut d (orig ! i)]"
    by (auto simp: in_progress_def)
  have v: "iovs ! i = cut d (orig ! i)" "iov_len (iovs ! i) = iov_len (orig ! i) - d" using i by (simp_all add: cut_def)
  have wf: "wf_iov (orig ! i)" "wf_iov (iovs ! i)" using assms(1) i v by (auto simp: wf_cut)
  have split: "pending_bytes i iovs = iov_bytes (iovs ! i) @ pending_bytes (Suc i) orig"
    using i by (simp add: pending_bytes_Cons pending_bytes_update)
  note len = iov_bytes_length [OF wf(2)]
  have run: "advance_iov beyond i k iovs saved =
     (if k < iov_len (iovs ! i) then (i, iovs[i := cut k (iovs ! i)], saved)
      else advance_iov beyond (i + 1) (k - iov_len (iovs ! i)) orig
             (if i + 1 < length orig then orig ! (i + 1) else beyond))"
    using i by (subst advance_iov.simps) (simp add: Let_def cut_def)
  show ?case
  proof (cases "k < iov_len (iovs ! i)")
    case True
    have new: "i' = i" "iovs' = orig[i := cut (k + d) (orig ! i)]" "saved' = saved"
      using Suc.prems(3) True run i v by (auto simp: cut_cut)
    have "pending_bytes i' iovs' = drop k (iov_bytes (iovs ! i)) @ pending_bytes (Suc i) orig"
      using i v new by (simp add: pending_bytes_Cons pending_bytes_update cut_bytes)
    moreover have "in_progress orig i' iovs' saved'"
      using i new True v(2) by (auto simp: in_progress_def intro!: exI [of _ "k + d"])
    ultimately show ?thesis using True len by (simp add: split)
  next
    case False
    let ?k = "k - iov_len (iovs ! i)"
    have run': "advance_iov beyond (Suc i) ?k orig
        (if i + 1 < length orig then orig ! (i + 1) else beyond) = (i', iovs', saved')"
      using Suc.prems(3) False run by simp
    show ?thesis
    proof (cases "Suc i < length orig")
      case True
      have "in_progress orig (Suc i) orig (orig ! Suc i)"
        using True by (auto simp: in_progress_def intro: exI [of _ 0])
      moreover have "?k \<le> length (pending_bytes (Suc i) orig)"
        using Suc.prems(2) False len by (simp add: split)
      ultimately show ?thesis
        using Suc.hyps(1) [OF _ _ _ run'] Suc.hyps(2) False len True by (simp add: split less_diff_conv2 not_less)
    next
      case last: False
      then have "i' = length orig" "iovs' = orig"
        using run' i by (auto simp: advance_iov.simps)
      then show ?thesis using last False len Suc.prems(2) by (simp add: split)
    qed
  qed
qed

section \<open>Handlers that only observe\<close>

text \<open>
  The statistics collectors read the clock, allocate memory, note times in calls and
  connections, count the calls of a connection and keep their own data; everything else stays as it is.
\<close>

definition unobserved :: "('cb, 'h, 'z) core_scheme \<Rightarrow> ('cb, 'h, 'z) core_scheme" where
  "unobserved S = core.more_update (\<lambda>_. undefined) (S\<lparr>clock_reads := 0, mallocs := 0,
     conns := (\<lambda>a. (conns S a)\<lparr>time_connect_start := 0, num_calls_completed := 0\<rparr>),
     calls := (\<lambda>c. (calls S c)\<lparr>time_send_start := 0, time_recv_start := 0\<rparr>),
     conn_priv := undefined, call_priv := undefined, sess_priv := undefined\<rparr>)"

definition observes :: "('cb, 'h, 'z) core_scheme \<Rightarrow> ('cb, 'h, 'z) core_scheme \<Rightarrow> bool" where
  "observes S S' \<longleftrightarrow> mallocs S \<le> mallocs S' \<and> unobserved S' = unobserved S"

lemma observes_refl [simp]: "observes S S"
  by (simp add: observes_def)

lemma observes_trans: "observes S T \<Longrightarrow> observes T U \<Longrightarrow> observes S U"
  by (simp add: observes_def)

lemma unobserved_fields:
  "objs (unobserved S) = objs S" "free_list (unobserved S) = free_list S" "wire (unobserved S) = wire S"
  "param (unobserved S) = param S" "tmr (unobserved S) = tmr S" "active_timers (unobserved S) = active_timers S"
  "passive_timers (unobserved S) = passive_timers S" "persistent_timers (unobserved S) = persistent_timers S"
  "now (unobserved S) = now S" "use_timer_cache (unobserved S) = use_timer_cache S"
  "action (unobserved S) = action S" "addresses (unobserved S) = addresses S" "errno (unobserved S) = errno S"
  "running (unobserved S) = running S" "next_id (unobserved S) = next_id S"
  "(conns (unobserved S) a)\<lparr>time_connect_start := 0, num_calls_completed := 0\<rparr> = (conns S a)\<lparr>time_connect_start := 0, num_calls_completed := 0\<rparr>"
  "(calls (unobserved S) c)\<lparr>time_send_start := 0, time_recv_start := 0\<rparr>
     = (calls S c)\<lparr>time_send_start := 0, time_recv_start := 0\<rparr>"
  by (simp_all add: unobserved_def)

lemma observesD:
  assumes "observes S S'"
  shows "objs S' = objs S" "free_list S' = free_list S" "wire S' = wire S"
    "param S' = param S" "tmr S' = tmr S" "active_timers S' = active_timers S"
    "passive_timers S' = passive_timers S" "persistent_timers S' = persistent_timers S"
    "now S' = now S" "use_timer_cache S' = use_timer_cache S"
    "action S' = action S" "addresses S' = addresses S" "errno S' = errno S"
    "running S' = running S" "next_id S' = next_id S"
    "(conns S' a)\<lparr>time_connect_start := 0, num_calls_completed := 0\<rparr> = (conns S a)\<lparr>time_connect_start := 0, num_calls_completed := 0\<rparr>"
    "(calls S' c)\<lparr>time_send_start := 0, time_recv_start := 0\<rparr>
     = (calls S c)\<lparr>time_send_start := 0, time_recv_start := 0\<rparr>"
    "mallocs S \<le> mallocs S'"
  using assms unobserved_fields [of S] unobserved_fields [of S']
  by (simp_all add: observes_def)

lemma conn_time_eqD:
  "x\<lparr>time_connect_start := 0, num_calls_completed := 0\<rparr> = y\<lparr>time_connect_start := 0, num_calls_completed := 0\<rparr> \<Longrightarrow>
     state x = state y \<and> sendq x = sendq y \<and> recvq x = recvq y \<and> sendq_tail x = sendq_tail y
     \<and> recvq_tail x = recvq_tail y \<and> sd x = sd y \<and> watchdog x = watchdog y \<and> myport x = myport y
     \<and> myaddr x = myaddr y \<and> fqdname x = fqdname y \<and> fqdname_len x = fqdname_len y"
  by (cases x; cases y) simp

lemma call_times_eqD:
  "x\<lparr>time_send_start := 0, time_recv_start := 0\<rparr> = y\<lparr>time_send_start := 0, time_recv_start := 0\<rparr> \<Longrightarrow>
     sendq_next x = sendq_next y \<and> recvq_next x = recvq_next y \<and> iov x = iov y \<and> iov_index x = iov_index y
     \<and> iov_saved x = iov_saved y \<and> call_conn x = call_conn y \<and> req_version x = req_version y"
  by (cases x; cases y) simp

lemma observes_conn:
  assumes "observes S S'"
  shows "state (conns S' a) = state (conns S a)" "sendq (conns S' a) = sendq (conns S a)"
    "recvq (conns S' a) = recvq (conns S a)" "sendq_tail (conns S' a) = sendq_tail (conns S a)"
    "recvq_tail (conns S' a) = recvq_tail (conns S a)" "sd (conns S' a) = sd (conns S a)"
    "watchdog (conns S' a) = watchdog (conns S a)" "myport (conns S' a) = myport (conns S a)"
    "myaddr (conns S' a) = myaddr (conns S a)" "fqdname (conns S' a) = fqdname (conns S a)"
    "fqdname_len (conns S' a) = fqdname_len (conns S a)"
  using conn_time_eqD [OF observesD(16) [OF assms, of a]] by blast+

lemma observes_call:
  assumes "observes S S'"
  shows "sendq_next (calls S' c) = sendq_next (calls S c)" "recvq_next (calls S' c) = recvq_next (calls S c)"
    "iov (calls S' c) = iov (calls S c)" "iov_index (calls S' c) = iov_index (calls S c)"
    "iov_saved (calls S' c) = iov_saved (calls S c)" "call_conn (calls S' c) = call_conn (calls S c)"
    "req_version (calls S' c) = req_version (calls S c)"
  using call_times_eqD [OF observesD(17) [OF assms, of c]] by blast+

locale collectors =
  fixes sig :: "('cb, 'h, 'z) signal"
  assumes sig_observes: "sig ev a arg S = Inr S' \<Longrightarrow> observes S S'"

section \<open>The two queues of a connection\<close>

primrec chain :: "(call \<Rightarrow> nat option) \<Rightarrow> (nat \<Rightarrow> call) \<Rightarrow> nat option \<Rightarrow> nat list \<Rightarrow> bool" where
  "chain follow cs p [] \<longleftrightarrow> p = None"
| "chain follow cs p (c # xs) \<longleftrightarrow> p = Some c \<and> chain follow cs (follow (cs c)) xs"

definition queues :: "('cb, 'h, 'z) core_scheme \<Rightarrow> nat \<Rightarrow> nat list \<Rightarrow> nat list \<Rightarrow> bool" where
  "queues S a sq rq \<longleftrightarrow>
     chain sendq_next (calls S) (sendq (conns S a)) sq
     \<and> chain recvq_next (calls S) (recvq (conns S a)) rq
     \<and> distinct (sq @ rq)
     \<and> (sq \<noteq> [] \<longrightarrow> sendq_tail (conns S a) = Some (last sq))
     \<and> (rq \<noteq> [] \<longrightarrow> recvq_tail (conns S a) = Some (last rq))"

text \<open>\<open>orig c\<close> is the I/O vector of the request \<open>c\<close> as it was queued.\<close>

definition sending :: "(nat \<Rightarrow> iovec list) \<Rightarrow> ('cb, 'h, 'z) core_scheme \<Rightarrow> nat list \<Rightarrow> bool" where
  "sending orig S sq \<longleftrightarrow> (\<forall>c \<in> set sq. (\<forall>v \<in> set (orig c). wf_iov v)
     \<and> in_progress (orig c) (iov_index (calls S c)) (iov (calls S c)) (iov_saved (calls S c)))"

definition unsent :: "('cb, 'h, 'z) core_scheme \<Rightarrow> nat list \<Rightarrow> string" where
  "unsent S cs = concat (map (\<lambda>c. pending_bytes (iov_index (calls S c)) (iov (calls S c))) cs)"

lemma unsent_cong: "(\<And>d. d \<in> set cs \<Longrightarrow> calls U d = calls S d) \<Longrightarrow> unsent U cs = unsent S cs"
  by (simp add: unsent_def cong: map_cong)

lemma sending_cong: "(\<And>d. d \<in> set cs \<Longrightarrow> calls U d = calls S d) \<Longrightarrow> sending orig U cs = sending orig S cs"
  by (simp add: sending_def)

text \<open>Steps that leave the queues, the I/O vectors and the bytes on the wire alone.\<close>

definition queue_view :: "conn \<Rightarrow> conn_state \<times> nat option \<times> nat option \<times> nat option \<times> nat option \<times> int" where
  "queue_view s = (state s, sendq s, sendq_tail s, recvq s, recvq_tail s, sd s)"

definition iov_view :: "call \<Rightarrow> nat option \<times> nat option \<times> iovec list \<times> nat \<times> iovec" where
  "iov_view q = (sendq_next q, recvq_next q, iov q, iov_index q, iov_saved q)"

definition same_queues :: "('cb, 'h, 'z) core_scheme \<Rightarrow> ('cb, 'h, 'z) core_scheme \<Rightarrow> bool" where
  "same_queues S S' \<longleftrightarrow> wire S' = wire S \<and> (\<forall>a. queue_view (conns S' a) = queue_view (conns S a))
     \<and> (\<forall>c. iov_view (calls S' c) = iov_view (calls S c))"

lemma same_queues_refl [simp]: "same_queues S S"
  by (simp add: same_queues_def)

lemma same_queues_trans [trans]: "same_queues S T \<Longrightarrow> same_queues T U \<Longrightarrow> same_queues S U"
  by (simp add: same_queues_def)

lemma same_queuesD:
  assumes "same_queues S S'"
  shows "wire S' = wire S" "state (conns S' a) = state (conns S a)" "sendq (conns S' a) = sendq (conns S a)"
    "sendq_tail (conns S' a) = sendq_tail (conns S a)" "recvq (conns S' a) = recvq (conns S a)"
    "recvq_tail (conns S' a) = recvq_tail (conns S a)" "sd (conns S' a) = sd (conns S a)"
    "sendq_next (calls S' c) = sendq_next (calls S c)" "recvq_next (calls S' c) = recvq_next (calls S c)"
    "iov (calls S' c) = iov (calls S c)" "iov_index (calls S' c) = iov_index (calls S c)"
    "iov_saved (calls S' c) = iov_saved (calls S c)"
  using assms by (simp_all add: same_queues_def queue_view_def iov_view_def)

lemma call_chain_cong: "(\<And>c. c \<in> set xs \<Longrightarrow> f (cs' c) = f (cs c)) \<Longrightarrow> chain f cs' p xs = chain f cs p xs"
  by (induction xs arbitrary: p) auto

lemma same_queues_cong:
  assumes "same_queues S S'"
  shows "queues S' a sq rq = queues S a sq rq" "sending orig S' sq = sending orig S sq" "unsent S' sq = unsent S sq"
proof -
  note eq = same_queuesD [OF assms]
  show "queues S' a sq rq = queues S a sq rq"
    using call_chain_cong [of sq sendq_next "calls S'" "calls S"] call_chain_cong [of rq recvq_next "calls S'" "calls S"]
    by (simp add: queues_def eq)
  show "sending orig S' sq = sending orig S sq" "unsent S' sq = unsent S sq"
    by (simp_all add: sending_def unsent_def eq)
qed

lemma observes_same_queues: "observes S S' \<Longrightarrow> same_queues S S'"
  by (simp add: same_queues_def queue_view_def iov_view_def observes_conn observes_call observesD(3))

text \<open>What timers and system calls touch.\<close>

lemma timer_now_frame: "\<exists>k. snd (timer_now S) = S\<lparr>clock_reads := k\<rparr>"
  by (cases S) (auto simp: timer_now_def timer_now_forced_def)

lemma timer_schedule_frame:
  "\<exists>tm ps k m as. snd (timer_schedule f x d S)
     = S\<lparr>tmr := tm, passive_timers := ps, clock_reads := k, mallocs := m, active_timers := as\<rparr>"
proof (cases "passive_timers S")
  case Nil
  then show ?thesis
    by (cases S) (auto simp: timer_schedule_def malloc_def push_timer_eq timer_now_def timer_now_forced_def Let_def)
next
  case (Cons t ts)
  then show ?thesis
    by (cases S) (auto simp: timer_schedule_def malloc_def push_timer_eq timer_now_def timer_now_forced_def Let_def)
qed

lemma timer_cancel_frame:
  "timer_cancel t S = Inr S' \<Longrightarrow> \<exists>tm. S' = S\<lparr>tmr := tm\<rparr>"
  by (auto simp: timer_cancel_def Inr_iff)

lemma syscall_frame: "\<exists>k e. snd (syscall S) = S\<lparr>sysc_done := k, errno := e\<rparr>"
proof (cases "sysc S (sysc_done S)")
  case (Pair r e)
  then have "snd (syscall S) = S\<lparr>sysc_done := Suc (sysc_done S), errno := if r < 0 then e else errno S\<rparr>"
    by (simp add: syscall_def)
  then show ?thesis by blast
qed

lemma take_async_error_same: "same_queues S (take_async_error S)"
  by (auto simp: take_async_error_def same_queues_def split: prod.splits)

lemma same_queues_upd:
  "same_queues S S' \<Longrightarrow> (\<And>s. queue_view (f s) = queue_view s) \<Longrightarrow> same_queues S (upd_conn a f S')"
  "same_queues S S' \<Longrightarrow> (\<And>q. iov_view (g q) = iov_view q) \<Longrightarrow> same_queues S (upd_call c g S')"
  by (auto simp: same_queues_def upd_conn_def upd_call_def)

lemma timer_schedule_same: "same_queues S (snd (timer_schedule f x d S))"
  using timer_schedule_frame [of f x d S] by (auto simp: same_queues_def)

lemma timer_now_same: "same_queues S (snd (timer_now S))"
  using timer_now_frame [of S] by (auto simp: same_queues_def)

lemma syscall_same: "same_queues S (snd (syscall S))"
  using syscall_frame [of S] by (auto simp: same_queues_def)

lemma set_timeout_same: "same_queues S (set_send_timeout c S)" "same_queues S (set_recv_timeout c S)"
proof -
  have upd: "same_queues S (upd_call c (\<lambda>q. q\<lparr>call_timeout := t\<rparr>) S')" if "same_queues S S'" for t S'
    using that by (rule same_queues_upd(2)) (simp add: iov_view_def)
  show "same_queues S (set_send_timeout c S)" "same_queues S (set_recv_timeout c S)"
    using timer_now_same [of S]
    by (auto simp: set_send_timeout_def set_recv_timeout_def Let_def upd split: prod.splits)
qed

lemma clear_active_same: "clear_active a d S = Inr S' \<Longrightarrow> same_queues S S'"
proof -
  assume run: "clear_active a d S = Inr S'"
  obtain k e where sys: "snd (syscall S) = S\<lparr>sysc_done := k, errno := e\<rparr>" using syscall_frame by blast
  show ?thesis
    using run sys
    by (cases "syscall S"; cases d)
       (auto simp: clear_active_def same_queues_def upd_conn_def queue_view_def split: if_splits)
qed

text \<open>The state in which \<open>set_active\<close> looks at the watchdog.\<close>

definition registered :: "nat \<Rightarrow> io_dir \<Rightarrow> ('cb, 'h, 'z) core_scheme \<Rightarrow> ('cb, 'h, 'z) core_scheme" where
  "registered a d S =
     (let S1 = upd_conn a (\<lambda>s. s\<lparr>epoll_added := True\<rparr>) (snd (syscall S));
          S2 = (\<lambda>i. S1\<lparr>epoll_set := (epoll_set S1)(sd (conns S a) \<mapsto> (a, i)),
                       max_sd := max (max_sd S1) (sd (conns S a))\<rparr>)
      in case d of WRITE \<Rightarrow> upd_conn a (\<lambda>s. s\<lparr>writing := True\<rparr>) (S2 Interest_out)
         | READ \<Rightarrow> upd_conn a (\<lambda>s. s\<lparr>reading := True\<rparr>) (S2 Interest_in))"

lemma set_active_eq:
  "set_active a d S =
     (if fst (syscall S) < 0 then Inl (Exit 1)
      else let S3 = registered a d S in
        if watchdog (conns S3 a) \<noteq> None \<or> earliest_timeout a S3 \<le> 0 then Inr S3
        else let t = timer_schedule Conn_timeout a (earliest_timeout a S3 - fst (timer_now S3)) (snd (timer_now S3))
             in Inr (upd_conn a (\<lambda>s. s\<lparr>watchdog := fst t\<rparr>) (snd t)))"
  by (cases d) (simp_all add: set_active_def registered_def Let_def case_prod_beta not_le)

lemma registered_same: "same_queues S (registered a d S)"
proof -
  define S1 where "S1 = upd_conn a (\<lambda>s. s\<lparr>epoll_added := True\<rparr>) (snd (syscall S))"
  have "same_queues S S1"
    unfolding S1_def by (rule same_queues_upd(1) [OF syscall_same]) (simp add: queue_view_def)
  then have "same_queues S (S1\<lparr>epoll_set := e, max_sd := m\<rparr>)" for e m by (simp add: same_queues_def)
  then show ?thesis
    unfolding registered_def Let_def S1_def [symmetric]
    by (cases d) (auto intro!: same_queues_upd(1) simp: queue_view_def)
qed

lemma set_active_same: "set_active a d S = Inr S' \<Longrightarrow> same_queues S S'"
proof -
  assume run: "set_active a d S = Inr S'"
  let ?S3 = "registered a d S"
  have w: "same_queues S (upd_conn a (\<lambda>s. s\<lparr>watchdog := w\<rparr>) (snd (timer_schedule Conn_timeout a t (snd (timer_now ?S3)))))"
    for w t
    by (rule same_queues_upd(1) [OF same_queues_trans [OF registered_same same_queues_trans [OF timer_now_same timer_schedule_same]]])
       (simp add: queue_view_def)
  show ?thesis
    using run registered_same w unfolding set_active_eq Let_def by (auto split: if_splits)
qed

section \<open>A connection that was closed stays closed\<close>

lemma object_dec_ref_cases:
  assumes "object_dec_ref sig b S = Inr S'"
  obtains (shared) "S' = upd_obj b (\<lambda>x. x\<lparr>ref_count := ref_count x - 1\<rparr>) S"
  | (last) ev S1 S2 t where
      "S1 = upd_obj b (\<lambda>x. x\<lparr>ref_count := ref_count x - 1\<rparr>) S
         \<or> conn_deinit b (upd_obj b (\<lambda>x. x\<lparr>ref_count := ref_count x - 1\<rparr>) S) = Inr S1"
      "sig ev b (Lng 0) S1 = Inr S2" "S' = S2\<lparr>free_list := (free_list S2)(t := b # free_list S2 t)\<rparr>"
proof -
  let ?T = "upd_obj b (\<lambda>x. x\<lparr>ref_count := ref_count x - 1\<rparr>) S"
  have "S' = ?T \<or> object_destroy sig b ?T = Inr S'"
    using assms by (auto simp: object_dec_ref_def Let_def Inr_iff split: if_splits)
  then show ?thesis
  proof
    assume "object_destroy sig b ?T = Inr S'"
    then obtain S1 ev S2 where *: "S1 = ?T \<or> conn_deinit b ?T = Inr S1" "sig ev b (Lng 0) S1 = Inr S2"
      "S' = S2\<lparr>free_list := (free_list S2)(otype (objs ?T b) := b # free_list S2 (otype (objs ?T b)))\<rparr>"
      unfolding object_destroy_def Let_def by (cases "otype (objs ?T b)") (auto simp: Inr_iff)
    then show ?thesis by (rule last)
  qed (rule shared)
qed

definition closed :: "nat \<Rightarrow> ('cb, 'h, 'z) core_scheme \<Rightarrow> bool" where
  "closed a S \<longleftrightarrow> S_CLOSING \<le> state (conns S a)"

lemma closed_cong: "conns S' = conns S \<Longrightarrow> closed a S' = closed a S"
  by (simp add: closed_def)

lemma closed_upd: "closed a S \<Longrightarrow> (\<And>s. state (f s) = state s) \<Longrightarrow> closed a (upd_conn b f S)"
  by (auto simp: closed_def upd_conn_def simp del: conn_state_order)

lemma timer_cancel_closed: "closed a S \<Longrightarrow> returns (closed a) (timer_cancel t S)"
  using timer_cancel_frame [of t S] by (auto simp: returns_def closed_def)

lemma drop_watchdog_closed: "closed a S \<Longrightarrow> returns (closed a) (drop_watchdog b S)"
  unfolding drop_watchdog_def
  by (auto split: option.split intro!: returns_ebindI [OF timer_cancel_closed] closed_upd)

lemma close_socket_closed: "closed a S \<Longrightarrow> returns (closed a) (close_socket fd b S)"
proof -
  assume c: "closed a S"
  have "closed a (upd_conn b (\<lambda>s. s\<lparr>reading := False, writing := False\<rparr>) ((snd (syscall S))\<lparr>epoll_set := e\<rparr>))" for e
    using c syscall_frame [of S] by (intro closed_upd) (auto simp: closed_def)
  then show ?thesis by (auto simp: close_socket_def Let_def c_assert_def split: prod.split)
qed

lemma return_port_closed: "closed a S \<Longrightarrow> returns (closed a) (return_port b S)"
  by (auto simp: return_port_def returns_def Inr_iff closed_def)

context collectors
begin

lemma sig_closed: "closed a S \<Longrightarrow> returns (closed a) (sig ev b arg S)"
  using sig_observes [of ev b arg S] by (auto simp: returns_def closed_def observes_conn simp del: conn_state_order)

lemma object_destroy_closed: "closed a S \<Longrightarrow> returns (closed a) (object_destroy sig b S)"
proof -
  assume c: "closed a S"
  have d: "returns (closed a) (conn_deinit b S)"
    using c by (auto simp: returns_def conn_deinit_def Inr_iff upd_conn_def Let_def closed_def)
  have f: "closed a T \<Longrightarrow> closed a (T\<lparr>free_list := l\<rparr>)" for T :: "('a, 'b, 'c) core_scheme" and l by (simp add: closed_def)
  show ?thesis
    unfolding object_destroy_def Let_def
    by (cases "otype (objs S b)")
       (auto simp: returns_ebind intro!: c f returns_weaken [OF d] returns_weaken [OF sig_closed])
qed

lemma object_dec_ref_closed: "closed a S \<Longrightarrow> returns (closed a) (object_dec_ref sig b S)"
proof -
  assume "closed a S"
  then have "closed a (upd_obj b f S)" for f by (simp add: closed_def upd_obj_def)
  then show ?thesis
    by (auto simp: object_dec_ref_def Let_def c_assert_def object_destroy_closed)
qed

lemma release_calls_closed: "closed a S \<Longrightarrow> returns (closed a) (release_calls n follow sig p S)"
proof (induction n arbitrary: p S)
  case 0
  then show ?case by (cases p) simp_all
next
  case (Suc n)
  then show ?case
    by (cases p) (auto simp: Let_def intro: returns_ebindI [OF object_dec_ref_closed])
qed

lemma drop_calls_closed: "closed a S \<Longrightarrow> returns (closed a) (drop_calls n sig b S)"
  unfolding drop_calls_def Let_def
  by (intro returns_ebindI [where Q = "closed a"] release_calls_closed returns_InrI closed_upd) auto

lemma core_close_closed: "returns (closed a) (core_close n sig a S)"
proof (cases "closed a S")
  case True
  then show ?thesis by (simp add: core_close_def closed_def)
next
  case False
  then have op: "\<not> S_CLOSING \<le> state (conns S a)" by (simp add: closed_def)
  have "closed a (upd_conn a (\<lambda>s. s\<lparr>state := S_CLOSING\<rparr>) S)" by (simp add: closed_def upd_conn_def)
  note start = drop_watchdog_closed [OF this]
  show ?thesis
    unfolding core_close_def Let_def if_not_P [OF op]
    by (intro returns_ebindI [where Q = "closed a"] returns_c_assert returns_if start drop_calls_closed sig_closed
        object_dec_ref_closed close_socket_closed return_port_closed closed_upd returns_InrI; simp)
qed

lemma conn_failure_closed: "returns (closed a) (conn_failure n sig a err S)"
  by (cases "sig EV_CONN_FAILED a (Lng err) S") (simp_all add: conn_failure_def core_close_closed)

end

section \<open>A request that was written passes to the receive queue\<close>

lemma chain_append:
  "chain follow cs p xs \<Longrightarrow> xs \<noteq> [] \<Longrightarrow> distinct xs \<Longrightarrow> c \<notin> set xs \<Longrightarrow>
     (\<And>x. x \<noteq> last xs \<Longrightarrow> follow (cs' x) = (if x = c then None else follow (cs x))) \<Longrightarrow> follow (cs' (last xs)) = Some c \<Longrightarrow>
     chain follow cs' p (xs @ [c])"
proof (induction xs arbitrary: p)
  case (Cons x xs)
  show ?case
  proof (cases "xs = []")
    case True
    then have "follow (cs' c) = None" using Cons.prems(4,5) by (metis last_ConsL list.set_intros(1))
    then show ?thesis using True Cons.prems by auto
  next
    case False
    have "x \<noteq> last xs" "x \<noteq> c" using Cons.prems(3,4) False by auto
    then have "follow (cs' x) = follow (cs x)" using Cons.prems(5) [of x] False by simp
    then show ?thesis using Cons.IH [of "follow (cs x)"] Cons.prems False by auto
  qed
qed simp

definition req_done :: "(nat \<Rightarrow> iovec list) \<Rightarrow> ('cb, 'h, 'z) core_scheme \<Rightarrow> nat \<Rightarrow> bool" where
  "req_done orig S c \<longleftrightarrow> iov (calls S c) = orig c"

text \<open>The state of a connection during sending, as one relation.\<close>

definition send_state :: "(nat \<Rightarrow> iovec list) \<Rightarrow> ('cb, 'h, 'z) core_scheme \<Rightarrow> nat \<Rightarrow> nat list \<Rightarrow> nat list \<Rightarrow> string \<Rightarrow> bool" where
  "send_state orig S a sq rq stream \<longleftrightarrow> queues S a sq rq \<and> sending orig S sq
     \<and> wire S (sd (conns S a)) @ unsent S sq = stream"

lemma send_state_same:
  "same_queues S S' \<Longrightarrow> send_state orig S' a sq rq stream = send_state orig S a sq rq stream"
  unfolding send_state_def by (simp add: same_queues_cong same_queuesD)

lemma req_done_same: "same_queues S S' \<Longrightarrow> req_done orig S' c = req_done orig S c"
  by (simp add: req_done_def same_queuesD)

lemma upd_conn_calls: "calls (upd_conn a f S) = calls S"
  by (simp add: upd_conn_def)

lemma send_state_set_state:
  "send_state orig (upd_conn a (\<lambda>s. s\<lparr>state := x\<rparr>) S) a sq rq stream = send_state orig S a sq rq stream"
  by (simp add: send_state_def queues_def sending_def unsent_def upd_conn_def)

lemma send_state_pop:
  assumes "queues S a (c # sq) rq" "sending orig S sq" "wire S (sd (conns S a)) @ unsent S (c # sq) = stream"
    and "iov_index (calls S c) = length (iov (calls S c))"
  defines "T \<equiv> upd_conn a (\<lambda>s. s\<lparr>sendq := sendq_next (calls S c)\<rparr>) S"
  shows "send_state orig T a sq rq stream"
    "sq = [] \<Longrightarrow> send_state orig (upd_conn a (\<lambda>s. s\<lparr>sendq_tail := None\<rparr>) T) a sq rq stream"
    "sendq (conns T a) = None \<longleftrightarrow> sq = []"
  using assms(1-4) unfolding T_def
  by (cases sq; auto simp: send_state_def queues_def sending_def unsent_def upd_conn_def)+

lemma send_state_recvq:
  assumes "send_state orig S a sq rq stream" "c \<notin> set sq" "c \<notin> set rq"
    and "move_to_recvq a c S = Inr S'"
  shows "send_state orig S' a sq (rq @ [c]) stream" "\<And>d. iov (calls S' d) = iov (calls S d)"
    "\<And>b. state (conns S' b) = state (conns S b)"
proof -
  have q: "queues S a sq rq" "sending orig S sq" "wire S (sd (conns S a)) @ unsent S sq = stream"
    using assms(1) by (simp_all add: send_state_def)
  have f: "wire S' = wire S" "sd (conns S' a) = sd (conns S a)"
    "\<And>d. iov (calls S' d) = iov (calls S d)" "\<And>d. sendq_next (calls S' d) = sendq_next (calls S d)"
    "\<And>d. iov_index (calls S' d) = iov_index (calls S d)" "\<And>d. iov_saved (calls S' d) = iov_saved (calls S d)"
    "sendq (conns S' a) = sendq (conns S a)" "sendq_tail (conns S' a) = sendq_tail (conns S a)"
    using assms(4) by (auto simp: move_to_recvq_def Let_def upd_call_def upd_conn_def Inr_iff split: option.splits)
  then have sent: "sending orig S' sq" "unsent S' sq = unsent S sq"
    using q(2) by (simp_all add: sending_def unsent_def)
  have chain: "chain recvq_next (calls S') (recvq (conns S' a)) (rq @ [c]) \<and> recvq_tail (conns S' a) = Some c"
  proof (cases "rq = []")
    case True
    then show ?thesis using assms(4) q(1)
      by (auto simp: move_to_recvq_def Let_def upd_call_def upd_conn_def queues_def)
  next
    case False
    then obtain r where r: "recvq (conns S a) = Some r" using q(1) by (cases rq) (auto simp: queues_def)
    have S': "calls S' = (calls S)(c := (calls S c)\<lparr>recvq_next := None\<rparr>, last rq := (calls S (last rq))\<lparr>recvq_next := Some c\<rparr>)"
      "recvq (conns S' a) = recvq (conns S a)" "recvq_tail (conns S' a) = Some c"
      using assms(3,4) q(1) r False
      by (auto simp: move_to_recvq_def Let_def upd_call_def upd_conn_def queues_def Inr_iff)
    have "chain recvq_next (calls S') (recvq (conns S a)) (rq @ [c])"
      by (rule chain_append [where cs = "calls S"]) (use q(1) False assms(3) in \<open>auto simp: queues_def S'(1)\<close>)
    then show ?thesis using S' by simp
  qed
  have "chain sendq_next (calls S') (sendq (conns S' a)) sq"
    using q(1) call_chain_cong [of sq sendq_next "calls S'" "calls S"] f by (simp add: queues_def)
  then have "queues S' a sq (rq @ [c])"
    using q(1) chain f assms(2,3) by (auto simp: queues_def)
  then show "send_state orig S' a sq (rq @ [c]) stream" using sent f q by (simp add: send_state_def)
qed (use assms(4) in \<open>auto simp: move_to_recvq_def Let_def upd_call_def upd_conn_def Inr_iff split: option.splits\<close>)


lemma take_drop_append: "take k xs @ drop k xs @ ys = xs @ ys"
  by (simp flip: append_assoc)

lemma written_progress:
  assumes st: "send_state orig S a (c # sq) rq stream"
    and T: "sys_writev (sd (conns S a)) (pending_bytes (iov_index (calls S c)) (iov (calls S c))) S = (Some k, T)"
  defines "U \<equiv> written c k T"
  shows "wire U (sd (conns U a)) @ unsent U (c # sq) = stream" "queues U a (c # sq) rq"
    "if iov_index (calls U c) < length (iov (calls U c)) then sending orig U (c # sq)
     else sending orig U sq \<and> req_done orig U c \<and> iov_index (calls U c) = length (iov (calls U c))"
    "\<And>d. d \<noteq> c \<Longrightarrow> iov (calls U d) = iov (calls S d)" "\<And>b. state (conns U b) = state (conns S b)"
proof -
  let ?fd = "sd (conns S a)" and ?q = "calls S c"
  let ?p = "pending_bytes (iov_index ?q) (iov ?q)"
  obtain i iovs saved where adv: "advance_iov (indet_iovec S) (iov_index ?q) k (iov ?q) (iov_saved ?q) = (i, iovs, saved)"
    by (cases "advance_iov (indet_iovec S) (iov_index ?q) k (iov ?q) (iov_saved ?q)") auto
  have k: "k \<le> length ?p" "T = S\<lparr>writes_done := Suc (writes_done S), errno := 0,
      wire := (wire S)(?fd := wire S ?fd @ take k ?p)\<rparr>"
    using T by (auto simp: sys_writev_def Let_def split: write_answer.splits)
  have U: "U = upd_call c (\<lambda>q. q\<lparr>req_size := req_size q + of_nat k, iov_index := i, iov := iovs, iov_saved := saved\<rparr>) T"
    using adv by (simp add: U_def written_def k(2) Let_def)
  have c: "calls U c = ?q\<lparr>req_size := req_size ?q + of_nat k, iov_index := i, iov := iovs, iov_saved := saved\<rparr>"
    and d: "\<And>d. d \<noteq> c \<Longrightarrow> calls U d = calls S d"
    by (simp_all add: U k(2) upd_call_def)
  have q: "queues S a (c # sq) rq" "sending orig S (c # sq)" "wire S ?fd @ unsent S (c # sq) = stream"
    using st by (simp_all add: send_state_def)
  then have csq: "c \<notin> set sq" by (simp add: queues_def)
  have prog: "\<forall>v \<in> set (orig c). wf_iov v" "in_progress (orig c) (iov_index ?q) (iov ?q) (iov_saved ?q)"
    using q(2) by (simp_all add: sending_def)
  note ad = advance_iov_progress [OF prog k(1) adv]
  have "unsent U sq = unsent S sq" by (rule unsent_cong) (use csq d in metis)
  moreover have "pending_bytes i iovs = drop k ?p" using ad by simp
  moreover have "wire U (sd (conns U a)) = wire S ?fd @ take k ?p" by (simp add: U k(2) upd_call_def)
  ultimately show "wire U (sd (conns U a)) @ unsent U (c # sq) = stream"
    using q(3) by (simp add: unsent_def c take_drop_append)
  have cn: "conns U = conns S" by (simp add: U k(2) upd_call_def)
  have n: "sendq_next (calls U d) = sendq_next (calls S d) \<and> recvq_next (calls U d) = recvq_next (calls S d)" for d
    using d [of d] by (cases "d = c", simp_all only: c) simp_all
  show "queues U a (c # sq) rq"
    using q(1) call_chain_cong [of sq sendq_next "calls U" "calls S"] call_chain_cong [of rq recvq_next "calls U" "calls S"]
    by (simp add: queues_def n cn)
  have "sending orig U sq = sending orig S sq" by (rule sending_cong) (use csq d in metis)
  then have rest: "sending orig U sq" using q(2) by (simp add: sending_def)
  show "if iov_index (calls U c) < length (iov (calls U c)) then sending orig U (c # sq)
     else sending orig U sq \<and> req_done orig U c \<and> iov_index (calls U c) = length (iov (calls U c))"
    using ad rest prog(1) by (auto simp: c sending_def req_done_def in_progress_def split: if_splits)
  show "\<And>d. d \<noteq> c \<Longrightarrow> iov (calls U d) = iov (calls S d)" using d by simp
  show "\<And>b. state (conns U b) = state (conns S b)" by (simp add: cn)
qed

context collectors
begin

lemma sig_same: "sig ev a arg S = Inr S' \<Longrightarrow> same_queues S S'"
  by (rule observes_same_queues [OF sig_observes])

end

text \<open>The outcome of sending: closed, or the finished requests are at the end of the receive queue.\<close>

definition sent_some :: "(nat \<Rightarrow> iovec list) \<Rightarrow> nat \<Rightarrow> nat list \<Rightarrow> nat list \<Rightarrow> string
    \<Rightarrow> ('cb, 'h, 'z) core_scheme \<Rightarrow> ('cb, 'h, 'z) core_scheme \<Rightarrow> bool" where
  "sent_some orig a sq rq stream S S' \<longleftrightarrow> closed a S' \<or>
     (\<exists>fin rest. sq = fin @ rest \<and> send_state orig S' a rest (rq @ fin) stream
        \<and> (\<forall>c \<in> set fin. req_done orig S' c) \<and> (\<forall>c. c \<notin> set sq \<longrightarrow> iov (calls S' c) = iov (calls S c)))"

lemma sent_someI:
  "send_state orig S' a rest (rq @ fin) stream \<Longrightarrow> sq = fin @ rest \<Longrightarrow> \<forall>c \<in> set fin. req_done orig S' c
   \<Longrightarrow> \<forall>c. c \<notin> set sq \<longrightarrow> iov (calls S' c) = iov (calls S c) \<Longrightarrow> sent_some orig a sq rq stream S S'"
  unfolding sent_some_def by blast

locale engine_collectors = collectors sig
  for sig :: "(callback_id, 'h, 'z) signal"
begin

lemma expect_reply_some:
  assumes st: "send_state orig S a sq rq stream" "c \<notin> set sq" "c \<notin> set rq"
    and run: "expect_reply sig a c S = Inr (go, S')" and op: "\<not> closed a S"
  shows "\<not> closed a S' \<and> send_state orig S' a sq (rq @ [c]) stream \<and> (go \<longrightarrow> sq \<noteq> [])
     \<and> (\<forall>d. iov (calls S' d) = iov (calls S d))"
proof -
  from run obtain S3 S4 where S3: "move_to_recvq a c S = Inr S3"
    and S4: "set_active a READ (set_recv_timeout c S3) = Inr S4"
    and rest: "(let S = (if state (conns S4 a) < S_REPLY_STATUS then upd_conn a (\<lambda>s. s\<lparr>state := S_REPLY_STATUS\<rparr>) S4 else S4) in
        case sendq (conns S a) of None \<Rightarrow> Inr (False, S)
        | Some c' \<Rightarrow> ebind (sig EV_CALL_SEND_START c' (Lng 0) S) (\<lambda>S. Inr (state (conns S a) < S_CLOSING, S))) = Inr (go, S')"
    unfolding expect_reply_def ebind_Inr_iff by blast
  note rq = send_state_recvq [OF st S3]
  have same4: "same_queues S3 S4" using set_timeout_same(2) set_active_same [OF S4] same_queues_trans by blast
  define S5 where "S5 = (if state (conns S4 a) < S_REPLY_STATUS then upd_conn a (\<lambda>s. s\<lparr>state := S_REPLY_STATUS\<rparr>) S4 else S4)"
  note rest = rest [unfolded Let_def, folded S5_def]
  have st5: "send_state orig S5 a sq (rq @ [c]) stream" "iov (calls S5 d) = iov (calls S d)" for d
    using rq(1,2) unfolding S5_def
    by (simp_all add: send_state_set_state send_state_same [OF same4] same_queuesD [OF same4] upd_conn_calls
      del: conn_state_order)
  have op5: "\<not> closed a S5"
    using op rq(3) by (auto simp: S5_def closed_def upd_conn_def same_queuesD [OF same4])
  show ?thesis
  proof (cases "sendq (conns S5 a)")
    case None
    then show ?thesis using rest st5 op5 by simp
  next
    case (Some c')
    then have "sq \<noteq> []" using st5(1) by (cases sq) (auto simp: send_state_def queues_def)
    moreover obtain S6 where "sig EV_CALL_SEND_START c' (Lng 0) S5 = Inr S6" "S' = S6"
      using rest Some by (auto simp: Inr_iff)
    moreover note sig_same [OF this(1)]
    ultimately show ?thesis using st5 op5 by (simp add: send_state_same same_queuesD closed_def del: conn_state_order)
  qed
qed

lemma request_sent_some:
  assumes st: "queues S a (c # sq) rq" "sending orig S sq" "wire S (sd (conns S a)) @ unsent S (c # sq) = stream"
    and don: "iov_index (calls S c) = length (iov (calls S c))"
    and run: "request_sent sig a c S = Inr (go, S')" and op: "\<not> closed a S"
  shows "\<not> closed a S' \<and> send_state orig S' a sq (rq @ [c]) stream \<and> (go \<longrightarrow> sq \<noteq> [])
     \<and> (\<forall>d. iov (calls S' d) = iov (calls S d))"
proof -
  define T where "T = upd_conn a (\<lambda>s. s\<lparr>sendq := sendq_next (calls S c)\<rparr>) S"
  note pop = send_state_pop [OF st don, folded T_def]
  have fresh: "c \<notin> set sq" "c \<notin> set rq" using st by (auto simp: queues_def)
  from run obtain S1 S2 where
    S1: "(if sendq (conns T a) = None then clear_active a WRITE (upd_conn a (\<lambda>s. s\<lparr>sendq_tail := None\<rparr>) T) else Inr T) = Inr S1"
    and S2: "sig EV_CALL_SEND_STOP c (Lng 0) S1 = Inr S2"
    and rest: "(if S_CLOSING \<le> state (conns S2 a) then ebind (object_dec_ref sig c S2) (\<lambda>S. Inr (False, S))
      else expect_reply sig a c S2) = Inr (go, S')"
    unfolding request_sent_def Let_def ebind_Inr_iff T_def [symmetric] by blast
  have T: "state (conns T a) = state (conns S a)" "calls T = calls S" by (simp_all add: T_def upd_conn_def)
  have st1: "send_state orig S1 a sq rq stream \<and> state (conns S1 a) = state (conns S a)
      \<and> (\<forall>d. iov (calls S1 d) = iov (calls S d))"
  proof (cases "sq = []")
    case True
    let ?T = "upd_conn a (\<lambda>s. s\<lparr>sendq_tail := None\<rparr>) T"
    have "same_queues ?T S1" using S1 pop(3) True by (auto intro: clear_active_same)
    moreover have "state (conns ?T a) = state (conns S a)" "calls ?T = calls S" using T by (simp_all add: upd_conn_def)
    ultimately show ?thesis using pop(2) [OF True] by (simp add: send_state_same same_queuesD)
  next
    case False
    then show ?thesis using S1 pop T by auto
  qed
  note same2 = sig_same [OF S2]
  have st2: "send_state orig S2 a sq rq stream" "state (conns S2 a) = state (conns S a)"
    "\<And>d. iov (calls S2 d) = iov (calls S d)"
    using st1 by (simp_all add: send_state_same [OF same2] same_queuesD [OF same2])
  have op2: "\<not> closed a S2" using op st2(2) by (simp add: closed_def)
  then have "expect_reply sig a c S2 = Inr (go, S')" using rest by (simp add: closed_def)
  from expect_reply_some [OF st2(1) fresh this op2] show ?thesis using st2(3) by simp
qed

lemma send_step_some:
  assumes st: "send_state orig S a sq rq stream" and op: "\<not> closed a S"
    and run: "send_step n sig a S = Inr (go, S')"
  shows "sent_some orig a sq rq stream S S' \<and> (go \<longrightarrow> \<not> closed a S' \<and>
     (\<exists>c rest. sq = c # rest \<and> rest \<noteq> [] \<and> send_state orig S' a rest (rq @ [c]) stream \<and> req_done orig S' c))"
proof -
  from run st obtain c where q: "sendq (conns S a) = Some c"
    by (auto simp: send_step_def Let_def split: option.splits)
  with st obtain sq' where sq: "sq = c # sq'" by (cases sq) (auto simp: send_state_def queues_def)
  from run q obtain S1 where S1: "sig EV_CALL_SEND_RAW_DATA c (Lng 0) S = Inr S1"
    by (auto simp: send_step_def Let_def Inr_iff)
  note same1 = sig_same [OF S1]
  have st1: "send_state orig S1 a (c # sq') rq stream" "\<not> closed a S1"
    using st op sq by (simp_all add: send_state_same [OF same1] closed_def same_queuesD [OF same1])
  let ?w = "sys_writev (sd (conns S a)) (pending_bytes (iov_index (calls S1 c)) (iov (calls S1 c))) S1"
  have sd: "sd (conns S a) = sd (conns S1 a)" by (simp add: same_queuesD [OF same1])
  show ?thesis
  proof (cases ?w)
    case (Pair r T)
    show ?thesis
    proof (cases r)
      case None
      have T: "same_queues S1 T"
        using Pair None by (auto simp: sys_writev_def same_queues_def Let_def split: write_answer.splits)
      show ?thesis
      proof (cases "errno T = EAGAIN")
        case True
        then have "S' = T" "\<not> go" using run q S1 Pair None by (simp_all add: send_step_def)
        then show ?thesis using st1 sq same1 T
          by (auto intro!: sent_someI [where fin = "[]"] simp: send_state_same [OF T] same_queuesD)
      next
        case False
        then obtain err U where "conn_failure n sig a err U = Inr S'" "\<not> go"
          using run q S1 Pair None by (auto simp: send_step_def Inr_iff Let_def)
        then show ?thesis using conn_failure_closed [of a n err U] by (auto simp: sent_some_def returns_def)
      qed
    next
      case (Some k)
      note wr = written_progress [OF st1(1), folded sd, OF Pair [unfolded Some]]
      let ?U = "written c k T"
      have opU: "\<not> closed a ?U" using st1(2) wr(5) by (simp add: closed_def)
      have c: "c \<notin> set sq'" using st1(1) by (simp add: send_state_def queues_def)
      show ?thesis
      proof (cases "iov_index (calls ?U c) < length (iov (calls ?U c))")
        case True
        then obtain "set_active a WRITE (set_send_timeout c ?U) = Inr S'" and ng: "\<not> go"
          using run q S1 Pair Some by (auto simp: send_step_def Inr_iff Let_def)
        then have same: "same_queues ?U S'" using set_timeout_same(1) set_active_same same_queues_trans by blast
        have "send_state orig ?U a (c # sq') rq stream" using wr(1-3) True by (simp add: send_state_def)
        then show ?thesis using ng sq wr(4)
          by (auto intro!: sent_someI [where fin = "[]"] simp: send_state_same [OF same] same_queuesD [OF same] same_queuesD [OF same1])
      next
        case False
        then have run': "request_sent sig a c ?U = Inr (go, S')"
          using run q S1 Pair Some by (auto simp: send_step_def Let_def)
        have don: "sending orig ?U sq'" "req_done orig ?U c" "iov_index (calls ?U c) = length (iov (calls ?U c))"
          using wr(3) False by auto
        note sent = request_sent_some [OF wr(2) don(1) wr(1) don(3) run' opU]
        then have "req_done orig S' c" using don(2) by (simp add: req_done_def)
        moreover have "sent_some orig a (c # sq') rq stream S S'"
          by (rule sent_someI [where fin = "[c]"])
             (use sent calculation wr(4) in \<open>auto simp: same_queuesD [OF same1]\<close>)
        ultimately show ?thesis using sent sq by blast
      qed
    qed
  qed
qed

end

section \<open>The loop\<close>

context engine_collectors
begin

lemma do_send_some:
  "send_state orig S a sq rq stream \<Longrightarrow> \<not> closed a S \<Longrightarrow> do_send n sig a S = Inr S' \<Longrightarrow>
     sent_some orig a sq rq stream S S'"
proof (induction n arbitrary: S sq rq)
  case (Suc n)
  then obtain go S1 where step: "send_step n sig a S = Inr (go, S1)"
    and rest: "(if go then do_send n sig a S1 else Inr S1) = Inr S'"
    by (auto simp: Inr_iff)
  note one = send_step_some [OF Suc.prems(1,2) step]
  show ?case
  proof (cases go)
    case False
    then show ?thesis using one rest by simp
  next
    case True
    with one obtain c sq' where c: "\<not> closed a S1" "sq = c # sq'" "send_state orig S1 a sq' (rq @ [c]) stream"
      "req_done orig S1 c" by blast
    have others: "\<forall>d. d \<notin> set sq \<longrightarrow> iov (calls S1 d) = iov (calls S d)"
      using one c(1) by (auto simp: sent_some_def)
    have "c \<notin> set sq'" using Suc.prems(1) c(2) by (simp add: send_state_def queues_def)
    have "sent_some orig a sq' (rq @ [c]) stream S1 S'" using Suc.IH [OF c(3,1)] True rest by simp
    then consider "closed a S'" | fin rs where "sq' = fin @ rs" "send_state orig S' a rs ((rq @ [c]) @ fin) stream"
      "\<forall>d \<in> set fin. req_done orig S' d" "\<forall>d. d \<notin> set sq' \<longrightarrow> iov (calls S' d) = iov (calls S1 d)"
      by (auto simp: sent_some_def)
    then show ?thesis
    proof cases
      case 2
      show ?thesis
        by (rule sent_someI [where fin = "c # fin" and rest = rs])
           (use 2 c others \<open>c \<notin> set sq'\<close> in \<open>auto simp: req_done_def\<close>)
    qed (simp add: sent_some_def)
  qed
qed simp

end

section \<open>The fuel suffices\<close>

definition in_fuel :: "'a result \<Rightarrow> bool" where
  "in_fuel m \<longleftrightarrow> m \<noteq> Inl Out_of_fuel"

lemma in_fuel_simps [simp]: "in_fuel (Inr x)" "in_fuel (Inl Assertion)" "in_fuel (Inl Undefined)" "in_fuel (Inl (Exit k))"
  by (simp_all add: in_fuel_def)

lemma in_fuel_ebind: "in_fuel m \<Longrightarrow> (\<And>x. m = Inr x \<Longrightarrow> in_fuel (f x)) \<Longrightarrow> in_fuel (ebind m f)"
  by (cases m) (auto simp: in_fuel_def)

lemma in_fuel_basic:
  "in_fuel (deref p)" "in_fuel (nth_c xs i)" "in_fuel (update_c xs i x)" "in_fuel (c_assert b s)"
  by (auto simp: deref_def nth_c_def update_c_def c_assert_def split: option.split)

lemma port_put_in_fuel: "in_fuel (port_put addr p)"
  by (auto simp: port_put_def Let_def update_c_def nth_c_def intro!: in_fuel_ebind in_fuel_basic)

lemma timer_cancel_in_fuel: "in_fuel (timer_cancel t S)"
  by (auto simp: timer_cancel_def intro: in_fuel_ebind in_fuel_basic)

lemma in_fuel_steps:
  "in_fuel (conn_deinit a S)" "in_fuel (drop_watchdog a S)" "in_fuel (close_socket fd a S)" "in_fuel (return_port a S)"
  by (auto simp: conn_deinit_def drop_watchdog_def close_socket_def return_port_def Let_def
      intro!: in_fuel_ebind in_fuel_basic timer_cancel_in_fuel port_put_in_fuel split: option.split prod.split)

text \<open>Steps that leave the links between the calls alone.\<close>

definition same_links :: "('cb, 'h, 'z) core_scheme \<Rightarrow> ('cb, 'h, 'z) core_scheme \<Rightarrow> bool" where
  "same_links S S' \<longleftrightarrow>
     (\<forall>c. sendq_next (calls S' c) = sendq_next (calls S c) \<and> recvq_next (calls S' c) = recvq_next (calls S c))
     \<and> (\<forall>a. sendq (conns S' a) = sendq (conns S a) \<and> recvq (conns S' a) = recvq (conns S a))"

lemma same_queues_links: "same_queues S S' \<Longrightarrow> same_links S S'"
  by (simp add: same_links_def same_queuesD)

lemma same_links_refl [simp]: "same_links S S"
  by (simp add: same_links_def)

lemma same_links_trans [trans]: "same_links S T \<Longrightarrow> same_links T U \<Longrightarrow> same_links S U"
  by (simp add: same_links_def)

lemma same_links_upd:
  "same_links S S' \<Longrightarrow> (\<And>s. sendq (f s) = sendq s \<and> recvq (f s) = recvq s) \<Longrightarrow> same_links S (upd_conn a f S')"
  by (auto simp: same_links_def upd_conn_def)

lemma same_links_cong:
  assumes "same_links S S'"
  shows "chain sendq_next (calls S') p xs = chain sendq_next (calls S) p xs"
    "chain recvq_next (calls S') p xs = chain recvq_next (calls S) p xs"
    "sendq (conns S' a) = sendq (conns S a)" "recvq (conns S' a) = recvq (conns S a)"
  using assms call_chain_cong [of xs sendq_next "calls S'" "calls S" p] call_chain_cong [of xs recvq_next "calls S'" "calls S" p]
  by (simp_all add: same_links_def)

lemma conn_deinit_links: "conn_deinit a S = Inr S' \<Longrightarrow> same_links S S'"
  by (auto simp: conn_deinit_def Let_def Inr_iff same_links_def upd_conn_def)

lemma drop_watchdog_links: "drop_watchdog a S = Inr S' \<Longrightarrow> same_links S S'"
  by (auto simp: drop_watchdog_def timer_cancel_def Inr_iff same_links_def upd_conn_def split: option.splits)

context collectors
begin

lemma object_dec_ref_links: "object_dec_ref sig b S = Inr S' \<Longrightarrow> same_links S S'"
proof (erule object_dec_ref_cases)
  fix ev S1 S2 t
  assume *: "S1 = upd_obj b (\<lambda>x. x\<lparr>ref_count := ref_count x - 1\<rparr>) S \<or>
      conn_deinit b (upd_obj b (\<lambda>x. x\<lparr>ref_count := ref_count x - 1\<rparr>) S) = Inr S1"
    "sig ev b (Lng 0) S1 = Inr S2" "S' = S2\<lparr>free_list := (free_list S2)(t := b # free_list S2 t)\<rparr>"
  have "same_links S S1" using *(1) by (auto simp: same_links_def upd_obj_def dest!: conn_deinit_links)
  moreover have "same_links S1 S2" using same_queues_links [OF sig_same [OF *(2)]] .
  moreover have "same_links S2 S'" by (simp add: *(3) same_links_def)
  ultimately show ?thesis using same_links_trans by blast
qed (simp add: same_links_def upd_obj_def)

lemma release_calls_links: "release_calls n follow sig p S = Inr S' \<Longrightarrow> same_links S S'"
proof (induction n arbitrary: p S)
  case 0
  then show ?case by (cases p) auto
next
  case (Suc n)
  then show ?case
    by (cases p) (auto simp: Inr_iff Let_def dest!: object_dec_ref_links intro: same_links_trans)
qed

end

text \<open>Collectors that do not run out of fuel themselves.\<close>

locale engine_collectors_total = engine_collectors sig for sig :: "(callback_id, 'h, 'z) signal" +
  assumes sig_in_fuel: "in_fuel (sig ev a arg S)"
begin

lemma object_dec_ref_in_fuel: "in_fuel (object_dec_ref sig b S)"
  unfolding object_dec_ref_def object_destroy_def Let_def
  by (auto intro!: in_fuel_ebind in_fuel_basic sig_in_fuel in_fuel_steps split: object_type.split)

lemma release_calls_in_fuel:
  assumes "follow = sendq_next \<or> follow = recvq_next"
  shows "chain follow (calls S) p xs \<Longrightarrow> length xs \<le> n \<Longrightarrow> in_fuel (release_calls n follow sig p S)"
proof (induction xs arbitrary: n p S)
  case Nil
  then show ?case by (cases n) auto
next
  case (Cons c xs)
  then obtain m where n: "n = Suc m" "length xs \<le> m" by (cases n) auto
  have "in_fuel (release_calls m follow sig (follow (calls S c)) T)" if "object_dec_ref sig c S = Inr T" for T
    using Cons.IH [of T "follow (calls S c)" m] Cons.prems n assms same_links_cong [OF object_dec_ref_links [OF that]]
    by auto
  then show ?case using Cons.prems n by (auto simp: Let_def intro: in_fuel_ebind object_dec_ref_in_fuel)
qed

lemma core_close_in_fuel:
  assumes "queues S a sq rq" "length sq \<le> n" "length rq \<le> n"
  shows "in_fuel (core_close n sig a S)"
proof -
  have drop: "in_fuel (drop_calls n sig a T)" if T: "same_links S T" for T
  proof -
    have q: "chain sendq_next (calls T) (sendq (conns T a)) sq" "chain recvq_next (calls T) (recvq (conns T a)) rq"
      using assms(1) same_links_cong [OF T] by (simp_all add: queues_def)
    have rel: "in_fuel (release_calls n recvq_next sig (recvq (conns T1 a)) (upd_conn a (\<lambda>s. s\<lparr>sendq := None\<rparr>) T1))"
      if "release_calls n sendq_next sig (sendq (conns T a)) T = Inr T1" for T1
    proof (rule release_calls_in_fuel [of recvq_next])
      show "chain recvq_next (calls (upd_conn a (\<lambda>s. s\<lparr>sendq := None\<rparr>) T1)) (recvq (conns T1 a)) rq"
        using q(2) same_links_cong [OF release_calls_links [OF that]] by (simp add: upd_conn_def)
    qed (use assms(3) in auto)
    show ?thesis
      unfolding drop_calls_def Let_def
      by (auto intro!: in_fuel_ebind release_calls_in_fuel [OF _ q(1) assms(2)] simp: rel [unfolded upd_conn_def] upd_conn_def)
  qed
  have "same_links S T" if "drop_watchdog a (upd_conn a (\<lambda>s. s\<lparr>state := S_CLOSING\<rparr>) S) = Inr T" for T
    using drop_watchdog_links [OF that] by (auto simp: same_links_def upd_conn_def split: if_splits)
  then show ?thesis
    unfolding core_close_def Let_def
    by (auto intro!: in_fuel_ebind in_fuel_basic in_fuel_steps drop sig_in_fuel object_dec_ref_in_fuel)
qed

end

lemma set_active_in_fuel: "in_fuel (set_active a d S)" "in_fuel (clear_active a d S)"
  by (auto simp: set_active_eq clear_active_def Let_def split: prod.split io_dir.split)

context engine_collectors_total
begin

lemma conn_failure_in_fuel:
  assumes "queues S a sq rq" "length sq \<le> n" "length rq \<le> n"
  shows "in_fuel (conn_failure n sig a err S)"
  unfolding conn_failure_def
  by (rule in_fuel_ebind [OF sig_in_fuel])
     (use core_close_in_fuel [OF _ assms(2,3)] assms(1) same_queues_cong(1) [OF sig_same] in metis)

lemma request_sent_in_fuel: "in_fuel (request_sent sig a c S)"
  unfolding request_sent_def expect_reply_def move_to_recvq_def Let_def
  by (auto intro!: in_fuel_ebind in_fuel_basic set_active_in_fuel sig_in_fuel object_dec_ref_in_fuel split: option.split)

lemma send_step_in_fuel:
  assumes st: "send_state orig S a sq rq stream" and n: "length sq \<le> n" "length rq \<le> n"
  shows "in_fuel (send_step n sig a S)"
proof (cases "sendq (conns S a)")
  case None
  then show ?thesis by (simp add: send_step_def)
next
  case (Some c)
  have "in_fuel (case sys_writev (sd (conns S a)) (pending_bytes (iov_index (calls S1 c)) (iov (calls S1 c))) S1 of
          (None, S) \<Rightarrow> if errno S = EAGAIN then Inr (False, S)
            else ebind (conn_failure n sig a (errno (take_async_error S)) (take_async_error S)) (\<lambda>S. Inr (False, S))
        | (Some k, S) \<Rightarrow>
            if iov_index (calls (written c k S) c) < length (iov (calls (written c k S) c)) then
              ebind (set_active a WRITE (set_send_timeout c (written c k S))) (\<lambda>S. Inr (False, S))
            else request_sent sig a c (written c k S))"
    if S1: "sig EV_CALL_SEND_RAW_DATA c (Lng 0) S = Inr S1" for S1
  proof (cases "sys_writev (sd (conns S a)) (pending_bytes (iov_index (calls S1 c)) (iov (calls S1 c))) S1")
    case (Pair r T)
    have "in_fuel (conn_failure n sig a err (take_async_error T))" if "r = None" for err
    proof (rule conn_failure_in_fuel [OF _ n])
      have "same_queues S1 T"
        using Pair that by (auto simp: sys_writev_def same_queues_def Let_def split: write_answer.splits)
      then have "same_queues S (take_async_error T)"
        using sig_same [OF S1] take_async_error_same same_queues_trans by blast
      then show "queues (take_async_error T) a sq rq"
        using st by (simp add: same_queues_cong send_state_def)
    qed
    then show ?thesis
      using Pair by (auto intro!: in_fuel_ebind set_active_in_fuel request_sent_in_fuel split: option.split)
  qed
  then show ?thesis
    unfolding send_step_def Let_def Some option.case by (rule in_fuel_ebind [OF sig_in_fuel])
qed

lemma do_send_in_fuel:
  "send_state orig S a sq rq stream \<Longrightarrow> \<not> closed a S \<Longrightarrow> 2 * length sq + length rq < n \<Longrightarrow>
     in_fuel (do_send n sig a S)"
proof (induction n arbitrary: S sq rq)
  case (Suc n)
  have "in_fuel (if go then do_send n sig a S1 else Inr S1)" if step: "send_step n sig a S = Inr (go, S1)" for go S1
  proof (cases go)
    case True
    then obtain c sq' where "\<not> closed a S1" "sq = c # sq'" "send_state orig S1 a sq' (rq @ [c]) stream"
      using send_step_some [OF Suc.prems(1,2) step] by blast
    then show ?thesis using Suc.IH [of S1 sq' "rq @ [c]"] Suc.prems(3) True by auto
  qed simp
  then show ?case
    using send_step_in_fuel [OF Suc.prems(1)] Suc.prems(3) by (auto intro!: in_fuel_ebind)
qed simp

end

section \<open>Queueing a request\<close>

text \<open>The text of a request for \<open>u\<close> under the parameters \<open>p\<close> on the connection \<open>s\<close>.\<close>

definition protocol_text :: "params \<Rightarrow> string" where
  "protocol_text p =
     (if http_version p = 0x10000 then (if no_host_hdr p then http10req_nohost else http10req)
      else (if no_host_hdr p then http11req_nohost else http11req))"

definition request_text :: "params \<Rightarrow> conn \<Rightarrow> string \<Rightarrow> string" where
  "request_text p s u = ''GET '' @ u @ protocol_text p
     @ (if no_host_hdr p then [] else take (fqdname_len s) (fqdname s)) @ [CR, LF] @ [CR, LF]"

definition fresh_iov :: "string \<Rightarrow> iovec list" where
  "fresh_iov u = (replicate ie_num null_iovec)
     [ie_method := \<lparr>iov_base = Some ''GET'', iov_len = 3\<rparr>, ie_blank := \<lparr>iov_base = Some '' '', iov_len = 1\<rparr>,
      ie_newline1 := \<lparr>iov_base = Some [CR, LF], iov_len = 2\<rparr>, ie_newline2 := \<lparr>iov_base = Some [CR, LF], iov_len = 2\<rparr>,
      ie_uri := \<lparr>iov_base = Some u, iov_len = length u\<rparr>]"

lemma fresh_iov_eq: "fresh_iov u =
   [\<lparr>iov_base = Some ''GET'', iov_len = 3\<rparr>, \<lparr>iov_base = Some '' '', iov_len = 1\<rparr>, null_iovec,
    \<lparr>iov_base = Some u, iov_len = length u\<rparr>, null_iovec, null_iovec, \<lparr>iov_base = Some [CR, LF], iov_len = 2\<rparr>,
    null_iovec, null_iovec, null_iovec, null_iovec, \<lparr>iov_base = Some [CR, LF], iov_len = 2\<rparr>, null_iovec]"
  by (simp add: fresh_iov_def numeral_eq_Suc)

definition request_iov :: "params \<Rightarrow> conn \<Rightarrow> string \<Rightarrow> iovec list" where
  "request_iov p s u = (fresh_iov u)
     [ie_host := (if no_host_hdr p then \<lparr>iov_base = Some [], iov_len = 0\<rparr>
                  else \<lparr>iov_base = Some (fqdname s), iov_len = fqdname_len s\<rparr>),
      ie_protl := \<lparr>iov_base = Some (protocol_text p), iov_len = length (protocol_text p)\<rparr>]"

lemma request_iov_text: "pending_bytes 0 (request_iov p s u) = request_text p s u"
  by (simp add: request_iov_def fresh_iov_eq pending_bytes_def request_text_def iov_bytes_def null_iovec_def
      numeral_eq_Suc)

lemma request_iov_wf:
  "fqdname_len s \<le> length (fqdname s) \<Longrightarrow> \<forall>v \<in> set (request_iov p s u). wf_iov v"
  by (simp add: request_iov_def fresh_iov_eq wf_iov_def null_iovec_def numeral_eq_Suc)

lemma fill_fresh:
  assumes "iov q = fresh_iov u" "req_version q = http_version p" "http_version p \<in> {0x10000, 0x10001}"
  obtains q' where "fill_protocol p (fill_host p s q) = Inr q'" "iov q' = request_iov p s u"
    "recvq_next q' = recvq_next q" "sendq_next q' = sendq_next q"
proof -
  have host: "iov_base (fresh_iov u ! ie_host) = None" by (simp add: fresh_iov_eq null_iovec_def numeral_eq_Suc)
  have "fill_protocol p (fill_host p s q) =
      Inr (call_set_iov ie_protl (protocol_text p) (length (protocol_text p)) (fill_host p s q))"
  proof -
    have "req_version (fill_host p s q) = http_version p"
      using assms(2) by (simp add: fill_host_def call_set_iov_def)
    then show ?thesis using assms(3) unfolding fill_protocol_def Let_def protocol_text_def
      by (cases "http_version p = 0x10000") simp_all
  qed
  then show ?thesis
    by (rule that)
       (use assms(1) host in \<open>auto simp: fill_host_def call_set_iov_def request_iov_def\<close>)
qed

lemma queues_append:
  assumes q: "queues S a sq rq" "c \<notin> set (sq @ rq)"
    and n: "sendq_next (calls S' c) = None"
      "\<And>d. d \<noteq> c \<Longrightarrow> sendq_next (calls S' d) = (if sq \<noteq> [] \<and> d = last sq then Some c else sendq_next (calls S d))"
      "\<And>d. d \<noteq> c \<Longrightarrow> recvq_next (calls S' d) = recvq_next (calls S d)"
    and s: "sendq (conns S' a) = (if sq = [] then Some c else sendq (conns S a))" "sendq_tail (conns S' a) = Some c"
      "recvq (conns S' a) = recvq (conns S a)" "recvq_tail (conns S' a) = recvq_tail (conns S a)"
  shows "queues S' a (sq @ [c]) rq"
proof -
  have "chain sendq_next (calls S') (sendq (conns S' a)) (sq @ [c])"
  proof (cases "sq = []")
    case True
    then show ?thesis using n s by simp
  next
    case False
    then have "c \<noteq> last sq" using q(2) by auto
    have "chain sendq_next (calls S') (sendq (conns S a)) (sq @ [c])"
      by (rule chain_append [where cs = "calls S"])
         (use q False n \<open>c \<noteq> last sq\<close> in \<open>auto simp: queues_def\<close>)
    then show ?thesis using False s by simp
  qed
  moreover have "chain recvq_next (calls S') (recvq (conns S' a)) rq"
  proof -
    have "chain recvq_next (calls S') p rq = chain recvq_next (calls S) p rq" for p
      by (rule call_chain_cong, rule n(3)) (use q(2) in auto)
    then show ?thesis using q(1) s(3) by (simp add: queues_def)
  qed
  ultimately show ?thesis using q s by (auto simp: queues_def)
qed

lemma upd_fields:
  "conns (upd_call c f S) = conns S" "calls (upd_call c f S) = (calls S)(c := f (calls S c))"
  "wire (upd_call c f S) = wire S" "param (upd_call c f S) = param S"
  "calls (object_inc_ref c S) = calls S" "conns (object_inc_ref c S) = conns S"
  "wire (object_inc_ref c S) = wire S" "param (object_inc_ref c S) = param S"
  by (simp_all add: upd_call_def object_inc_ref_def upd_obj_def)


context engine_collectors
begin

lemma core_send_queues:
  assumes q: "queues S a sq rq" "c \<notin> set (sq @ rq)" "\<not> closed a S"
    and c: "iov (calls S c) = fresh_iov u" "req_version (calls S c) = http_version (param S)"
    and v: "http_version (param S) \<in> {0x10000, 0x10001}"
    and run: "core_send sig a c S = Inr (r, S')"
  shows "r = 0 \<and> \<not> closed a S' \<and> queues S' a (sq @ [c]) rq \<and> iov_index (calls S' c) = 0
     \<and> iov (calls S' c) = request_iov (param S) (conns S a) u \<and> iov_saved (calls S' c) = iov (calls S' c) ! 0
     \<and> (\<forall>d. d \<noteq> c \<longrightarrow> iov (calls S' d) = iov (calls S d) \<and> iov_index (calls S' d) = iov_index (calls S d)
           \<and> iov_saved (calls S' d) = iov_saved (calls S d))
     \<and> wire S' = wire S \<and> sd (conns S' a) = sd (conns S a)"
proof -
  obtain S1 where S1: "sig EV_CALL_ISSUE c (Lng 0) S = Inr S1" using run by (auto simp: core_send_def Inr_iff)
  note o = sig_observes [OF S1] and same1 = sig_same [OF S1]
  note eq = observes_conn [OF o] observes_call [OF o] observesD(3,4) [OF o]
  let ?q0 = "(calls S1 c)\<lparr>call_conn := Some a\<rparr>"
  have pq: "iov ?q0 = fresh_iov u" "req_version ?q0 = http_version (param S1)" "http_version (param S1) \<in> {0x10000, 0x10001}"
    using c v by (simp_all add: eq)
  obtain q' where q': "fill_protocol (param S1) (fill_host (param S1) (conns S1 a) ?q0) = Inr q'"
    "iov q' = request_iov (param S1) (conns S1 a) u"
    by (rule fill_fresh [OF pq, of "conns S1 a"]) blast
  have iov: "iov q' = request_iov (param S) (conns S a) u" using q'(2) by (simp add: request_iov_def eq)
  define T where "T = upd_call c (\<lambda>q. q\<lparr>sendq_next := None\<rparr>) (object_inc_ref c
     (upd_call c (\<lambda>_. q'\<lparr>iov_index := 0, iov_saved := iov q' ! 0\<rparr>)
       (upd_call c (\<lambda>q. fill_host (param S1) (conns S1 a) (q\<lparr>call_conn := Some a\<rparr>)) S1)))"
  have T: "conns T = conns S1" "wire T = wire S1" "param T = param S1"
    "calls T = (calls S1)(c := q'\<lparr>iov_index := 0, iov_saved := iov q' ! 0, sendq_next := None\<rparr>)"
    by (auto simp: T_def upd_fields)
  have rest: "(case sendq (conns T a) of
       None \<Rightarrow> ebind (sig EV_CALL_SEND_START c (Lng 0) (upd_conn a (\<lambda>s. s\<lparr>sendq := Some c, sendq_tail := Some c\<rparr>) T)) (\<lambda>S.
           if S_CLOSING \<le> state (conns S a) then Inr (- 1, S)
           else ebind (set_active a WRITE (set_send_timeout c S)) (\<lambda>S. Inr (0, S)))
     | Some _ \<Rightarrow> ebind (deref (sendq_tail (conns T a))) (\<lambda>t.
           Inr (0, upd_conn a (\<lambda>s. s\<lparr>sendq_tail := Some c\<rparr>) (upd_call t (\<lambda>q. q\<lparr>sendq_next := Some c\<rparr>) T)))) = Inr (r, S')"
    using run S1 q'(1) unfolding T_def by (simp add: core_send_def Let_def upd_fields)
  show ?thesis
  proof (cases "sendq (conns S a)")
    case None
    then have sq: "sq = []" using q(1) by (cases sq) (auto simp: queues_def)
    define U where "U = upd_conn a (\<lambda>s. s\<lparr>sendq := Some c, sendq_tail := Some c\<rparr>) T"
    obtain S2 where S2: "sig EV_CALL_SEND_START c (Lng 0) U = Inr S2"
      "(if S_CLOSING \<le> state (conns S2 a) then Inr (- 1, S2)
           else ebind (set_active a WRITE (set_send_timeout c S2)) (\<lambda>S. Inr (0, S))) = Inr (r, S')"
      using rest None by (auto simp: T U_def [symmetric] eq Inr_iff)
    note same2 = sig_same [OF S2(1)]
    have st: "state (conns S2 a) = state (conns S a)" by (simp add: same_queuesD [OF same2] U_def upd_conn_def T eq)
    have op: "\<not> S_CLOSING \<le> state (conns S2 a)" using q(3) by (simp add: st closed_def)
    from S2(2) [unfolded if_not_P [OF op]] have "r = 0" "set_active a WRITE (set_send_timeout c S2) = Inr S'"
      by (auto simp: Inr_iff)
    then have r: "r = 0" and same: "same_queues U S'"
      using same2 set_timeout_same(1) set_active_same same_queues_trans by blast+
    have U: "conns U a = (conns S1 a)\<lparr>sendq := Some c, sendq_tail := Some c\<rparr>" "calls U = calls T" "wire U = wire S1"
      by (simp_all add: U_def upd_conn_def T)
    have "queues S' a (sq @ [c]) rq"
      by (rule queues_append [OF q(1,2)]) (simp_all add: same_queuesD [OF same] U T eq sq)
    then show ?thesis using q(3) iov r
      by (simp add: same_queuesD [OF same] U T eq closed_def del: conn_state_order)
  next
    case (Some h)
    then have sq: "sq \<noteq> []" using q(1) by (auto simp: queues_def)
    then have tl: "sendq_tail (conns S a) = Some (last sq)" "last sq \<noteq> c" using q(1,2) by (auto simp: queues_def)
    have r: "r = 0" and S': "S' = upd_conn a (\<lambda>s. s\<lparr>sendq_tail := Some c\<rparr>) (upd_call (last sq) (\<lambda>q. q\<lparr>sendq_next := Some c\<rparr>) T)"
      using rest Some tl by (auto simp: T eq)
    have U: "conns S' a = (conns S1 a)\<lparr>sendq_tail := Some c\<rparr>" "wire S' = wire S1"
      "calls S' = (calls T)(last sq := (calls T (last sq))\<lparr>sendq_next := Some c\<rparr>)"
      by (simp_all add: S' upd_conn_def upd_call_def T)
    have "queues S' a (sq @ [c]) rq"
      by (rule queues_append [OF q(1,2)]) (use tl sq in \<open>auto simp: U T eq\<close>)
    then show ?thesis using q(3) iov r tl(2)
      by (simp add: U T eq closed_def del: conn_state_order)
  qed
qed

end

text \<open>A call as a workload generator makes it: \<open>call_new\<close>, then the URI is set.\<close>

definition new_request :: "('cb, 'h, 'z) signal \<Rightarrow> string
    \<Rightarrow> ('cb, 'h, 'z) core_scheme \<Rightarrow> (nat option \<times> ('cb, 'h, 'z) core_scheme) result" where
  "new_request sig u S =
     ebind (object_new sig OBJ_CALL S) (\<lambda>(c, S).
       Inr (c, case c of None \<Rightarrow> S | Some c \<Rightarrow> upd_call c (call_set_uri u (length u)) S))"

context engine_collectors
begin

lemma new_request_fresh:
  assumes "new_request sig u S = Inr (Some c, S')" "queues S a sq rq" "c \<notin> set (sq @ rq)"
  shows "queues S' a sq rq" "iov (calls S' c) = fresh_iov u" "req_version (calls S' c) = http_version (param S)"
    "param S' = param S" "state (conns S' b) = state (conns S b)" "wire S' = wire S"
    "fqdname (conns S' b) = fqdname (conns S b)" "fqdname_len (conns S' b) = fqdname_len (conns S b)"
    "sd (conns S' b) = sd (conns S b)"
    "d \<noteq> c \<Longrightarrow> iov (calls S' d) = iov (calls S d) \<and> iov_index (calls S' d) = iov_index (calls S d)
        \<and> iov_saved (calls S' d) = iov_saved (calls S d)"
proof -
  obtain S1 S2 where S1: "alloc_object OBJ_CALL S = (Some c, S1)"
    and S2: "sig EV_CALL_NEW c (Lng 0) (call_init c (clear_object OBJ_CALL c S1)) = Inr S2"
    and S': "S' = upd_call c (call_set_uri u (length u)) S2"
    using assms(1) by (auto simp: new_request_def object_new_def Let_def Inr_iff split: prod.splits option.splits)
  have al: "conns S1 = conns S" "calls S1 = calls S" "param S1 = param S" "wire S1 = wire S"
    using S1 by (auto simp: alloc_object_def malloc_def split: list.splits if_splits)
  define I where "I = call_init c (clear_object OBJ_CALL c S1)"
  have I: "conns I = conns S" "param I = param S" "wire I = wire S" "\<And>d. d \<noteq> c \<Longrightarrow> calls I d = calls S d"
    "iov (calls I c) = (replicate ie_num null_iovec)[ie_method := \<lparr>iov_base = Some ''GET'', iov_len = 3\<rparr>,
       ie_blank := \<lparr>iov_base = Some '' '', iov_len = 1\<rparr>, ie_newline1 := \<lparr>iov_base = Some [CR, LF], iov_len = 2\<rparr>,
       ie_newline2 := \<lparr>iov_base = Some [CR, LF], iov_len = 2\<rparr>]"
    "req_version (calls I c) = http_version (param S)"
    by (simp_all add: I_def al call_init_def clear_object_def Let_def upd_call_def upd_obj_def upd_call_priv_def
        call_set_method_def call_set_iov_def zero_call_def)
  note o = sig_observes [OF S2, folded I_def]
  note eq = observes_conn [OF o] observes_call [OF o] observesD(3,4) [OF o]
  have d: "iov_view (calls S' d) = iov_view (calls S d)" if "d \<noteq> c" for d
    using that by (simp add: S' upd_call_def eq I iov_view_def)
  have cn: "conns S' = conns S2" "wire S' = wire S2" "param S' = param S2" by (simp_all add: S' upd_call_def)
  have ne: "x \<noteq> c" if "x \<in> set sq \<union> set rq" for x using that assms(3) by auto
  have ch: "chain sendq_next (calls S') p sq = chain sendq_next (calls S) p sq"
    "chain recvq_next (calls S') p rq = chain recvq_next (calls S) p rq" for p
    by (rule call_chain_cong; use d [OF ne] in \<open>simp add: iov_view_def\<close>)+
  show "queues S' a sq rq" using assms(2) ch by (simp add: queues_def cn eq I)
  show "iov (calls S' c) = fresh_iov u"
    by (simp add: S' upd_call_def eq I call_set_uri_def call_set_iov_def fresh_iov_def)
  show "req_version (calls S' c) = http_version (param S)"
    by (simp add: S' upd_call_def eq I call_set_uri_def call_set_iov_def)
  show "d \<noteq> c \<Longrightarrow> iov (calls S' d) = iov (calls S d) \<and> iov_index (calls S' d) = iov_index (calls S d)
        \<and> iov_saved (calls S' d) = iov_saved (calls S d)"
    using d by (simp add: iov_view_def)
  show "param S' = param S" "state (conns S' b) = state (conns S b)" "wire S' = wire S"
    "fqdname (conns S' b) = fqdname (conns S b)" "fqdname_len (conns S' b) = fqdname_len (conns S b)"
    "sd (conns S' b) = sd (conns S b)"
    by (simp_all add: S' upd_call_def eq I)
qed

end

context engine_collectors
begin

lemma request_prefix_sent:
  assumes "queues S a [] rq" "\<not> closed a S"
    and "http_version (param S) \<in> {0x10000, 0x10001}" "fqdname_len (conns S a) \<le> length (fqdname (conns S a))"
    and "new_request sig u S = Inr (Some c, S1)" "c \<notin> set rq"
    and "core_send sig a c S1 = Inr (r, S2)" "do_send n sig a S2 = Inr S3" "\<not> closed a S3"
  shows "\<exists>sent later. wire S3 (sd (conns S3 a)) = wire S (sd (conns S a)) @ sent
     \<and> sent @ later = request_text (param S) (conns S a) u
     \<and> (sendq (conns S3 a) = None \<longrightarrow> later = [])"
proof -
  note new = new_request_fresh [OF assms(5,1), simplified, OF assms(6)]
  have op: "\<not> closed a S1" using assms(2) new(5) by (simp add: closed_def)
  have "c \<notin> set ([] @ rq)" using assms(6) by simp
  note cs = core_send_queues [OF new(1) this op new(2) _ _ assms(7)]
  let ?R = "request_iov (param S) (conns S a) u"
  have R: "request_iov p (conns S1 a) u = request_iov p (conns S a) u" for p
    by (simp add: request_iov_def new)
  have q: "queues S2 a [c] rq" "\<not> closed a S2" "iov_index (calls S2 c) = 0" "iov (calls S2 c) = ?R"
    "iov_saved (calls S2 c) = ?R ! 0" "wire S2 = wire S" "sd (conns S2 a) = sd (conns S a)"
    using cs assms(3) by (simp_all add: new R)
  have pend: "unsent S2 [c] = request_text (param S) (conns S a) u"
    by (simp add: unsent_def q request_iov_text)
  have ne: "?R \<noteq> []" by (simp add: request_iov_def fresh_iov_eq)
  have "sending (\<lambda>_. ?R) S2 [c]"
    using request_iov_wf [OF assms(4)] in_progress_start [OF ne] by (simp add: sending_def q)
  then have st: "send_state (\<lambda>_. ?R) S2 a [c] rq (wire S (sd (conns S a)) @ request_text (param S) (conns S a) u)"
    using q pend by (simp add: send_state_def)
  let ?w = "wire S (sd (conns S a))" and ?t = "request_text (param S) (conns S a) u"
  from do_send_some [OF st q(2) assms(8)] assms(9) obtain fin rest where
    fr: "[c] = fin @ rest" "send_state (\<lambda>_. ?R) S3 a rest (rq @ fin) (?w @ ?t)"
    unfolding sent_some_def by blast
  show ?thesis
  proof (cases "rest = []")
    case True
    then have "wire S3 (sd (conns S3 a)) = ?w @ ?t" using fr(2) by (simp add: send_state_def unsent_def)
    then have "wire S3 (sd (conns S3 a)) = ?w @ ?t \<and> ?t @ [] = ?t" by simp
    then show ?thesis by blast
  next
    case False
    then have rest: "rest = [c]" using fr(1) by (cases fin) auto
    have "in_progress ?R (iov_index (calls S3 c)) (iov (calls S3 c)) (iov_saved (calls S3 c))"
      using fr(2) by (simp add: rest send_state_def sending_def)
    then obtain j where "unsent S3 [c] = drop j ?t"
      using in_progress_suffix [OF request_iov_wf [OF assms(4)]] request_iov_text
      by (metis (no_types, lifting) append_Nil2 concat.simps list.simps(8,9) unsent_def)
    then have "wire S3 (sd (conns S3 a)) @ drop j ?t = ?w @ ?t" using fr(2) by (simp add: rest send_state_def)
    then have "wire S3 (sd (conns S3 a)) = ?w @ take j ?t"
      by (metis append_assoc append_same_eq append_take_drop_id)
    moreover have "sendq (conns S3 a) \<noteq> None" using fr(2) by (simp add: rest send_state_def queues_def)
    moreover have "take j ?t @ drop j ?t = ?t" by simp
    ultimately show ?thesis by metis
  qed
qed

end

section \<open>Properties\<close>


text \<open>An idle connection, a kernel that takes three bytes at a time, and no handlers.\<close>

definition idle_state :: "(callback_id, unit) core" where
  "idle_state = initial_state\<lparr>mallocs := 2, sysc := (\<lambda>_. (0, 0)), writes := (\<lambda>_. Wrote 3),
     conns := (\<lambda>_. zero_conn\<lparr>state := S_CONNECTED, sd := 5, fqdname := ''h'', fqdname_len := 1\<rparr>)\<rparr>"

definition silent :: "('cb, 'h, 'z) signal" where
  "silent ev a arg S = Inr S"

lemma silent_total: "engine_collectors_total (silent :: (callback_id, 'h, 'z) signal)"
  by unfold_locales (auto simp: silent_def)

lemma idle_run_new:
  "\<exists>S1. new_request silent ''/'' idle_state = Inr (Some 2, S1) \<and> param S1 = default_params
     \<and> conns S1 = conns idle_state \<and> calls S1 2 = zero_call\<lparr>iov := fresh_iov ''/'', req_version := 0x10001\<rparr>
     \<and> sysc S1 = (\<lambda>_. (0, 0)) \<and> writes S1 = (\<lambda>_. Wrote 3)"
  by (simp add: new_request_def object_new_def alloc_object_def malloc_def idle_state_def initial_state_def silent_def
      Let_def call_init_def clear_object_def upd_call_def upd_obj_def upd_call_priv_def zero_call_def
      call_set_method_def call_set_uri_def call_set_iov_def fresh_iov_def default_params_def)

lemma idle_run_send:
  assumes "param S1 = default_params" "conns S1 = conns idle_state"
    "calls S1 2 = zero_call\<lparr>iov := fresh_iov ''/'', req_version := 0x10001\<rparr>"
    "sysc S1 = (\<lambda>_. (0, 0))" "writes S1 = (\<lambda>_. Wrote 3)"
  shows "\<exists>S2. core_send silent 9 2 S1 = Inr (0, S2) \<and> param S2 = default_params \<and> state (conns S2 9) = S_CONNECTED
    \<and> sendq (conns S2 9) = Some 2 \<and> recvq (conns S2 9) = None \<and> watchdog (conns S2 9) = None \<and> sd (conns S2 9) = 5
    \<and> iov (calls S2 2) = request_iov default_params (conns idle_state 9) ''/'' \<and> iov_index (calls S2 2) = 0
    \<and> sysc S2 = (\<lambda>_. (0, 0)) \<and> writes S2 = (\<lambda>_. Wrote 3) \<and> call_timeout (calls S2 2) = 0
    \<and> sendq_next (calls S2 2) = None"
proof -
  have p: "timeout default_params = 0" "no_host_hdr default_params = False" "http_version default_params = 0x10001"
    by (simp_all add: default_params_def)
  have s: "conns idle_state 9 = zero_conn\<lparr>state := S_CONNECTED, sd := 5, fqdname := ''h'', fqdname_len := 1\<rparr>"
    by (simp add: idle_state_def)
  have h: "iov_base (fresh_iov ''/'' ! ie_host) = None" by (simp add: fresh_iov_eq null_iovec_def numeral_eq_Suc)
  show ?thesis
    by (simp add: core_send_def silent_def assms s p h Let_def upd_call_def upd_conn_def object_inc_ref_def upd_obj_def
        fill_host_def fill_protocol_def zero_call_def zero_conn_def set_active_def set_send_timeout_def syscall_def
        earliest_timeout_def call_set_iov_def request_iov_def protocol_text_def)
qed

lemma idle_run_write:
  assumes "param S2 = default_params" "state (conns S2 9) = S_CONNECTED"
    "sendq (conns S2 9) = Some 2" "recvq (conns S2 9) = None" "watchdog (conns S2 9) = None" "sd (conns S2 9) = 5"
    "iov (calls S2 2) = request_iov default_params (conns idle_state 9) ''/''" "iov_index (calls S2 2) = 0"
    "sysc S2 = (\<lambda>_. (0, 0))" "writes S2 = (\<lambda>_. Wrote 3)"
  shows "\<exists>S3. do_send 4 silent 9 S2 = Inr S3 \<and> \<not> closed 9 S3 \<and> wire S3 5 = wire S2 5 @ ''GET'' \<and> sd (conns S3 9) = 5"
proof -
  let ?R = "request_iov default_params (conns idle_state 9) ''/''"
  have R: "?R ! 0 = \<lparr>iov_base = Some ''GET'', iov_len = 3\<rparr>" "?R ! Suc 0 = \<lparr>iov_base = Some '' '', iov_len = 1\<rparr>"
    "length ?R = 13"
    by (simp_all add: request_iov_def fresh_iov_eq numeral_eq_Suc)
  have adv: "advance_iov b 0 3 ?R v = (1, ?R[0 := v, 1 := cut 0 (?R ! 1)], ?R ! 1)" for b v
    using R by (simp add: advance_iov.simps Let_def)
  have pend: "pending_bytes 0 ?R = ''GET'' @ drop 3 (pending_bytes 0 ?R)"
    by (simp add: request_iov_text request_text_def)
  have len: "min 3 (length (pending_bytes 0 ?R)) = 3" by (subst pend) simp
  have tk: "take 3 (pending_bytes 0 ?R) = ''GET''" by (subst pend) simp
  have p: "timeout default_params = 0" by (simp add: default_params_def)
  obtain S1 where wr: "sys_writev 5 (pending_bytes 0 ?R) S2 = (Some 3, S1)" and S1: "S1 = S2\<lparr>writes_done := Suc (writes_done S2), errno := 0,
      wire := (wire S2)(5 := wire S2 5 @ ''GET'')\<rparr>"
    using assms len tk by (simp add: sys_writev_def Let_def)
  define T where "T = written 2 3 S1"
  have T: "T = upd_call 2 (\<lambda>q. q\<lparr>req_size := req_size q + 3, iov_index := 1,
      iov := ?R[0 := iov_saved (calls S2 2), 1 := cut 0 (?R ! 1)], iov_saved := ?R ! 1\<rparr>) S1"
    unfolding T_def written_def using assms adv by (simp add: S1 Let_def)
  have idx: "iov_index (calls T 2) < length (iov (calls T 2))" using R by (simp add: T upd_call_def)
  define U where "U = set_send_timeout 2 T"
  have U: "U = upd_call 2 (\<lambda>q. q\<lparr>call_timeout := 0\<rparr>) T"
    using assms p by (simp add: U_def set_send_timeout_def T S1 upd_call_def)
  have act: "\<exists>S3. set_active 9 WRITE U = Inr S3 \<and> state (conns S3 9) = S_CONNECTED \<and> wire S3 5 = wire S2 5 @ ''GET''
      \<and> sd (conns S3 9) = 5"
    using assms by (simp add: set_active_def syscall_def Let_def U T S1 upd_call_def upd_conn_def earliest_timeout_def)
  have "do_send 4 silent 9 S2 = set_active 9 WRITE U"
    using assms(3,6-8) wr idx
    by (simp add: numeral_eq_Suc send_step_def silent_def Let_def T_def U_def ebind_assoc)
  then show ?thesis using act by (auto simp: closed_def)
qed


text \<open>
  C18: \<open>do_send\<close> returns, and unless the connection was closed the bytes that the kernel took
  followed by the bytes that are still to be sent are what they were before, whatever the
  sizes of the partial writes: requests leave in the order of the send queue, each of
  them whole; those that left are at the end of the receive queue in that order, with
  their I/O vectors restored; the others keep their place.
\<close>

theorem do_send_conserves_stream:
  assumes "engine_collectors_total sig" "send_state orig S a sq rq stream" "\<not> closed a S"
    and "2 * length sq + length rq < n"
  shows "do_send n sig a S \<noteq> Inl Out_of_fuel
    \<and> (\<forall>S'. do_send n sig a S = Inr S' \<longrightarrow> closed a S' \<or>
         (\<exists>fin rest. sq = fin @ rest \<and> queues S' a rest (rq @ fin)
            \<and> wire S' (sd (conns S' a)) @ unsent S' rest = stream
            \<and> sending orig S' rest \<and> (\<forall>c \<in> set fin. iov (calls S' c) = orig c)))"
proof -
  have ec: "engine_collectors sig" using assms(1) by (rule engine_collectors_total.axioms(1))
  have "sent_some orig a sq rq stream S S'" if "do_send n sig a S = Inr S'" for S'
    using engine_collectors.do_send_some [OF ec assms(2,3) that] .
  then show ?thesis
    using engine_collectors_total.do_send_in_fuel [OF assms] unfolding in_fuel_def sent_some_def send_state_def req_done_def
    by blast
qed


text \<open>Two queued requests of one fragment each.\<close>

definition two_requests :: "(callback_id, unit) core" where
  "two_requests = idle_state\<lparr>
     calls := (\<lambda>c. zero_call\<lparr>iov := [\<lparr>iov_base = Some ''GET x'', iov_len = 5\<rparr>], iov_saved := \<lparr>iov_base = Some ''GET x'', iov_len = 5\<rparr>,
        sendq_next := (if c = 3 then Some 4 else None)\<rparr>),
     conns := (\<lambda>_. zero_conn\<lparr>state := S_CONNECTED, sd := 5, sendq := Some 3, sendq_tail := Some 4\<rparr>)\<rparr>"

theorem do_send_conserves_stream_witness:
  "do_send 9 silent 1 two_requests \<noteq> Inl Out_of_fuel"
proof -
  let ?o = "\<lambda>_. [\<lparr>iov_base = Some ''GET x'', iov_len = 5\<rparr>]"
  have "in_progress [v] 0 [v] v" for v using in_progress_start [of "[v]"] by simp
  then have "send_state ?o two_requests 1 [3, 4] [] ''GET xGET x''"
    by (simp add: send_state_def queues_def sending_def unsent_def two_requests_def idle_state_def initial_state_def
        wf_iov_def in_progress_start pending_bytes_def iov_bytes_def zero_call_def zero_conn_def)
  moreover have "\<not> closed 1 two_requests" by (simp add: two_requests_def closed_def)
  moreover have "2 * length [3 :: nat, 4] + length ([] :: nat list) < 9" by simp
  ultimately show ?thesis
    using do_send_conserves_stream [OF silent_total] by fastforce
qed

end
