(* ===== verification/Engine_Close.thy ===== *)
theory Engine_Close
  imports Engine_Send
begin

text \<open>
  What \<open>core_close\<close> does when the handlers only observe: it gives up one reference of
  every queued call, cancels the watchdog, returns the local port and gives up the
  connection, in a state in which \<open>conn_deinit\<close> finds nothing left to release.
\<close>

section \<open>Dropping references\<close>

definition drop_refs :: "nat set \<Rightarrow> (nat \<Rightarrow> obj) \<Rightarrow> nat \<Rightarrow> obj" where
  "drop_refs X os x = (if x \<in> X then (os x)\<lparr>ref_count := ref_count (os x) - 1\<rparr> else os x)"

lemma drop_refs_empty [simp]: "drop_refs {} os = os"
  by (simp add: drop_refs_def fun_eq_iff)

lemma drop_refs_insert:
  "c \<notin> X \<Longrightarrow> drop_refs X (os(c := (os c)\<lparr>ref_count := ref_count (os c) - 1\<rparr>)) = drop_refs (insert c X) os"
  by (auto simp: drop_refs_def fun_eq_iff)

lemma drop_refs_union: "X \<inter> Y = {} \<Longrightarrow> drop_refs Y (drop_refs X os) = drop_refs (X \<union> Y) os"
  by (auto simp: drop_refs_def fun_eq_iff)

lemma drop_refs_otype [simp]: "otype (drop_refs X os x) = otype (os x)"
  by (simp add: drop_refs_def)

text \<open>\<open>S'\<close> is \<open>S\<close> with the objects \<open>os\<close>, up to what observers touch.\<close>

definition with_objs :: "(nat \<Rightarrow> obj) \<Rightarrow> ('cb, 'h, 'z) core_scheme \<Rightarrow> ('cb, 'h, 'z) core_scheme \<Rightarrow> bool" where
  "with_objs os S S' \<longleftrightarrow> (\<exists>fl. observes (S\<lparr>objs := os, free_list := fl\<rparr>) S')"

lemma observes_objs: "observes S T \<Longrightarrow> observes (S\<lparr>objs := os, free_list := fl\<rparr>) (T\<lparr>objs := os, free_list := fl\<rparr>)"
proof -
  assume o: "observes S T"
  have "unobserved (S\<lparr>objs := os, free_list := fl\<rparr>) = (unobserved S)\<lparr>objs := os, free_list := fl\<rparr>" for S :: "('a, 'b, 'c) core_scheme"
    by (simp add: unobserved_def)
  then show ?thesis using o by (simp add: observes_def)
qed

lemma with_objs_trans: "with_objs os S T \<Longrightarrow> with_objs os' T U \<Longrightarrow> with_objs os' S U"
proof -
  assume "with_objs os S T" "with_objs os' T U"
  then obtain fl fl' where "observes (S\<lparr>objs := os, free_list := fl\<rparr>) T" "observes (T\<lparr>objs := os', free_list := fl'\<rparr>) U"
    by (auto simp: with_objs_def)
  with observes_objs [where os = os' and fl = fl'] observes_trans show ?thesis by (fastforce simp: with_objs_def)
qed

lemma observes_with_objs: "observes S T \<Longrightarrow> with_objs (objs S) S T"
  by (auto simp: with_objs_def intro!: exI [of _ "free_list S"])

lemma with_objsD:
  assumes "with_objs os S T"
  shows "objs T = os" "tmr T = tmr S" "addresses T = addresses S"
    "state (conns T b) = state (conns S b)" "sendq (conns T b) = sendq (conns S b)" "recvq (conns T b) = recvq (conns S b)"
    "sd (conns T b) = sd (conns S b)" "watchdog (conns T b) = watchdog (conns S b)" "myport (conns T b) = myport (conns S b)"
    "sendq_next (calls T c) = sendq_next (calls S c)" "recvq_next (calls T c) = recvq_next (calls S c)"
proof -
  obtain fl where o: "observes (S\<lparr>objs := os, free_list := fl\<rparr>) T" using assms by (auto simp: with_objs_def)
  note f = observesD [OF o] observes_conn [OF o] observes_call [OF o]
  show "objs T = os" "tmr T = tmr S" "addresses T = addresses S"
    "state (conns T b) = state (conns S b)" "sendq (conns T b) = sendq (conns S b)" "recvq (conns T b) = recvq (conns S b)"
    "sd (conns T b) = sd (conns S b)" "watchdog (conns T b) = watchdog (conns S b)" "myport (conns T b) = myport (conns S b)"
    "sendq_next (calls T c) = sendq_next (calls S c)" "recvq_next (calls T c) = recvq_next (calls S c)"
    using f by simp_all
qed

context collectors
begin

lemma object_dec_ref_call:
  assumes "otype (objs S c) = OBJ_CALL" "object_dec_ref sig c S = Inr S'"
  shows "with_objs (drop_refs {c} (objs S)) S S'"
proof -
  let ?T = "upd_obj c (\<lambda>x. x\<lparr>ref_count := ref_count x - 1\<rparr>) S"
  have T: "?T = S\<lparr>objs := drop_refs {c} (objs S)\<rparr>"
  proof -
    have "drop_refs {c} (objs S) = (objs S)(c := (objs S c)\<lparr>ref_count := ref_count (objs S c) - 1\<rparr>)"
      by (auto simp: drop_refs_def fun_eq_iff)
    then show ?thesis by (simp add: upd_obj_def)
  qed
  show ?thesis
  proof (cases "ref_count (objs ?T c) = 0")
    case False
    then have "S' = ?T" using assms by (simp add: object_dec_ref_def Let_def Inr_iff)
    then show ?thesis unfolding T with_objs_def by (intro exI [of _ "free_list S"]) simp
  next
    case True
    have ty: "otype (objs ?T c) = OBJ_CALL" using assms by (simp add: upd_obj_def)
    obtain S2 where "sig EV_CALL_DESTROYED c (Lng 0) ?T = Inr S2"
      and S': "S' = S2\<lparr>free_list := (free_list S2)(OBJ_CALL := c # free_list S2 OBJ_CALL)\<rparr>"
      using assms True ty by (auto simp: object_dec_ref_def object_destroy_def Let_def Inr_iff)
    then have o: "observes ?T S2" by (intro sig_observes)
    have S2: "S2\<lparr>objs := objs S2, free_list := fl\<rparr> = S2\<lparr>free_list := fl\<rparr>" for fl by simp
    have "S' = S2\<lparr>objs := drop_refs {c} (objs S), free_list := free_list S'\<rparr>"
      using S2 [of "free_list S'"] observesD(1) [OF o] by (simp add: S' T)
    with observes_objs [OF o, where os = "drop_refs {c} (objs S)" and fl = "free_list S'"] have
      "observes (S\<lparr>objs := drop_refs {c} (objs S), free_list := free_list S'\<rparr>) S'"
      by (simp add: T)
    then show ?thesis by (auto simp: with_objs_def)
  qed
qed

lemma release_calls_objs:
  assumes "follow = sendq_next \<or> follow = recvq_next"
  shows "chain follow (calls S) p xs \<Longrightarrow> distinct xs \<Longrightarrow> \<forall>c \<in> set xs. otype (objs S c) = OBJ_CALL \<Longrightarrow>
     release_calls n follow sig p S = Inr S' \<Longrightarrow> with_objs (drop_refs (set xs) (objs S)) S S'"
proof (induction xs arbitrary: n p S)
  case Nil
  then show ?case using observes_with_objs [of S S] by (cases n) auto
next
  case (Cons c xs)
  then obtain m S1 where S1: "object_dec_ref sig c S = Inr S1" "release_calls m follow sig (follow (calls S c)) S1 = Inr S'"
    by (cases n) (auto simp: Inr_iff Let_def)
  note w = object_dec_ref_call [OF _ S1(1)]
  have w1: "with_objs (drop_refs {c} (objs S)) S S1" by (rule w) (use Cons.prems(3) in simp)
  have "chain follow (calls S1) (follow (calls S c)) xs"
    using Cons.prems(1) assms call_chain_cong [of xs follow "calls S1" "calls S"] with_objsD(10,11) [OF w1] by auto
  from Cons.IH [OF this _ _ S1(2)] have "with_objs (drop_refs (set xs) (drop_refs {c} (objs S))) S1 S'"
    using Cons.prems(2,3) with_objsD(1) [OF w1] by simp
  moreover have "drop_refs (set xs) (drop_refs {c} (objs S)) = drop_refs (set (c # xs)) (objs S)"
    using Cons.prems(2) by (subst drop_refs_union) auto
  ultimately show ?case using with_objs_trans [OF w1] by metis
qed


lemma core_close_cleans:
  assumes q: "queues S a sq rq" "a \<notin> set (sq @ rq)" "\<forall>c \<in> set (sq @ rq). otype (objs S c) = OBJ_CALL"
    and op: "\<not> closed a S" and run: "core_close n sig a S = Inr S'"
  shows "sendq (conns S' a) = None \<and> recvq (conns S' a) = None \<and> watchdog (conns S' a) = None \<and> sd (conns S' a) = - 1
     \<and> closed a S' \<and> objs S' = drop_refs (insert a (set (sq @ rq))) (objs S)
     \<and> (\<forall>t. watchdog (conns S a) = Some t \<longrightarrow> (\<exists>ti. tmr S' t = Some ti \<and> has_expired ti))"
proof -
  have cl: "\<not> S_CLOSING \<le> state (conns S a)" using op by (simp add: closed_def)
  from run [unfolded core_close_def Let_def if_not_P [OF cl] ebind_Inr_iff]
  obtain S1 S2 S3 S4 S5 S6 where
    S1: "drop_watchdog a (upd_conn a (\<lambda>s. s\<lparr>state := S_CLOSING\<rparr>) S) = Inr S1" and
    S2: "drop_calls n sig a S1 = Inr S2" and
    S3: "sig EV_CONN_CLOSE a (Lng 0) (upd_conn a (\<lambda>s. s\<lparr>sd := - 1\<rparr>) S2) = Inr S3" and
    S4: "c_assert (state (conns S3 a) = S_CLOSING) S3 = Inr S4" and
    S5: "(if 0 \<le> sd (conns S2 a) then close_socket (sd (conns S2 a)) a S4 else Inr S4) = Inr S5" and
    S6: "return_port a S5 = Inr S6" and
    S7: "object_dec_ref sig a S6 = Inr S'"
    by blast
  have 1: "watchdog (conns S1 a) = None" "sendq (conns S1 a) = sendq (conns S a)" "recvq (conns S1 a) = recvq (conns S a)"
    "calls S1 = calls S" "objs S1 = objs S"
    "watchdog (conns S a) = Some t \<Longrightarrow> \<exists>ti. tmr S1 t = Some ti \<and> has_expired ti" for t
    using S1 by (auto simp: drop_watchdog_def upd_conn_def timer_cancel_def Inr_iff split: option.splits)
  obtain T U where T: "release_calls n sendq_next sig (sendq (conns S1 a)) S1 = Inr T"
    and U: "release_calls n recvq_next sig (recvq (conns T a)) (upd_conn a (\<lambda>s. s\<lparr>sendq := None\<rparr>) T) = Inr U"
    and S2': "S2 = upd_conn a (\<lambda>s. s\<lparr>recvq := None\<rparr>) U"
    using S2 by (auto simp: drop_calls_def Let_def Inr_iff upd_conn_def)
  have wT: "with_objs (drop_refs (set sq) (objs S)) S1 T"
    using release_calls_objs [OF _ _ _ _ T, of sq] q 1 by (auto simp: queues_def)
  let ?T = "upd_conn a (\<lambda>s. s\<lparr>sendq := None\<rparr>) T"
  note fT = with_objsD [OF wT]
  have "chain recvq_next (calls ?T) (recvq (conns T a)) rq"
    using q(1) 1 fT(6,11) call_chain_cong [of rq recvq_next "calls T" "calls S"] by (simp add: upd_conn_def queues_def)
  then have wU: "with_objs (drop_refs (set rq) (drop_refs (set sq) (objs S))) ?T U"
    using release_calls_objs [OF _ _ _ _ U, of rq] q fT(1) by (auto simp: upd_conn_def queues_def)
  note fU = with_objsD [OF wU]
  have oU: "objs U = drop_refs (set (sq @ rq)) (objs S)"
    using fU(1) drop_refs_union [of "set sq" "set rq"] q(1) by (simp add: queues_def)
  have 2: "sendq (conns S2 a) = None" "recvq (conns S2 a) = None" "watchdog (conns S2 a) = None"
    "objs S2 = drop_refs (set (sq @ rq)) (objs S)" "tmr S2 = tmr S1"
    using fU fT 1 oU by (simp_all add: S2' upd_conn_def)
  note o = sig_observes [OF S3]
  note f3 = observes_conn [OF o] observesD(1,5) [OF o]
  have 3: "sendq (conns S4 a) = None" "recvq (conns S4 a) = None" "watchdog (conns S4 a) = None" "sd (conns S4 a) = - 1"
    "objs S4 = drop_refs (set (sq @ rq)) (objs S)" "tmr S4 = tmr S1" "closed a S4"
    using S4 f3 2 by (auto simp: Inr_iff upd_conn_def closed_def)
  have 5: "sendq (conns S5 a) = None" "recvq (conns S5 a) = None" "watchdog (conns S5 a) = None" "sd (conns S5 a) = - 1"
    "objs S5 = drop_refs (set (sq @ rq)) (objs S)" "tmr S5 = tmr S1" "closed a S5"
    using S5 3 syscall_frame [of S4]
    by (auto simp: close_socket_def Let_def Inr_iff upd_conn_def closed_def split: if_splits prod.splits)
  have 6: "sendq (conns S6 a) = None" "recvq (conns S6 a) = None" "watchdog (conns S6 a) = None" "sd (conns S6 a) = - 1"
    "objs S6 = drop_refs (set (sq @ rq)) (objs S)" "tmr S6 = tmr S1" "closed a S6"
    using S6 5 by (auto simp: return_port_def Inr_iff closed_def split: if_splits)
  let ?D = "upd_obj a (\<lambda>x. x\<lparr>ref_count := ref_count x - 1\<rparr>) S6"
  have D: "objs ?D = drop_refs (insert a (set (sq @ rq))) (objs S)"
    using drop_refs_union [of "set (sq @ rq)" "{a}"] q(2) 6(5) by (auto simp: upd_obj_def drop_refs_def fun_eq_iff)
  show ?thesis
    using S7
  proof (cases rule: object_dec_ref_cases)
    case shared
    then show ?thesis using 1(6) 6 D by (auto simp: upd_obj_def closed_def)
  next
    case (last ev T1 T2 t)
    have T1: "sendq (conns T1 a) = None" "recvq (conns T1 a) = None" "watchdog (conns T1 a) = None" "sd (conns T1 a) = - 1"
      "objs T1 = objs ?D" "tmr T1 = tmr S1" "closed a T1"
      using last(1) 6 by (auto simp: upd_obj_def conn_deinit_def Let_def Inr_iff upd_conn_def closed_def)
    note o = sig_observes [OF last(2)]
    show ?thesis
      using T1 last(3) D 1(6) observes_conn [OF o] observesD(1,5) [OF o] by (auto simp: closed_def)
  qed
qed

end

section \<open>Properties\<close>

text \<open>
  C19: closing an open connection empties both queues and gives up exactly one reference of
  each call in them and one of the connection, cancels its watchdog and gives up its
  descriptor; a second \<open>core_close\<close> does nothing.
\<close>

theorem core_close_releases_once:
  assumes "collectors sig" "queues S a sq rq" "a \<notin> set (sq @ rq)"
    and "\<forall>c \<in> set (sq @ rq). otype (objs S c) = OBJ_CALL" "\<not> closed a S" "core_close n sig a S = Inr S'"
  shows "sendq (conns S' a) = None \<and> recvq (conns S' a) = None \<and> watchdog (conns S' a) = None \<and> sd (conns S' a) = - 1
     \<and> (\<forall>c. ref_count (objs S' c) = (if c = a \<or> c \<in> set (sq @ rq) then ref_count (objs S c) - 1 else ref_count (objs S c)))
     \<and> (\<forall>t. watchdog (conns S a) = Some t \<longrightarrow> (\<exists>ti. tmr S' t = Some ti \<and> has_expired ti))
     \<and> core_close m sig a S' = Inr S'"
proof -
  note c = collectors.core_close_cleans [OF assms]
  then have "ref_count (objs S' x) = (if x = a \<or> x \<in> set (sq @ rq) then ref_count (objs S x) - 1 else ref_count (objs S x))" for x
    by (simp add: drop_refs_def)
  moreover have "core_close m sig a S' = Inr S'" using c by (simp add: core_close_def closed_def)
  ultimately show ?thesis using c by blast
qed

text \<open>A connection with two queued requests, the second of which nobody else references.\<close>

definition busy_state :: "(callback_id, unit) core" where
  "busy_state = two_requests\<lparr>objs := (\<lambda>x. if x = 9 then \<lparr>otype = OBJ_CONN, ref_count = 1\<rparr>
     else if x = 3 then \<lparr>otype = OBJ_CALL, ref_count = 2\<rparr> else \<lparr>otype = OBJ_CALL, ref_count = 1\<rparr>),
     tmr := [7 \<mapsto> zero_timer],
     conns := (\<lambda>_. zero_conn\<lparr>state := S_CONNECTED, sd := 5, sendq := Some 3, sendq_tail := Some 4, watchdog := Some 7\<rparr>)\<rparr>"

lemma busy_state_fields:
  "conns busy_state 9 = zero_conn\<lparr>state := S_CONNECTED, sd := 5, sendq := Some 3, sendq_tail := Some 4, watchdog := Some 7\<rparr>"
  "objs busy_state 9 = \<lparr>otype = OBJ_CONN, ref_count = 1\<rparr>" "objs busy_state 3 = \<lparr>otype = OBJ_CALL, ref_count = 2\<rparr>"
  "objs busy_state 4 = \<lparr>otype = OBJ_CALL, ref_count = 1\<rparr>" "sysc busy_state = (\<lambda>_. (0, 0))"
  "sendq_next (calls busy_state 3) = Some 4" "sendq_next (calls busy_state 4) = None" "tmr busy_state 7 = Some zero_timer"
  by (simp_all add: busy_state_def two_requests_def idle_state_def zero_call_def)

theorem core_close_releases_once_witness:
  "\<exists>S'. core_close 2 silent 9 busy_state = Inr S' \<and> ref_count (objs S' 3) = 1 \<and> ref_count (objs S' 4) = 0
     \<and> core_close 0 silent 9 S' = Inr S'"
proof -
  have "\<exists>S'. core_close 2 silent 9 busy_state = Inr S'"
    by (simp add: core_close_def busy_state_fields zero_conn_def drop_watchdog_def timer_cancel_def drop_calls_def
        upd_conn_def upd_obj_def object_dec_ref_def object_destroy_def conn_deinit_def silent_def close_socket_def
        syscall_def return_port_def Let_def numeral_2_eq_2)
  then obtain S' where S': "core_close 2 silent 9 busy_state = Inr S'" by blast
  have "queues busy_state 9 [3, 4] []" "\<forall>c \<in> set ([3, 4] @ []). otype (objs busy_state c) = OBJ_CALL" "\<not> closed 9 busy_state"
    by (simp_all add: queues_def busy_state_fields zero_conn_def closed_def)
  moreover have "collectors (silent :: (callback_id, unit, unit) signal)" by unfold_locales (simp add: silent_def)
  ultimately show ?thesis
    using core_close_releases_once [where sig = silent and S = busy_state and a = 9 and sq = "[3, 4]" and rq = "[]" and n = 2
        and m = 0 and S' = S'] S' by (fastforce simp: busy_state_fields)
qed

end
