(* ===== verification/Program_State.thy ===== *)
theory Program_State
  imports Core_Engine
begin

text \<open>
  The state of the whole program: the state of the core, extended by the file-scope
  variables of the workload generators in \<^verbatim>\<open>src/src/gen\<close>, of the statistics collectors in
  \<^verbatim>\<open>src/src/stat\<close> and of \<^verbatim>\<open>httperf.c\<close>, and by what these modules ask of the environment: the
  files they open and the text they print.  The functions that they register as event
  handlers, pass to the rate generators or install as load generators are named by
  enumerations; their meaning is given in theory \<open>Program\<close>.
\<close>

section \<open>Functions that the modules pass around\<close>

datatype handler =
    Rate_done
  | Conn_rate_destroyed
  | Call_seq_conn_connected | Call_seq_call_done | Call_seq_call_destroyed
  | Misc_call_created | Uri_fixed_set_uri | Uri_wlog_set_uri | Uri_wset_set_uri
  | Session_sess_destroyed | Session_conn_connected | Session_conn_failed | Session_conn_timeout | Session_call_done
  | Cookie_call_issue | Cookie_call_recv_hdr
  | Wsess_call_destroyed | Wsess_sess_destroyed
  | Wsesslog_sess_destroyed | Wsesslog_call_destroyed
  | Wsesspage_call_recv_hdr | Wsesspage_call_recv_data | Wsesspage_sess_destroyed | Wsesspage_call_destroyed
  | Basic_perf_sample | Basic_conn_fail | Basic_conn_timeout | Basic_conn_created | Basic_conn_connecting
  | Basic_conn_connected | Basic_conn_destroyed | Basic_send_start | Basic_send_stop | Basic_recv_start | Basic_recv_stop
  | Sess_stat_perf_sample | Sess_stat_sess_created | Sess_stat_sess_destroyed | Sess_stat_conn_connected | Sess_stat_call_done
  | Print_send_raw_data | Print_recv_raw_data | Print_recv_data | Print_recv_stop | Print_call_destroyed

text \<open>The functions that a rate generator calls.\<close>

datatype tick_id = Make_conn | Wsess_sess_create | Wsesslog_sess_create | Wsesspage_sess_create

section \<open>Rate generators\<close>

text \<open>
  \<open>Rate_Generator\<close> of \<^verbatim>\<open>rate.h\<close>.  Its field \<open>rate\<close> always points to \<open>param.rate\<close>; \<open>arg\<close> is
  never used.  \<open>xsubi\<close> holds the three 16-bit words of the state of \<open>erand48\<close>, the first
  one lowest.
\<close>

record rate_gen =
  xsubi :: "48 word"
  rg_start :: real
  next_time :: real
  rg_timer :: "nat option"
  rg_tick :: tick_id
  rg_done :: bool
  next_interarrival_time :: dist_type

abbreviation (input) rg_conn_rate :: nat where "rg_conn_rate \<equiv> 0"
abbreviation (input) rg_wsess :: nat where "rg_wsess \<equiv> 1"
abbreviation (input) rg_wsesslog :: nat where "rg_wsesslog \<equiv> 2"
abbreviation (input) rg_wsesspage :: nat where "rg_wsesspage \<equiv> 3"

definition zero_rate_gen :: rate_gen where
  "zero_rate_gen = \<lparr>xsubi = 0, rg_start = 0, next_time = 0, rg_timer = None, rg_tick = Make_conn, rg_done = False,
     next_interarrival_time = DETERMINISTIC\<rparr>"

section \<open>Statistics\<close>

text \<open>\<open>basic\<close> of \<^verbatim>\<open>stat/basic.c\<close>, with \<open>num_active_conns\<close>, \<open>num_replies\<close> and the static variables of its functions.\<close>

definition num_bins :: nat where
  "num_bins = 100000"

record basic_stats =
  num_conns_issued :: u64
  num_replies_by_class :: "u64 list"
  num_200 :: u64
  num_302 :: u64
  num_client_timeouts :: u64
  num_sock_fdunavail :: u64
  num_sock_ftabfull :: u64
  num_sock_refused :: u64
  num_sock_reset :: u64
  num_sock_timeouts :: u64
  num_sock_addrunavail :: u64
  num_other_errors :: u64
  max_concurrent :: u64
  num_lifetimes :: u64
  conn_lifetime_sum :: real
  conn_lifetime_sum2 :: real
  conn_lifetime_min :: real
  conn_lifetime_max :: real
  num_reply_rates :: u64
  reply_rate_sum :: real
  reply_rate_sum2 :: real
  reply_rate_min :: real
  reply_rate_max :: real
  num_connects :: u64
  conn_connect_sum :: real
  num_responses :: u64
  call_response_sum :: real
  call_xfer_sum :: real
  num_requests_sent :: u64
  req_bytes_sent :: u64
  num_received :: u64
  hdr_bytes_received :: u64
  reply_bytes_received :: u64
  footer_bytes_received :: u64
  conn_lifetime_hist :: "u32 list"
  num_active_conns :: u64
  num_interval_replies :: u64
  prev200 :: u64
  prev302 :: u64

definition zero_basic :: basic_stats where
  "zero_basic = \<lparr>num_conns_issued = 0, num_replies_by_class = replicate 6 0, num_200 = 0, num_302 = 0,
     num_client_timeouts = 0, num_sock_fdunavail = 0, num_sock_ftabfull = 0, num_sock_refused = 0,
     num_sock_reset = 0, num_sock_timeouts = 0, num_sock_addrunavail = 0, num_other_errors = 0,
     max_concurrent = 0, num_lifetimes = 0, conn_lifetime_sum = 0, conn_lifetime_sum2 = 0,
     conn_lifetime_min = 0, conn_lifetime_max = 0, num_reply_rates = 0, reply_rate_sum = 0,
     reply_rate_sum2 = 0, reply_rate_min = 0, reply_rate_max = 0, num_connects = 0,
     conn_connect_sum = 0, num_responses = 0, call_response_sum = 0, call_xfer_sum = 0,
     num_requests_sent = 0, req_bytes_sent = 0, num_received = 0, hdr_bytes_received = 0,
     reply_bytes_received = 0, footer_bytes_received = 0, conn_lifetime_hist = replicate num_bins 0,
     num_active_conns = 0, num_interval_replies = 0, prev200 = 0, prev302 = 0\<rparr>"

text \<open>\<open>st\<close> of \<^verbatim>\<open>stat/sess_stat.c\<close>; \<open>len_hist\<close> has \<open>len_hist_alloced\<close> elements.\<close>

record session_stats =
  num_rate_samples :: u32
  num_completed_since_last_sample :: u32
  rate_sum :: real
  rate_sum2 :: real
  rate_min :: real
  rate_max :: real
  num_completed :: u32
  lifetime_sum :: real
  num_failed :: u32
  failtime_sum :: real
  num_sess_conns :: u32
  longest_session :: u32
  len_hist :: "u32 list"

definition zero_session_stats :: session_stats where
  "zero_session_stats = \<lparr>num_rate_samples = 0, num_completed_since_last_sample = 0, rate_sum = 0, rate_sum2 = 0,
     rate_min = 0, rate_max = 0, num_completed = 0, lifetime_sum = 0, num_failed = 0, failtime_sum = 0,
     num_sess_conns = 0, longest_session = 0, len_hist = []\<rparr>"

section \<open>The program state\<close>

text \<open>
  A session template of \<^verbatim>\<open>gen/wsesslog.c\<close>: its bursts and the number of its requests.
  \<open>u_wlog\<close> is the mapped file of URIs with the current position.
\<close>

record template =
  tp_bursts :: "burst list"
  tp_total_num_reqs :: int

record prog = "(callback_id, handler) core" +
  rate_gens :: "nat \<Rightarrow> rate_gen"
  current_rate :: nat
  duration_in_current_rate :: real
  num_conns_generated :: int
  num_conns_destroyed :: int
  num_conns_open :: int
  paused :: bool
  misc_extra :: string
  misc_extra_len :: nat
  misc_extra_file :: string
  misc_file_len :: nat
  misc_method_len :: nat
  fixed_uri_len :: nat
  wlog_file_map :: string
  wlog_current :: nat
  wset_miss_prob :: real
  wset_file_num :: u32
  wset_prefix_len :: nat
  max_qlen :: u64
  wsess_generated :: int
  wsess_destroyed :: int
  wsesslog_generated :: int
  wsesslog_destroyed :: int
  wsesspage_generated :: int
  wsesspage_destroyed :: int
  templates :: "template list"
  next_session_template :: nat
  page_prefix :: string
  basic :: basic_stats
  st :: session_stats
  verbose :: int
  periodic_stats :: int
  perf_sample_start :: real
  test_time_start :: real
  test_time_stop :: real
  files :: "string \<Rightarrow> string option"
  drand_state :: "48 word"
  stdout :: string

definition initial_prog :: prog where
  "initial_prog = core.extend initial_state
     \<lparr>rate_gens = (\<lambda>_. zero_rate_gen), current_rate = 0, duration_in_current_rate = 0,
      num_conns_generated = 0, num_conns_destroyed = 0, num_conns_open = 0, paused = False,
      misc_extra = [], misc_extra_len = 0, misc_extra_file = [], misc_file_len = 0, misc_method_len = 0,
      fixed_uri_len = 0, wlog_file_map = [], wlog_current = 0, wset_miss_prob = 0, wset_file_num = 0,
      wset_prefix_len = 0, max_qlen = 0, wsess_generated = 0, wsess_destroyed = 0, wsesslog_generated = 0, wsesslog_destroyed = 0,
      wsesspage_generated = 0, wsesspage_destroyed = 0, templates = [],
      next_session_template = 0, page_prefix = [], basic = zero_basic, st = zero_session_stats,
      verbose = 0, periodic_stats = 0, perf_sample_start = 0, test_time_start = 0, test_time_stop = 0,
      files = (\<lambda>_. None), drand_state = 0, stdout = []\<rparr>"

type_synonym psignal = "event_type \<Rightarrow> nat \<Rightarrow> any_type \<Rightarrow> prog \<Rightarrow> prog result"

end
