(* ===== verification/Gen_Rate.thy ===== *)
theory Gen_Rate
  imports Program_State Objects
begin

text \<open>
  \<^verbatim>\<open>src/src/gen/rate.c\<close>: the arrival process of connections or sessions, and
  \<^verbatim>\<open>src/src/gen/conn_rate.c\<close>: connections at that rate.  A rate generator calls its function
  \<open>tick\<close>; \<open>run_tick\<close> is the meaning of these functions.  \<open>double\<close> values are reals, so that
  rounding is not modelled.
\<close>

type_synonym tick_semantics = "tick_id \<Rightarrow> prog \<Rightarrow> (int \<times> prog) result"

section \<open>Random numbers\<close>

text \<open>The linear congruential generator of \<open>erand48\<close>, as POSIX defines it.\<close>

definition rand48_step :: "48 word \<Rightarrow> 48 word" where
  "rand48_step x = 0x5DEECE66D * x + 0xB"

definition rand48_value :: "48 word \<Rightarrow> real" where
  "rand48_value x = real (unat x) / 2 ^ 48"

definition upd_rg :: "nat \<Rightarrow> (rate_gen \<Rightarrow> rate_gen) \<Rightarrow> prog \<Rightarrow> prog" where
  "upd_rg g f S = S\<lparr>rate_gens := (rate_gens S)(g := f (rate_gens S g))\<rparr>"

definition erand48 :: "nat \<Rightarrow> prog \<Rightarrow> real \<times> prog" where
  "erand48 g S =
     (let x = rand48_step (xsubi (rate_gens S g)) in (rand48_value x, upd_rg g (\<lambda>r. r\<lparr>xsubi := x\<rparr>) S))"

section \<open>The four arrival processes\<close>

definition next_arrival_time_det :: "nat \<Rightarrow> prog \<Rightarrow> real \<times> prog" where
  "next_arrival_time_det g S = (mean_iat (rate (param S)), S)"

definition next_arrival_time_uniform :: "nat \<Rightarrow> prog \<Rightarrow> real \<times> prog" where
  "next_arrival_time_uniform g S =
     (let lower = min_iat (rate (param S)); upper = max_iat (rate (param S)); (u, S) = erand48 g S
      in (lower + (upper - lower) * u, S))"

definition next_arrival_time_exp :: "nat \<Rightarrow> prog \<Rightarrow> real \<times> prog" where
  "next_arrival_time_exp g S =
     (let mean = mean_iat (rate (param S)); (u, S) = erand48 g S in (- mean * ln (1 - u), S))"

definition next_arrival_time_variable :: "nat \<Rightarrow> prog \<Rightarrow> (real \<times> prog) result" where
  "next_arrival_time_variable g S =
     ebind (nth_c (iats (rate (param S))) (current_rate S)) (\<lambda>next.
     let S = S\<lparr>duration_in_current_rate := duration_in_current_rate S + next\<rparr> in
     ebind (nth_c (durations (rate (param S))) (current_rate S)) (\<lambda>dur.
       Inr (next,
         if dur \<le> duration_in_current_rate S then
           let S = S\<lparr>current_rate := current_rate S + 1\<rparr>;
               S = (if numRates (rate (param S)) \<le> int (current_rate S) then S\<lparr>current_rate := 0\<rparr> else S)
           in S\<lparr>duration_in_current_rate := 0\<rparr>
         else S)))"

definition next_interarrival :: "dist_type \<Rightarrow> nat \<Rightarrow> prog \<Rightarrow> (real \<times> prog) result" where
  "next_interarrival d g S =
     (case d of
        DETERMINISTIC \<Rightarrow> Inr (next_arrival_time_det g S)
      | UNIFORM \<Rightarrow> Inr (next_arrival_time_uniform g S)
      | EXPONENTIAL \<Rightarrow> Inr (next_arrival_time_exp g S)
      | VARIABLE \<Rightarrow> next_arrival_time_variable g S)"

section \<open>The generator\<close>

definition call_tick :: "tick_semantics \<Rightarrow> nat \<Rightarrow> prog \<Rightarrow> prog result" where
  "call_tick run_tick g S =
     ebind (run_tick (rg_tick (rate_gens S g)) S) (\<lambda>(r, S). Inr (upd_rg g (\<lambda>x. x\<lparr>rg_done := (r < 0)\<rparr>) S))"

text \<open>The loop of \<open>tick\<close>: \<open>n\<close> bounds its iterations, \<open>t\<close> is the time read at the beginning.\<close>

fun tick_loop :: "nat \<Rightarrow> tick_semantics \<Rightarrow> nat \<Rightarrow> real \<Rightarrow> prog \<Rightarrow> prog result" where
  "tick_loop 0 run_tick g t S =
     (if next_time (rate_gens S g) < t then Inl Out_of_fuel
      else let (w, S) = timer_schedule Rate_tick g (next_time (rate_gens S g) - t) S
           in Inr (upd_rg g (\<lambda>r. r\<lparr>rg_timer := w\<rparr>) S))"
| "tick_loop (Suc n) run_tick g t S =
     (if next_time (rate_gens S g) < t then
        ebind (next_interarrival (next_interarrival_time (rate_gens S g)) g S) (\<lambda>(delay, S).
        let S = upd_rg g (\<lambda>r. r\<lparr>next_time := next_time r + delay\<rparr>) S in
        ebind (call_tick run_tick g S) (\<lambda>S.
          if rg_done (rate_gens S g) then Inr S else tick_loop n run_tick g t S))
      else let (w, S) = timer_schedule Rate_tick g (next_time (rate_gens S g) - t) S
           in Inr (upd_rg g (\<lambda>r. r\<lparr>rg_timer := w\<rparr>) S))"

definition rate_tick :: "nat \<Rightarrow> tick_semantics \<Rightarrow> nat \<Rightarrow> prog \<Rightarrow> prog result" where
  "rate_tick n run_tick g S =
     (let (t, S) = timer_now S; S = upd_rg g (\<lambda>r. r\<lparr>rg_timer := None\<rparr>) S in
      if rg_done (rate_gens S g) then Inr S else tick_loop n run_tick g t S)"

definition rate_done :: "tick_semantics \<Rightarrow> nat \<Rightarrow> prog \<Rightarrow> prog result" where
  "rate_done run_tick g S = (if rg_done (rate_gens S g) then Inr S else call_tick run_tick g S)"

text \<open>\<open>xsubi\<close> is seeded from the client's number.\<close>

definition rate_seed :: "u32 \<Rightarrow> 48 word" where
  "rate_seed i = (let w = (\<lambda>x :: u32. ucast (ucast x :: 16 word) :: 48 word) in
     w (0x1234 XOR i) OR push_bit 16 (w (0x5678 XOR push_bit 8 i)) OR push_bit 32 (w (0x9abc XOR NOT i)))"

definition rate_generator_start :: "tick_semantics \<Rightarrow> nat \<Rightarrow> event_type \<Rightarrow> prog \<Rightarrow> prog result" where
  "rate_generator_start run_tick g completion_event S =
     (let S = upd_rg g (\<lambda>r. r\<lparr>xsubi := rate_seed (client_id (param S))\<rparr>) S in
      ebind (if 0 < rate_param (rate (param S)) then
               ebind (next_interarrival (dist (rate (param S))) g
                       (upd_rg g (\<lambda>r. r\<lparr>next_interarrival_time := dist (rate (param S))\<rparr>) S)) (\<lambda>(delay, S).
               let (t, S) = timer_now S;
                   S = upd_rg g (\<lambda>r. r\<lparr>next_time := t + delay\<rparr>) S;
                   (w, S) = timer_schedule Rate_tick g delay S
               in Inr (upd_rg g (\<lambda>r. r\<lparr>rg_timer := w\<rparr>) S))
             else event_register_handler completion_event Rate_done (Ptr g) S) (\<lambda>S.
      let (t, S) = timer_now S in call_tick run_tick g (upd_rg g (\<lambda>r. r\<lparr>rg_start := t\<rparr>) S)))"

definition rate_generator_stop :: "nat \<Rightarrow> prog \<Rightarrow> prog result" where
  "rate_generator_stop g S =
     ebind (case rg_timer (rate_gens S g) of
              None \<Rightarrow> Inr S
            | Some w \<Rightarrow> ebind (timer_cancel w S) (\<lambda>S. Inr (upd_rg g (\<lambda>r. r\<lparr>rg_timer := None\<rparr>) S))) (\<lambda>S.
       Inr (upd_rg g (\<lambda>r. r\<lparr>rg_done := True\<rparr>) S))"

section \<open>Connections at a fixed rate\<close>

text \<open>The counters are \<open>int\<close>; comparing one with an \<open>unsigned long\<close> converts it.\<close>

definition as_ulong :: "int \<Rightarrow> u64" where
  "as_ulong k = word_of_int k"

definition make_conn :: "nat \<Rightarrow> psignal \<Rightarrow> prog \<Rightarrow> (int \<times> prog) result" where
  "make_conn n sig S =
     (if paused S then Inr (0, S)
      else
        let k = num_conns_generated S; S = S\<lparr>num_conns_generated := k + 1\<rparr> in
        if num_conns (param S) \<le> as_ulong k then Inr (- 1, S)
        else if max_conns (param S) \<noteq> 0 \<and> max_conns (param S) \<le> as_ulong (num_conns_open S) then Inr (0, S)
        else
          ebind (object_new sig OBJ_CONN S) (\<lambda>(s, S).
          case s of
            None \<Rightarrow> Inr (- 1, S)
          | Some s \<Rightarrow>
              ebind (core_connect n sig s (S\<lparr>num_conns_open := num_conns_open S + 1\<rparr>)) (\<lambda>(r, S).
              if r = - 1 then
                Inr (0, S\<lparr>num_conns_generated := num_conns_generated S - 1,
                          num_conns_destroyed := num_conns_destroyed S - 1, paused := True\<rparr>)
              else Inr (0, S))))"

definition conn_rate_destroyed :: "prog \<Rightarrow> prog result" where
  "conn_rate_destroyed S =
     (let k = num_conns_destroyed S + 1;
          S = S\<lparr>num_conns_destroyed := k\<rparr>;
          S = (if num_conns (param S) \<le> as_ulong k then core_exit S else S)
      in Inr (S\<lparr>num_conns_open := num_conns_open S - 1, paused := False\<rparr>))"

definition conn_rate_init :: "prog \<Rightarrow> prog result" where
  "conn_rate_init S =
     event_register_handler EV_CONN_DESTROYED Conn_rate_destroyed (Lng 0)
       (upd_rg rg_conn_rate (\<lambda>r. r\<lparr>rg_tick := Make_conn\<rparr>) S)"

definition conn_rate_start :: "tick_semantics \<Rightarrow> prog \<Rightarrow> prog result" where
  "conn_rate_start run_tick S = rate_generator_start run_tick rg_conn_rate EV_CONN_DESTROYED S"

section \<open>Interarrival times\<close>

lemma rand48_value_bounds: "0 \<le> rand48_value x" "rand48_value x < 1"
proof -
  have "unat x < 2 ^ 48" using unsigned_less [of x] by simp
  then have "real (unat x) < 2 ^ 48" by (metis of_nat_less_iff of_nat_numeral of_nat_power)
  then show "rand48_value x < 1" by (simp add: rand48_value_def)
  show "0 \<le> rand48_value x"
    unfolding rand48_value_def by (intro divide_nonneg_nonneg of_nat_0_le_iff) simp
qed

lemma erand48_cases:
  obtains x where "erand48 g S = (rand48_value x, upd_rg g (\<lambda>r. r\<lparr>xsubi := x\<rparr>) S)"
  by (simp add: erand48_def Let_def)

lemma upd_rg_simps [simp]:
  "rate_gens (upd_rg g f S) = (rate_gens S)(g := f (rate_gens S g))"
  "param (upd_rg g f S) = param S"
  by (simp_all add: upd_rg_def)

text \<open>
  C27: the arrival processes give the interarrival times that they promise: the mean for
  a deterministic process, a value between the minimum (included) and the maximum
  (excluded) for a uniform one, a time that is not negative for an exponential one, and
  the current step of the schedule for a variable one, whose position always stays
  inside the schedule.
\<close>

theorem interarrival_in_range:
  assumes "next_interarrival d g S = Inr (delay, S')"
  shows "(d \<noteq> DETERMINISTIC \<or> delay = mean_iat (rate (param S)))
    \<and> (d \<noteq> UNIFORM \<or> max_iat (rate (param S)) \<le> min_iat (rate (param S))
        \<or> min_iat (rate (param S)) \<le> delay \<and> delay < max_iat (rate (param S)))
    \<and> (d \<noteq> EXPONENTIAL \<or> mean_iat (rate (param S)) < 0 \<or> 0 \<le> delay)
    \<and> (d \<noteq> VARIABLE \<or> delay = iats (rate (param S)) ! current_rate S
        \<and> (numRates (rate (param S)) \<le> int (current_rate S) \<or> int (current_rate S') < numRates (rate (param S))))"
proof (cases d)
  case DETERMINISTIC
  then show ?thesis using assms by (auto simp: next_interarrival_def next_arrival_time_det_def)
next
  case UNIFORM
  let ?r = "rate (param S)"
  obtain x where x: "erand48 g S = (rand48_value x, upd_rg g (\<lambda>r. r\<lparr>xsubi := x\<rparr>) S)"
    by (rule erand48_cases)
  have d: "delay = min_iat ?r + (max_iat ?r - min_iat ?r) * rand48_value x"
    using assms UNIFORM by (simp add: next_interarrival_def next_arrival_time_uniform_def x Let_def)
  have "min_iat ?r \<le> delay \<and> delay < max_iat ?r" if "min_iat ?r < max_iat ?r"
  proof -
    have "(max_iat ?r - min_iat ?r) * rand48_value x < (max_iat ?r - min_iat ?r) * 1"
      using that rand48_value_bounds by (intro mult_strict_left_mono) auto
    moreover have "0 \<le> (max_iat ?r - min_iat ?r) * rand48_value x"
      using that rand48_value_bounds by simp
    ultimately show ?thesis using d by simp
  qed
  then show ?thesis using UNIFORM by auto
next
  case EXPONENTIAL
  obtain x where x: "erand48 g S = (rand48_value x, upd_rg g (\<lambda>r. r\<lparr>xsubi := x\<rparr>) S)"
    by (rule erand48_cases)
  have d: "delay = - mean_iat (rate (param S)) * ln (1 - rand48_value x)"
    using assms EXPONENTIAL by (simp add: next_interarrival_def next_arrival_time_exp_def x Let_def)
  have "ln (1 - rand48_value x) \<le> 0" using rand48_value_bounds [of x] by simp
  then have "0 \<le> delay" if "0 \<le> mean_iat (rate (param S))"
    unfolding d using that by (simp add: mult_nonneg_nonpos)
  then have "mean_iat (rate (param S)) < 0 \<or> 0 \<le> delay" by linarith
  then show ?thesis using EXPONENTIAL by simp
next
  case VARIABLE
  then show ?thesis using assms
    by (auto simp: next_interarrival_def next_arrival_time_variable_def Let_def Inr_iff split: if_splits)
qed

theorem interarrival_in_range_witness:
  "\<exists>delay S'. next_interarrival UNIFORM 0
       (initial_prog\<lparr>param := default_params\<lparr>rate := default_rate\<lparr>min_iat := 2, max_iat := 3\<rparr>\<rparr>\<rparr>) = Inr (delay, S')
     \<and> 2 \<le> delay \<and> delay < 3"
proof -
  let ?S = "initial_prog\<lparr>param := default_params\<lparr>rate := default_rate\<lparr>min_iat := 2, max_iat := 3\<rparr>\<rparr>\<rparr>"
  obtain delay S' where e: "next_interarrival UNIFORM 0 ?S = Inr (delay, S')"
    by (cases "next_arrival_time_uniform 0 ?S") (simp add: next_interarrival_def)
  then show ?thesis using interarrival_in_range [OF e] by (auto simp: e)
qed

section \<open>The generator keeps its rate\<close>

text \<open>
  One more tick, when the generator is behind: the next time moves on by the interarrival
  time, whatever the time is.
\<close>

lemma tick_loop_catches_up:
  assumes "0 < d" "k \<le> n"
    and "next_interarrival_time (rate_gens S g) = DETERMINISTIC" "mean_iat (rate (param S)) = d"
    and "t \<le> next_time (rate_gens S g) + real k * d" "\<And>j. j < k \<Longrightarrow> next_time (rate_gens S g) + real j * d < t"
    and step: "\<And>j S. i \<le> j \<Longrightarrow> j < i + k \<Longrightarrow> P j S \<Longrightarrow> \<exists>S'. run_tick (rg_tick (rate_gens S g)) S = Inr (0, S')
          \<and> rate_gens S' = rate_gens S \<and> rate (param S') = rate (param S) \<and> P (Suc j) S'"
    and upd: "\<And>j f S. P j S \<Longrightarrow> P j (upd_rg g f S)" and P: "P i S"
  shows "\<exists>S1. P (i + k) S1 \<and> next_time (rate_gens S1 g) = next_time (rate_gens S g) + real k * d
     \<and> tick_loop n run_tick g t S
       = (let (w, S2) = timer_schedule Rate_tick g (next_time (rate_gens S1 g) - t) S1
          in Inr (upd_rg g (\<lambda>r. r\<lparr>rg_timer := w\<rparr>) S2))"
  using assms(2-6) P step
proof (induction k arbitrary: n i S)
  case 0
  then have "\<not> next_time (rate_gens S g) < t" by simp
  then have "tick_loop n run_tick g t S
       = (let (w, S2) = timer_schedule Rate_tick g (next_time (rate_gens S g) - t) S
          in Inr (upd_rg g (\<lambda>r. r\<lparr>rg_timer := w\<rparr>) S2))"
    by (cases n) simp_all
  then show ?case using "0.prems"(6) by (intro exI [of _ S]) simp
next
  case (Suc k)
  obtain m where n: "n = Suc m" "k \<le> m" using Suc.prems(1) by (cases n) auto
  have late: "next_time (rate_gens S g) < t" using Suc.prems(5) [of 0] by simp
  let ?S1 = "upd_rg g (\<lambda>r. r\<lparr>next_time := next_time r + d\<rparr>) S"
  have "P i ?S1" using Suc.prems(6) by (rule upd)
  then obtain S2 where S2: "run_tick (rg_tick (rate_gens S g)) ?S1 = Inr (0, S2)" "rate_gens S2 = rate_gens ?S1"
      "rate (param S2) = rate (param S)" "P (Suc i) S2"
    using Suc.prems(7) [of i ?S1] by (auto simp del: fun_upd_apply simp: fun_upd_same)
  let ?S3 = "upd_rg g (\<lambda>x. x\<lparr>rg_done := False\<rparr>) S2"
  have run: "tick_loop n run_tick g t S = tick_loop m run_tick g t ?S3"
    using late S2(1) Suc.prems(2,3) by (simp add: n next_interarrival_def next_arrival_time_det_def call_tick_def)
  have "\<exists>S1. P (Suc i + k) S1 \<and> next_time (rate_gens S1 g) = next_time (rate_gens ?S3 g) + real k * d
     \<and> tick_loop m run_tick g t ?S3
       = (let (w, S2) = timer_schedule Rate_tick g (next_time (rate_gens S1 g) - t) S1
          in Inr (upd_rg g (\<lambda>r. r\<lparr>rg_timer := w\<rparr>) S2))"
  proof (rule Suc.IH)
    show "P (Suc i) ?S3" using S2(4) by (rule upd)
    show "next_time (rate_gens ?S3 g) + real j * d < t" if "j < k" for j
      using Suc.prems(5) [of "Suc j"] that by (simp add: S2(2) algebra_simps)
  qed (use n Suc.prems S2 in \<open>auto simp: algebra_simps\<close>)
  then show ?case by (simp add: run S2(2) algebra_simps)
qed


section \<open>The limit of concurrent connections\<close>

text \<open>While the limit is reached, \<open>make_conn\<close> only counts.\<close>

lemma make_conn_counts:
  assumes "\<not> paused S" "max_conns (param S) \<noteq> 0" "max_conns (param S) \<le> as_ulong (num_conns_open S)"
    and "0 \<le> num_conns_generated S" "num_conns_generated S < int (unat (num_conns (param S)))"
  shows "make_conn n sig S = Inr (0, S\<lparr>num_conns_generated := num_conns_generated S + 1\<rparr>)"
proof -
  have "nat (num_conns_generated S) < 2 ^ 64"
    using assms(4,5) uint_bounded [of "num_conns (param S)"] by simp
  then have "unat (as_ulong (num_conns_generated S)) = nat (num_conns_generated S)"
    using assms(4) by (simp add: as_ulong_def unat_eq_nat_uint uint_word_of_int nat_less_iff)
  then have "as_ulong (num_conns_generated S) < num_conns (param S)"
    using assms(4,5) by (simp only: word_less_nat_alt)
  then show ?thesis using assms(1-3) by (simp add: make_conn_def Let_def)
qed

text \<open>
  Once the limit of \<open>--max-connections\<close> is reached, every tick until a connection is
  closed counts as a generated connection although none is opened; after as many ticks as
  there are connections left to make, \<open>make_conn\<close> stops the generator, with no object
  made and no connection counted as destroyed.
\<close>

theorem make_conn_at_limit:
  assumes "\<not> paused S" "max_conns (param S) \<noteq> 0" "max_conns (param S) \<le> as_ulong (num_conns_open S)"
    and "0 \<le> num_conns_generated S" "num_conns_generated S + int k = int (unat (num_conns (param S)))"
  shows "efold (\<lambda>_ S. ebind (make_conn n sig S) (\<lambda>(r, S). c_assert (0 \<le> r) S)) [0..<k] S
       = Inr (S\<lparr>num_conns_generated := int (unat (num_conns (param S)))\<rparr>)
     \<and> make_conn n sig (S\<lparr>num_conns_generated := int (unat (num_conns (param S)))\<rparr>)
       = Inr (- 1, S\<lparr>num_conns_generated := int (unat (num_conns (param S))) + 1\<rparr>)"
proof
  let ?step = "\<lambda>_ S. ebind (make_conn n sig S) (\<lambda>(r, S). c_assert (0 \<le> r) S)"
  have *: "efold ?step [0..<j] S = Inr (S\<lparr>num_conns_generated := num_conns_generated S + int j\<rparr>)" if "j \<le> k" for j
    using that
  proof (induction j)
    case (Suc j)
    let ?T = "S\<lparr>num_conns_generated := num_conns_generated S + int j\<rparr>"
    have "make_conn n sig ?T = Inr (0, ?T\<lparr>num_conns_generated := num_conns_generated ?T + 1\<rparr>)"
      by (rule make_conn_counts) (use Suc.prems assms in auto)
    then show ?case using Suc by (simp add: efold_append add.assoc add.commute)
  qed simp
  show "efold ?step [0..<k] S = Inr (S\<lparr>num_conns_generated := int (unat (num_conns (param S)))\<rparr>)"
    using * [of k] assms(5) by simp
  have "as_ulong (int (unat (num_conns (param S)))) = num_conns (param S)"
    by (simp add: as_ulong_def)
  then show "make_conn n sig (S\<lparr>num_conns_generated := int (unat (num_conns (param S)))\<rparr>)
       = Inr (- 1, S\<lparr>num_conns_generated := int (unat (num_conns (param S))) + 1\<rparr>)"
    using assms(1) by (simp add: make_conn_def)
qed

definition two_open :: prog where
  "two_open = initial_prog\<lparr>param := default_params\<lparr>num_conns := 9, max_conns := 2,
      rate := default_rate\<lparr>mean_iat := 2\<rparr>\<rparr>, num_conns_open := 2, clock := (\<lambda>_. 5),
      rate_gens := (\<lambda>_. zero_rate_gen\<lparr>next_time := 2\<rparr>)\<rparr>"

theorem make_conn_at_limit_witness:
  "efold (\<lambda>_ S. ebind (make_conn 3 (\<lambda>_ _ _. Inr) S) (\<lambda>(r, S). c_assert (0 \<le> r) S)) [0..<9] two_open
     = Inr (two_open\<lparr>num_conns_generated := 9\<rparr>)
   \<and> make_conn 3 (\<lambda>_ _ _. Inr) (two_open\<lparr>num_conns_generated := 9\<rparr>)
     = Inr (- 1, two_open\<lparr>num_conns_generated := 10\<rparr>)
   \<and> num_conns_open two_open = 2"
  using make_conn_at_limit [of two_open 9 3 "\<lambda>_ _ _. Inr"]
  by (simp add: two_open_def initial_prog_def core.defs default_params_def as_ulong_def)


end
