(* ===== verification/Gen_Uri.thy ===== *)
theory Gen_Uri
  imports Program_State Objects C_String
begin

text \<open>
  The load generators that fill in a request when it is made: \<^verbatim>\<open>src/src/gen/misc.c\<close>
  (method and additional headers), \<^verbatim>\<open>uri_fixed.c\<close> (one URI), \<^verbatim>\<open>uri_wlog.c\<close> (the URIs of a
  file, in turn) and \<^verbatim>\<open>uri_wset.c\<close> (the files of a working set).  Messages on the
  error output and those of \<open>--verbose\<close> are left out.
\<close>

section \<open>Additional headers\<close>

text \<open>
  \<open>strtol\<close> in base 8, of a string that begins with a digit: the value (\<open>LONG_MAX\<close> if it
  is too large) and the number of characters converted.
\<close>

definition strtol_octal :: "string \<Rightarrow> nat \<times> nat" where
  "strtol_octal s = (let ds = takeWhile (is_digit_c 8) s in (min (number 8 ds) (2 ^ 63 - 1), length ds))"

text \<open>
  \<open>unescape\<close>: the argument is a C string, so that a backslash at its end makes the loop
  read behind the terminator.  Without an octal digit \<open>strtol\<close> converts nothing and
  leaves the pointer at the digit; \<open>char_of\<close> keeps the low eight bits.
\<close>

function (sequential) unescape :: "string \<Rightarrow> string result" where
  "unescape [] = Inr []"
| "unescape [c] = (if c = CHR 0x5C then Inl Undefined else Inr [c])"
| "unescape (c # d # s) =
     (if c \<noteq> CHR 0x5C then ebind (unescape (d # s)) (\<lambda>t. Inr (c # t))
      else if d = CHR ''a'' then ebind (unescape s) (\<lambda>t. Inr (LF # t))
      else if d = CHR ''r'' then ebind (unescape s) (\<lambda>t. Inr (CR # t))
      else if d = CHR ''n'' then ebind (unescape s) (\<lambda>t. Inr (CR # LF # t))
      else if is_digit_c 10 d then
        (case strtol_octal (d # s) of (v, n) \<Rightarrow>
           ebind (unescape (drop n (d # s))) (\<lambda>t. Inr (char_of v # t)))
      else ebind (unescape s) (\<lambda>t. Inr (d # t)))"
  by pat_completeness auto
termination by (relation "measure length") auto

declare unescape.simps [simp del]

text \<open>\<open>malloc\<close> under \<open>strdup\<close> may fail, which ends the program.\<close>

definition misc_init :: "prog \<Rightarrow> prog result" where
  "misc_init S =
     ebind (case additional_header (param S) of
              None \<Rightarrow> Inr S
            | Some h \<Rightarrow>
                (case malloc S of
                   (None, S) \<Rightarrow> Inl (Exit 1)
                 | (Some _, S) \<Rightarrow> ebind (unescape (cstr h)) (\<lambda>t.
                     Inr (S\<lparr>misc_extra := t, misc_extra_len := length t\<rparr>)))) (\<lambda>S.
     let S = (case additional_header_file (param S) of
                None \<Rightarrow> S
              | Some f \<Rightarrow>
                  (case files S f of
                     None \<Rightarrow> S
                   | Some t \<Rightarrow> S\<lparr>misc_extra_file := t, misc_file_len := length t\<rparr>));
         S = (case req_method (param S) of
                None \<Rightarrow> S
              | Some m \<Rightarrow> S\<lparr>misc_method_len := length (cstr m)\<rparr>)
     in event_register_handler EV_CALL_NEW Misc_call_created (Lng 0) S)"

definition misc_call_created :: "nat \<Rightarrow> prog \<Rightarrow> prog result" where
  "misc_call_created c S =
     ebind (if 0 < misc_method_len S then
              ebind (deref (req_method (param S))) (\<lambda>m.
                Inr (upd_call c (call_set_method m (misc_method_len S)) S))
            else Inr S) (\<lambda>S.
     let S = (if 0 < misc_extra_len S
              then snd (call_append_request_header c (misc_extra S) (misc_extra_len S) S) else S);
         S = (if 0 < misc_file_len S
              then snd (call_append_request_header c (misc_extra_file S) (misc_file_len S) S) else S)
     in Inr S)"

section \<open>A fixed URI\<close>

definition uri_fixed_set_uri :: "nat \<Rightarrow> prog \<Rightarrow> prog result" where
  "uri_fixed_set_uri c S = Inr (upd_call c (call_set_uri (uri (param S)) (fixed_uri_len S)) S)"

definition uri_fixed_init :: "prog \<Rightarrow> prog result" where
  "uri_fixed_init S =
     event_register_handler EV_CALL_NEW Uri_fixed_set_uri (Lng 0) (S\<lparr>fixed_uri_len := length (cstr (uri (param S)))\<rparr>)"

section \<open>A list of URIs\<close>

text \<open>
  The memory behind the end of the mapped file is zero up to the end of its page; when
  the file fills its last page, \<open>strlen\<close> reads outside the mapping.  The length is an
  \<open>int\<close>: files of 2 GB and more are not considered.
\<close>

definition page_size :: nat where
  "page_size = 4096"

definition map_strlen :: "string \<Rightarrow> nat \<Rightarrow> nat result" where
  "map_strlen f k =
     (let n = length (cstr (drop k f)) in
      if length f \<le> k + n \<and> page_size dvd length f then Inl Undefined else Inr n)"

definition wlog_rewind :: "prog \<Rightarrow> prog" where
  "wlog_rewind S =
     (let S = S\<lparr>wlog_current := 0\<rparr> in if \<not> wlog_do_loop (param S) then core_exit S else S)"

lemma upd_call_prog [simp]:
  "wlog_file_map (upd_call c f S) = wlog_file_map S" "wlog_current (upd_call c f S) = wlog_current S"
  "wset_file_num (upd_call c f S) = wset_file_num S" "wset_miss_prob (upd_call c f S) = wset_miss_prob S"
  "param (upd_call c f S) = param S" "running (upd_call c f S) = running S"
  "calls (upd_call c f S) = (calls S)(c := f (calls S c))"
  by (simp_all add: upd_call_def)

lemma wlog_rewind_simps [simp]:
  "wlog_file_map (wlog_rewind S) = wlog_file_map S" "wlog_current (wlog_rewind S) = 0"
  "calls (wlog_rewind S) = calls S" "running (wlog_rewind S) \<longleftrightarrow> running S \<and> wlog_do_loop (param S)"
  "wlog_do_loop (param (wlog_rewind S)) = wlog_do_loop (param S)"
  by (simp_all add: wlog_rewind_def core_exit_def Let_def)

function wlog_loop :: "nat \<Rightarrow> bool \<Rightarrow> prog \<Rightarrow> prog result" where
  "wlog_loop c did_wrap S =
     (let wraps = (length (wlog_file_map S) \<le> wlog_current S) in
      if wraps \<and> did_wrap then Inl (Exit 1)
      else
        let T = (if wraps then wlog_rewind S else S); k = wlog_current T in
        case map_strlen (wlog_file_map T) k of
          Inl e \<Rightarrow> Inl e
        | Inr n \<Rightarrow>
            let U = (upd_call c (call_set_uri (drop k (wlog_file_map T)) n) T)\<lparr>wlog_current := k + n + 1\<rparr>
            in if n = 0 then wlog_loop c (did_wrap \<or> wraps) U else Inr U)"
  by pat_completeness auto

text \<open>Each round moves on in the file, and only one wraps around.\<close>

termination
  by (relation "measure (\<lambda>(c, w, S :: prog). (if w then 0 else length (wlog_file_map S) + 1)
    + (length (wlog_file_map S) + 1 - wlog_current S))") (auto simp: map_strlen_def split: if_splits)

declare wlog_loop.simps [simp del]

definition uri_wlog_set_uri :: "nat \<Rightarrow> prog \<Rightarrow> prog result" where
  "uri_wlog_set_uri c S = wlog_loop c False S"

definition uri_wlog_init :: "prog \<Rightarrow> prog result" where
  "uri_wlog_init S =
     (case wlog_file (param S) of
        None \<Rightarrow> Inl (Exit 1)
      | Some f \<Rightarrow>
          (case files S f of
             None \<Rightarrow> Inl (Exit 1)
           | Some t \<Rightarrow>
               if t = [] then Inl (Exit 1)
               else event_register_handler EV_CALL_NEW Uri_wlog_set_uri (Lng 0)
                      (S\<lparr>wlog_file_map := t, wlog_current := 0\<rparr>)))"

section \<open>A working set\<close>

definition max_uri_len :: nat where
  "max_uri_len = 128"

text \<open>
  The loop that fills in the path: \<open>room\<close> is the number of bytes of the buffer in front
  of \<open>acc\<close>.  \<open>j\<close> wraps around at 32 bits; writing in front of the buffer is an error.
\<close>

function wset_path :: "nat \<Rightarrow> u32 \<Rightarrow> u32 \<Rightarrow> u32 \<Rightarrow> string \<Rightarrow> (nat \<times> string) result" where
  "wset_path room num_files j n acc =
     (if j < num_files then
        if room < 2 then Inl Undefined
        else wset_path (room - 2) num_files (j * 10) (n div 10)
               (CHR ''/'' # char_of (48 + unat (n mod 10)) # acc)
      else Inr (room, acc))"
  by pat_completeness auto
termination by (relation "measure (\<lambda>(room, _). room)") auto

declare wset_path.simps [simp del]

definition wset_next_file :: "prog \<Rightarrow> prog" where
  "wset_next_file S =
     (let S = S\<lparr>wset_miss_prob := wset_miss_prob S + wset_target_miss_rate (param S)\<rparr> in
      if 1 \<le> wset_miss_prob S then
        let k = wset_file_num S + num_clients (param S) in
        S\<lparr>wset_miss_prob := wset_miss_prob S - 1,
          wset_file_num := (if wset_num_files (param S) \<le> k then k - wset_num_files (param S) else k)\<rparr>
      else S)"

definition uri_wset_set_uri :: "nat \<Rightarrow> prog \<Rightarrow> prog result" where
  "uri_wset_set_uri c S =
     (let S = wset_next_file S in
      ebind (wset_path (max_uri_len - 6) (wset_num_files (param S)) 1 (wset_file_num S) (''.html'' @ [NUL]))
        (\<lambda>(room, path).
          if room < wset_prefix_len S then Inl (Exit 1)
          else
            let buf = take (wset_prefix_len S) (uri (param S)) @ path in
            Inr (upd_call c (call_set_uri buf (length buf - 1))
                   (upd_call_priv c (\<lambda>p. p\<lparr>wset_uri := buf\<rparr>) S))))"

text \<open>\<open>drand48\<close>; reading \<open>param.uri\<close> in front of an empty string is an error.\<close>

definition drand48 :: "prog \<Rightarrow> real \<times> prog" where
  "drand48 S = (let x = 0x5DEECE66D * drand_state S + 0xB in (real (unat x) / 2 ^ 48, S\<lparr>drand_state := x\<rparr>))"

definition uri_wset_init :: "prog \<Rightarrow> prog result" where
  "uri_wset_init S =
     (let (p, S) = drand48 S;
          S = S\<lparr>wset_miss_prob := p, wset_file_num := client_id (param S)\<rparr>;
          (off, S) = object_expand OBJ_CALL (of_nat max_uri_len) S;
          u = cstr (uri (param S))
      in if u = [] then Inl Undefined
         else
           let S = (if last u = CHR ''/''
                    then S\<lparr>param := (param S)\<lparr>uri := drop 1 (uri (param S))\<rparr>, wset_prefix_len := length u - 1\<rparr>
                    else S\<lparr>wset_prefix_len := length u\<rparr>)
           in event_register_handler EV_CALL_NEW Uri_wset_set_uri (Lng 0) S)"

section \<open>Escapes are decoded\<close>

text \<open>
  A way to write any bytes for \<open>--add-header\<close>: characters that mean themselves are left
  alone, backslash, line feed and carriage return have their own escapes, and everything
  else is written in octal.
\<close>

definition literal_char :: "char \<Rightarrow> bool" where
  "literal_char c \<longleftrightarrow> 32 \<le> (of_char c :: nat) \<and> (of_char c :: nat) < 127 \<and> c \<noteq> CHR 0x5C \<and> \<not> is_digit_c 10 c"

definition escape_char :: "char \<Rightarrow> string" where
  "escape_char c =
     (if c = CHR 0x5C then [CHR 0x5C, CHR 0x5C]
      else if c = LF then CHR 0x5C # ''a''
      else if c = CR then CHR 0x5C # ''r''
      else if literal_char c then [c]
      else CHR 0x5C # digits 8 (of_char c))"

definition escape :: "string \<Rightarrow> string" where
  "escape s = concat (map escape_char s)"

lemma escape_head:
  "escape s = [] \<or> \<not> is_digit_c 8 (hd (escape s))"
proof (cases s)
  case (Cons c s')
  have bs: "\<not> is_digit_c 8 (CHR 0x5C)" by code_simp
  have "\<not> is_digit_c 8 c" if "literal_char c"
    using that by (auto simp: literal_char_def is_digit_c_def)
  then show ?thesis using bs by (auto simp: Cons escape_def escape_char_def)
qed (simp add: escape_def)

lemma unescape_octal:
  assumes "rest = [] \<or> \<not> is_digit_c 8 (hd rest)"
  shows "unescape (CHR 0x5C # digits 8 (of_char c) @ rest) = ebind (unescape rest) (\<lambda>t. Inr (c # t))"
proof -
  let ?d = "digits 8 (of_char c :: nat)"
  have cls: "is_digit_c 8 x" if "x \<in> set ?d" for x using digits_plain [of 8 x] that by simp
  obtain d ds where d: "?d = d # ds" by (cases ?d) auto
  have d8: "is_digit_c 8 d" using cls d by simp
  then have d10: "is_digit_c 10 d" by (simp add: is_digit_c_def)
  have neq: "d \<noteq> CHR ''a''" "d \<noteq> CHR ''r''" "d \<noteq> CHR ''n''"
    using d8 by (auto simp: is_digit_c_def digit_val_def)
  have "(of_char c :: nat) < 256" by simp
  then have le: "(of_char c :: nat) \<le> 2 ^ 63 - 1" by (rule order.trans [OF less_imp_le]) simp
  have tw: "takeWhile (is_digit_c 8) (d # ds @ rest) = d # ds"
    using takeWhile_append_stop [of ?d "is_digit_c 8" rest] cls assms d by simp
  have st: "strtol_octal (d # ds @ rest) = (of_char c, length ?d)"
    using number_digits [of 8 "of_char c :: nat"] min_absorb1 [OF le] d
    unfolding strtol_octal_def tw Let_def by simp
  have dr: "drop (length ?d) (d # ds @ rest) = rest" by (simp add: d)
  show ?thesis using d10 neq by (simp add: d unescape.simps(3) st dr del: drop.simps)
qed

text \<open>
  C29: whatever bytes a header is made of, \<open>unescape\<close> gives them back from their escaped
  form, \<open>NUL\<close> and digits after an octal escape included.
\<close>

theorem unescape_escape: "unescape (escape s) = Inr s"
proof (induction s)
  case Nil
  then show ?case by (simp add: escape_def unescape.simps)
next
  case (Cons c s)
  have e: "escape (c # s) = escape_char c @ escape s" by (simp add: escape_def)
  consider "c = CHR 0x5C" | "c = LF" | "c = CR" | "literal_char c" "c \<noteq> CHR 0x5C" "c \<noteq> LF" "c \<noteq> CR"
    | "escape_char c = CHR 0x5C # digits 8 (of_char c)"
    by (simp add: escape_char_def) argo
  then show ?case
  proof cases
    case 1
    have "\<not> is_digit_c 10 (CHR 0x5C)" by code_simp
    then show ?thesis using Cons unfolding e by (simp add: 1 escape_char_def unescape.simps)
  next
    case 4
    then show ?thesis using Cons
      unfolding e by (cases "escape s") (auto simp: escape_char_def unescape.simps)
  next
    case 5
    then show ?thesis using Cons unescape_octal [OF escape_head] by (simp add: e)
  next
    case 2
    then show ?thesis using Cons unfolding e by (simp add: escape_char_def unescape.simps)
  next
    case 3
    then show ?thesis using Cons unfolding e by (simp add: escape_char_def unescape.simps)
  qed
qed

section \<open>The list of URIs is used in turn\<close>

definition uri_file :: "string list \<Rightarrow> string" where
  "uri_file us = concat (map (\<lambda>u. u @ [NUL]) us)"

text \<open>The position behind a prefix of the entries that holds \<open>k\<close> URIs.\<close>

definition wlog_at :: "string list \<Rightarrow> nat \<Rightarrow> prog \<Rightarrow> bool" where
  "wlog_at us k S \<longleftrightarrow> wlog_file_map S = uri_file us \<and> (\<exists>bs as. us = bs @ as
     \<and> wlog_current S = length (uri_file bs) \<and> length (filter (\<lambda>u. u \<noteq> []) bs) = k)"

lemma wlog_atI:
  "wlog_file_map S = uri_file us \<Longrightarrow> us = bs @ as \<Longrightarrow> wlog_current S = length (uri_file bs)
     \<Longrightarrow> length (filter (\<lambda>u. u \<noteq> []) bs) = k \<Longrightarrow> wlog_at us k S"
  unfolding wlog_at_def by blast

lemma uri_file_append [simp]: "uri_file (xs @ ys) = uri_file xs @ uri_file ys"
  by (simp add: uri_file_def)

lemma map_strlen_entry:
  assumes "NUL \<notin> set u"
  shows "map_strlen (bs @ u @ NUL # rest) (length bs) = Inr (length u)"
proof -
  have "cstr (u @ NUL # rest) = u" using cstr_append [OF assms, of "NUL # rest"] by (simp add: cstr_def)
  then show ?thesis by (simp add: map_strlen_def)
qed

lemma wlog_loop_entry:
  assumes fl: "wlog_file_map S = uri_file (bs @ u # as)" and cur: "wlog_current S = length (uri_file bs)"
    and u: "NUL \<notin> set u"
  shows "wlog_loop c w S
    = (let U = (upd_call c (call_set_uri (u @ NUL # uri_file as) (length u)) S)
                  \<lparr>wlog_current := length (uri_file (bs @ [u]))\<rparr>
       in if u = [] then wlog_loop c w U else Inr U)"
proof -
  have f: "wlog_file_map S = uri_file bs @ u @ NUL # uri_file as" by (simp add: fl uri_file_def)
  have "\<not> length (wlog_file_map S) \<le> wlog_current S" using cur by (simp add: f)
  then show ?thesis
    using map_strlen_entry [OF u, of "uri_file bs" "uri_file as"]
    by (subst wlog_loop.simps) (simp add: f cur Let_def uri_file_def)
qed

text \<open>From a position in front of a URI the loop skips the empty entries and takes the URI.\<close>

lemma wlog_loop_finds:
  assumes "wlog_file_map S = uri_file (bs @ as)" "wlog_current S = length (uri_file bs)"
    and "\<forall>u \<in> set as. NUL \<notin> set u" "filter (\<lambda>u. u \<noteq> []) as = v # vs"
    and "length (iov (calls S c)) = ie_num"
  shows "\<exists>S'. wlog_loop c w S = Inr S' \<and> wlog_at (bs @ as) (Suc (length (filter (\<lambda>u. u \<noteq> []) bs))) S'
     \<and> iov_bytes (iov (calls S' c) ! ie_uri) = v \<and> length (iov (calls S' c)) = ie_num
     \<and> (\<forall>d. d = c \<or> calls S' d = calls S d) \<and> param S' = param S \<and> running S' = running S"
  using assms
proof (induction as arbitrary: S bs)
  case (Cons u as)
  let ?U = "(upd_call c (call_set_uri (u @ NUL # uri_file as) (length u)) S)
                  \<lparr>wlog_current := length (uri_file (bs @ [u]))\<rparr>"
  have step: "wlog_loop c w S = (if u = [] then wlog_loop c w ?U else Inr ?U)"
    using wlog_loop_entry [of S bs u as c w] Cons.prems by (simp add: Let_def)
  show ?case
  proof (cases "u = []")
    case True
    have len: "length (iov (calls ?U c)) = ie_num"
      using Cons.prems(5) by (simp add: call_set_uri_def call_set_iov_def)
    have "\<exists>S'. wlog_loop c w ?U = Inr S' \<and> wlog_at ((bs @ [u]) @ as) (Suc (length (filter (\<lambda>u. u \<noteq> []) (bs @ [u])))) S'
     \<and> iov_bytes (iov (calls S' c) ! ie_uri) = v \<and> length (iov (calls S' c)) = ie_num
     \<and> (\<forall>d. d = c \<or> calls S' d = calls ?U d) \<and> param S' = param ?U \<and> running S' = running ?U"
      by (rule Cons.IH) (use Cons.prems True len in auto)
    then show ?thesis using step True by (auto simp: fun_upd_apply split: if_splits)
  next
    case False
    then have v: "v = u" using Cons.prems(4) by simp
    have "wlog_at (bs @ u # as) (Suc (length (filter (\<lambda>u. u \<noteq> []) bs))) ?U"
      by (rule wlog_atI [where bs = "bs @ [u]" and as = as]) (use Cons.prems(1) False in simp_all)
    then show ?thesis using step False Cons.prems(5) v
      by (auto simp: call_set_uri_def call_set_iov_def iov_bytes_def)
  qed
qed simp

lemma wlog_loop_skips:
  assumes "wlog_file_map S = uri_file (bs @ as)" "wlog_current S = length (uri_file bs)"
    and "\<forall>u \<in> set as. u = []" "length (iov (calls S c)) = ie_num"
  shows "\<exists>S'. wlog_loop c w S = wlog_loop c w S' \<and> wlog_file_map S' = wlog_file_map S
     \<and> wlog_current S' = length (wlog_file_map S) \<and> length (iov (calls S' c)) = ie_num
     \<and> (\<forall>d. d = c \<or> calls S' d = calls S d) \<and> param S' = param S \<and> running S' = running S"
  using assms
proof (induction as arbitrary: S bs)
  case Nil
  then show ?case by (intro exI [of _ S]) simp
next
  case (Cons u as)
  let ?U = "(upd_call c (call_set_uri (u @ NUL # uri_file as) (length u)) S)
                  \<lparr>wlog_current := length (uri_file (bs @ [u]))\<rparr>"
  have step: "wlog_loop c w S = wlog_loop c w ?U"
    using wlog_loop_entry [of S bs u as c w] Cons.prems by (simp add: Let_def)
  have "\<exists>S'. wlog_loop c w ?U = wlog_loop c w S' \<and> wlog_file_map S' = wlog_file_map ?U
     \<and> wlog_current S' = length (wlog_file_map ?U) \<and> length (iov (calls S' c)) = ie_num
     \<and> (\<forall>d. d = c \<or> calls S' d = calls ?U d) \<and> param S' = param ?U \<and> running S' = running ?U"
    by (rule Cons.IH [where bs = "bs @ [u]"])
      (use Cons.prems in \<open>auto simp: call_set_uri_def call_set_iov_def\<close>)
  then show ?case unfolding step by (auto simp: fun_upd_apply split: if_splits)
qed

lemma wlog_loop_wraps:
  assumes "wlog_current S = length (wlog_file_map S)" "wlog_file_map S \<noteq> []"
  shows "wlog_loop c False S = wlog_loop c True (wlog_rewind S)"
  using assms by (subst (1 2) wlog_loop.simps) (simp add: Let_def split: sum.split)

text \<open>One call of the handler, after \<open>k\<close> URIs since the beginning of the file.\<close>

lemma wlog_turn:
  assumes at: "wlog_at us k S" and us: "\<forall>u \<in> set us. NUL \<notin> set u" and vs: "vs = filter (\<lambda>u. u \<noteq> []) us" "vs \<noteq> []"
    and len: "length (iov (calls S c)) = ie_num"
  shows "\<exists>S'. uri_wlog_set_uri c S = Inr S' \<and> wlog_at us (Suc (k mod length vs)) S'
     \<and> iov_bytes (iov (calls S' c) ! ie_uri) = vs ! (k mod length vs) \<and> (\<forall>d. d = c \<or> calls S' d = calls S d)
     \<and> wlog_do_loop (param S') = wlog_do_loop (param S)
     \<and> (running S' \<longleftrightarrow> running S \<and> (k < length vs \<or> wlog_do_loop (param S)))"
proof -
  obtain bs as where b: "us = bs @ as" "wlog_current S = length (uri_file bs)"
      "length (filter (\<lambda>u. u \<noteq> []) bs) = k" and fl: "wlog_file_map S = uri_file us"
    using at unfolding wlog_at_def by blast
  have split: "vs = filter (\<lambda>u. u \<noteq> []) bs @ filter (\<lambda>u. u \<noteq> []) as" by (simp add: vs b(1))
  show ?thesis
  proof (cases "filter (\<lambda>u. u \<noteq> []) as")
    case (Cons v ws)
    then have k: "k < length vs" "vs ! k = v" using split b(3) by (auto simp: nth_append)
    obtain S' where "wlog_loop c False S = Inr S'" "wlog_at us (Suc k) S'" "iov_bytes (iov (calls S' c) ! ie_uri) = v"
        "\<forall>d. d = c \<or> calls S' d = calls S d" "param S' = param S" "running S' = running S"
      using wlog_loop_finds [of S bs as v ws c False] Cons fl b len us by auto
    then show ?thesis using k by (auto simp: uri_wlog_set_uri_def)
  next
    case Nil
    then have k: "k = length vs" using split b(3) by simp
    obtain S1 where S1: "wlog_loop c False S = wlog_loop c False S1" "wlog_file_map S1 = uri_file us"
        "wlog_current S1 = length (uri_file us)" "length (iov (calls S1 c)) = ie_num"
        "\<forall>d. d = c \<or> calls S1 d = calls S d" "param S1 = param S" "running S1 = running S"
      using wlog_loop_skips [of S bs as c False] Nil fl b len by (auto simp: filter_empty_conv)
    have "us \<noteq> []" using vs by auto
    then have "uri_file us \<noteq> []" by (cases us) (auto simp: uri_file_def)
    then have wrap: "wlog_loop c False S = wlog_loop c True (wlog_rewind S1)"
      using S1 wlog_loop_wraps [of S1 c] by simp
    obtain v ws where v: "vs = v # ws" using vs(2) by (cases vs) auto
    obtain S' where S': "wlog_loop c True (wlog_rewind S1) = Inr S'" "wlog_at us (Suc 0) S'"
        "iov_bytes (iov (calls S' c) ! ie_uri) = v" "\<forall>d. d = c \<or> calls S' d = calls S1 d"
        "param S' = param (wlog_rewind S1)" "running S' = running (wlog_rewind S1)"
      using wlog_loop_finds [of "wlog_rewind S1" "[]" us v ws c True] S1 us vs v by (auto simp: uri_file_def)
    have "d = c \<or> calls S' d = calls S d" for d
      using S'(4) S1(5) by metis
    then show ?thesis using S' S1(6,7) k v wrap
      by (intro exI [of _ S']) (auto simp: uri_wlog_set_uri_def)
  qed
qed

lemma wlog_turns:
  assumes "wlog_at us k S" "k \<le> length vs" and us: "\<forall>u \<in> set us. NUL \<notin> set u"
    and vs: "vs = filter (\<lambda>u. u \<noteq> []) us" "vs \<noteq> []"
    and "distinct cs" "\<forall>c \<in> set cs. length (iov (calls S c)) = ie_num"
  shows "\<exists>S'. efold uri_wlog_set_uri cs S = Inr S' \<and> (\<forall>d. d \<in> set cs \<or> calls S' d = calls S d)
     \<and> (\<forall>j < length cs. iov_bytes (iov (calls S' (cs ! j)) ! ie_uri) = vs ! ((k + j) mod length vs))
     \<and> (running S' \<longleftrightarrow> running S \<and> (wlog_do_loop (param S) \<or> k + length cs \<le> length vs))"
  using assms(1,2,6,7)
proof (induction cs arbitrary: k S)
  case Nil
  then show ?case by simp
next
  case (Cons c cs)
  obtain S1 where S1: "uri_wlog_set_uri c S = Inr S1" "wlog_at us (Suc (k mod length vs)) S1"
      "iov_bytes (iov (calls S1 c) ! ie_uri) = vs ! (k mod length vs)" "\<And>d. d = c \<or> calls S1 d = calls S d"
      "wlog_do_loop (param S1) = wlog_do_loop (param S)"
      "running S1 \<longleftrightarrow> running S \<and> (k < length vs \<or> wlog_do_loop (param S))"
    using wlog_turn [OF Cons.prems(1) us vs, of c] Cons.prems(4) by auto
  have k: "Suc (k mod length vs) \<le> length vs" using vs(2) by (simp add: Suc_leI)
  have len: "\<forall>d \<in> set cs. length (iov (calls S1 d)) = ie_num"
    using S1(4) Cons.prems(3,4) by (metis distinct.simps(2) list.set_intros(2))
  obtain S' where S': "efold uri_wlog_set_uri cs S1 = Inr S'" "\<And>d. d \<in> set cs \<or> calls S' d = calls S1 d"
      "\<And>j. j < length cs \<Longrightarrow> iov_bytes (iov (calls S' (cs ! j)) ! ie_uri)
         = vs ! ((Suc (k mod length vs) + j) mod length vs)"
      "running S' \<longleftrightarrow> running S1 \<and> (wlog_do_loop (param S1) \<or> Suc (k mod length vs) + length cs \<le> length vs)"
    using Cons.IH [OF S1(2) k _ len] Cons.prems(3) by auto
  have shift: "(Suc (k mod length vs) + i) mod length vs = (Suc k + i) mod length vs" for i
    by (metis mod_Suc_eq mod_add_left_eq)
  have "calls S' c = calls S1 c" using S'(2) [of c] Cons.prems(3) by auto
  then have "iov_bytes (iov (calls S' ((c # cs) ! j)) ! ie_uri) = vs ! ((k + j) mod length vs)"
    if "j < length (c # cs)" for j
    using that S1(3) S'(3) shift by (cases j) simp_all
  moreover have "running S' \<longleftrightarrow> running S \<and> (wlog_do_loop (param S) \<or> k + length (c # cs) \<le> length vs)"
    using S1(5,6) S'(4) Cons.prems(2) by (cases "k < length vs") auto
  moreover have "d \<in> set (c # cs) \<or> calls S' d = calls S d" for d
    using S1(4) [of d] S'(2) [of d] by auto
  ultimately show ?case using S1(1) S'(1) by (intro exI [of _ S']) simp
qed

text \<open>
  C30: with \<open>--wlog\<close>, successive requests get the URIs of the file in turn, from the first
  one again after the last; empty entries are skipped.  Without looping the test is told
  to stop exactly when the URIs have been used up.
\<close>

theorem wlog_uris_in_turn:
  assumes "wlog_file (param S) = Some f" "files S f = Some (uri_file us)" "uri_wlog_init S = Inr T"
    and "\<forall>u \<in> set us. NUL \<notin> set u" "vs = filter (\<lambda>u. u \<noteq> []) us" "vs \<noteq> []"
    and "distinct cs" "\<forall>c \<in> set cs. length (iov (calls S c)) = ie_num"
  shows "\<exists>S'. efold uri_wlog_set_uri cs T = Inr S'
     \<and> (\<forall>j < length cs. iov_bytes (iov (calls S' (cs ! j)) ! ie_uri) = vs ! (j mod length vs))
     \<and> (running S' \<longleftrightarrow> running S \<and> (wlog_do_loop (param S) \<or> length cs \<le> length vs))"
proof -
  have T: "wlog_file_map T = uri_file us" "wlog_current T = 0" "calls T = calls S" "running T = running S"
      "param T = param S"
    using assms(1-3) by (auto simp: uri_wlog_init_def event_register_handler_def split: if_splits)
  have "wlog_at us 0 T" by (rule wlog_atI [where bs = "[]"]) (simp_all add: T uri_file_def)
  from wlog_turns [OF this _ assms(4-7)] show ?thesis using assms(8) T by auto
qed

theorem wlog_uris_in_turn_witness:
  "\<exists>T S'. uri_wlog_init (initial_prog\<lparr>param := default_params\<lparr>wlog_file := Some ''f''\<rparr>,
         files := (\<lambda>_. Some (''/a'' @ [NUL, NUL] @ ''/b'' @ [NUL]))\<rparr>) = Inr T
     \<and> efold uri_wlog_set_uri [2, 3, 4] T = Inr S'
     \<and> iov_bytes (iov (calls S' 2) ! ie_uri) = ''/a'' \<and> iov_bytes (iov (calls S' 3) ! ie_uri) = ''/b''
     \<and> iov_bytes (iov (calls S' 4) ! ie_uri) = ''/a'' \<and> \<not> running S'"
proof -
  let ?S = "initial_prog\<lparr>param := default_params\<lparr>wlog_file := Some ''f''\<rparr>,
      files := (\<lambda>_. Some (''/a'' @ [NUL, NUL] @ ''/b'' @ [NUL]))\<rparr>"
  have S: "wlog_file (param ?S) = Some ''f''" "files ?S ''f'' = Some (uri_file [''/a'', [], ''/b''])"
      "\<not> wlog_do_loop (param ?S)" "calls ?S = (\<lambda>_. zero_call)" "action ?S EV_CALL_NEW = []"
    by (simp_all add: default_params_def uri_file_def initial_prog_def initial_state_def core.defs)
  obtain T where T: "uri_wlog_init ?S = Inr T"
    using S by (simp add: uri_wlog_init_def event_register_handler_def max_num_ops_def uri_file_def)
  have "\<exists>S'. efold uri_wlog_set_uri [2, 3, 4] T = Inr S'
     \<and> (\<forall>j < length [2, 3, 4 :: nat]. iov_bytes (iov (calls S' ([2, 3, 4] ! j)) ! ie_uri)
          = [''/a'', ''/b''] ! (j mod length [''/a'', ''/b'']))
     \<and> (running S' \<longleftrightarrow> running ?S \<and> (wlog_do_loop (param ?S) \<or> length [2, 3, 4 :: nat] \<le> length [''/a'', ''/b'']))"
    by (rule wlog_uris_in_turn [OF S(1,2) T])
      (auto simp: zero_call_def initial_prog_def initial_state_def core.defs)
  then obtain S' where S': "efold uri_wlog_set_uri [2, 3, 4] T = Inr S'"
      "\<forall>j < length [2, 3, 4 :: nat]. iov_bytes (iov (calls S' ([2, 3, 4] ! j)) ! ie_uri)
          = [''/a'', ''/b''] ! (j mod length [''/a'', ''/b''])"
      "running S' \<longleftrightarrow> running ?S \<and> (wlog_do_loop (param ?S) \<or> length [2, 3, 4 :: nat] \<le> length [''/a'', ''/b''])"
    by blast
  have "iov_bytes (iov (calls S' ([2, 3, 4] ! j)) ! ie_uri) = [''/a'', ''/b''] ! (j mod Suc (Suc 0))" if "j < 3" for j
    using S'(2) that by simp
  from this [of 0] this [of "Suc 0"] this [of 2]
  have "iov_bytes (iov (calls S' 2) ! ie_uri) = ''/a'' \<and> iov_bytes (iov (calls S' 3) ! ie_uri) = ''/b''
     \<and> iov_bytes (iov (calls S' 4) ! ie_uri) = ''/a'' \<and> \<not> running S'"
    using S'(3) S(3) by (simp add: numeral_2_eq_2)
  then show ?thesis using T S'(1) by blast
qed

section \<open>The files of a working set\<close>

text \<open>The last \<open>d\<close> decimal digits of a number.\<close>

fun last_digits :: "nat \<Rightarrow> nat \<Rightarrow> string" where
  "last_digits 0 m = []"
| "last_digits (Suc d) m = last_digits d (m div 10) @ [digit_char (m mod 10)]"

lemma last_digits_length [simp]: "length (last_digits d m) = d"
  by (induction d arbitrary: m) auto

lemma number_last_digits: "number 10 (last_digits d m) = m mod 10 ^ d"
proof (induction d arbitrary: m)
  case 0
  then show ?case by (simp add: number_def)
next
  case (Suc d)
  have "m mod 10 < (16 :: nat)" by (rule less_trans [of _ 10]) simp_all
  then show ?case using Suc by (simp add: number_append mod_mult2_eq)
qed

definition file_path :: "string \<Rightarrow> string" where
  "file_path ds = concat (map (\<lambda>d. [CHR ''/'', d]) ds)"

lemma wset_path_digits:
  assumes "unat j = 10 ^ i" "i + d = k" "2 * d \<le> room"
    and nf: "unat nf \<le> 10 ^ k" "k = 0 \<or> 10 ^ (k - 1) < unat nf" "unat nf \<le> 10 ^ 9"
  shows "wset_path room nf j m acc = Inr (room - 2 * d, file_path (last_digits d (unat m)) @ acc)"
  using assms(1-3)
proof (induction d arbitrary: room j i m acc)
  case 0
  then have "\<not> j < nf" using nf(1) by (simp add: word_less_nat_alt)
  then show ?case by (subst wset_path.simps) (simp add: file_path_def)
next
  case (Suc d)
  have "(10 :: nat) ^ i \<le> 10 ^ (k - 1)" by (rule power_increasing) (use Suc.prems(2) in auto)
  moreover have "10 ^ (k - 1) < unat nf" using nf(2) Suc.prems(2) by simp
  ultimately have lt: "10 ^ i < unat nf" by (rule le_less_trans)
  then have "(10 :: nat) ^ i < 10 ^ 9" using nf(3) by linarith
  then have "i < 9" by (rule power_less_imp_less_exp [rotated]) simp
  then have "(10 :: nat) ^ Suc i \<le> 10 ^ 9" by (intro power_increasing) auto
  then have "unat j * unat (10 :: u32) < 2 ^ LENGTH(32)" using Suc.prems(1) by simp
  then have "unat (j * 10) = unat j * unat (10 :: u32)" by (rule iffD1 [OF unat_mult_lem])
  then have j: "unat (j * 10) = 10 ^ Suc i" using Suc.prems(1) by simp
  have "unat m mod 10 < (10 :: nat)" by simp
  then have dig: "(char_of (48 + unat (m mod 10)) :: char) = digit_char (unat m mod 10)"
    by (simp add: digit_char_def unat_mod)
  have run: "wset_path room nf j m acc = wset_path (room - 2) nf (j * 10) (m div 10)
               (CHR ''/'' # digit_char (unat m mod 10) # acc)"
    using lt Suc.prems(1,3) dig by (subst wset_path.simps) (simp add: word_less_nat_alt)
  have "wset_path (room - 2) nf (j * 10) (m div 10) (CHR ''/'' # digit_char (unat m mod 10) # acc)
      = Inr (room - 2 - 2 * d, file_path (last_digits d (unat (m div 10))) @ CHR ''/'' # digit_char (unat m mod 10) # acc)"
    by (rule Suc.IH [OF j]) (use Suc.prems in auto)
  then show ?case unfolding run by (simp add: unat_div file_path_def)
qed

lemma wset_next_file_num:
  assumes "wset_file_num S < wset_num_files (param S)" "num_clients (param S) \<le> wset_num_files (param S)"
    and "unat (wset_num_files (param S)) \<le> 10 ^ 9"
  shows "unat (wset_file_num (wset_next_file S))
    = (unat (wset_file_num S)
       + (if 1 \<le> wset_miss_prob S + wset_target_miss_rate (param S) then unat (num_clients (param S)) else 0))
      mod unat (wset_num_files (param S))"
proof -
  let ?n = "wset_num_files (param S)" and ?k = "wset_file_num S + num_clients (param S)"
  have l: "unat (wset_file_num S) < unat ?n" "unat (num_clients (param S)) \<le> unat ?n"
    using assms(1,2) by (simp_all add: word_less_nat_alt word_le_nat_alt)
  then have "unat (wset_file_num S) + unat (num_clients (param S)) < 2 ^ LENGTH(32)" using assms(3) by simp
  then have k: "unat ?k = unat (wset_file_num S) + unat (num_clients (param S))" by (rule unat_add_no_wrap)
  have "unat (if ?n \<le> ?k then ?k - ?n else ?k) = unat ?k mod unat ?n"
  proof (cases "?n \<le> ?k")
    case True
    then have "unat ?n \<le> unat ?k" by (simp add: word_le_nat_alt)
    then have "unat (?k - ?n) = unat ?k - unat ?n" by (rule unat_sub_le)
    then show ?thesis using True l k by (simp add: le_mod_geq word_le_nat_alt)
  next
    case False
    then show ?thesis by (simp add: word_le_nat_alt)
  qed
  then show ?thesis using l k by (simp add: wset_next_file_def Let_def split: if_splits)
qed

text \<open>
  With \<open>--wset\<close>, the URI of a request is the prefix, then the number of the file with
  exactly as many digits as the largest number needs, each behind a slash, then
  \<open>.html\<close>; on a miss the file moves on by the number of clients, around the working set.
\<close>

theorem wset_uri_names_file:
  assumes nf: "unat (wset_num_files (param S)) \<le> 10 ^ k"
      "k = 0 \<or> 10 ^ (k - 1) < unat (wset_num_files (param S))" "unat (wset_num_files (param S)) \<le> 10 ^ 9"
    and room: "wset_prefix_len S + 2 * k \<le> max_uri_len - 6"
    and num: "wset_file_num S < wset_num_files (param S)" "num_clients (param S) \<le> wset_num_files (param S)"
    and len: "length (iov (calls S c)) = ie_num"
  shows "\<exists>S' ds. uri_wset_set_uri c S = Inr S'
     \<and> iov_bytes (iov (calls S' c) ! ie_uri) = take (wset_prefix_len S) (uri (param S)) @ file_path ds @ ''.html''
     \<and> length ds = k \<and> number 10 ds = unat (wset_file_num S')
     \<and> unat (wset_file_num S') = (unat (wset_file_num S)
         + (if 1 \<le> wset_miss_prob S + wset_target_miss_rate (param S) then unat (num_clients (param S)) else 0))
       mod unat (wset_num_files (param S))"
proof -
  let ?T = "wset_next_file S" and ?n = "unat (wset_num_files (param S))"
  let ?ds = "last_digits k (unat (wset_file_num ?T))"
  define t where "t = take (wset_prefix_len S) (uri (param S)) @ file_path ?ds @ ''.html''"
  let ?buf = "t @ [NUL]"
  let ?S' = "upd_call c (call_set_uri ?buf (length ?buf - 1)) (upd_call_priv c (\<lambda>p. p\<lparr>wset_uri := ?buf\<rparr>) ?T)"
  have T: "param ?T = param S" "wset_prefix_len ?T = wset_prefix_len S" "calls ?T = calls S"
    by (simp_all add: wset_next_file_def Let_def)
  have next_num: "unat (wset_file_num ?T) = (unat (wset_file_num S)
         + (if 1 \<le> wset_miss_prob S + wset_target_miss_rate (param S) then unat (num_clients (param S)) else 0)) mod ?n"
    by (rule wset_next_file_num [OF num nf(3)])
  have "0 < ?n" using num(1) by (simp add: word_less_nat_alt)
  then have small: "unat (wset_file_num ?T) < 10 ^ k" using next_num nf(1) by (metis mod_less_divisor order_less_le_trans)
  have path: "wset_path (max_uri_len - 6) (wset_num_files (param S)) 1 (wset_file_num ?T) (''.html'' @ [NUL])
      = Inr (max_uri_len - 6 - 2 * k, file_path ?ds @ ''.html'' @ [NUL])"
    by (rule wset_path_digits [where i = 0]) (use nf room in auto)
  have run: "uri_wset_set_uri c S = Inr ?S'"
    using room path unfolding uri_wset_set_uri_def Let_def T t_def by simp
  have "calls ?S' c = call_set_uri ?buf (length ?buf - 1) (calls S c)"
    by (simp add: T upd_call_priv_def)
  then have uri: "iov_bytes (iov (calls ?S' c) ! ie_uri) = t"
    using len by (simp add: call_set_uri_def call_set_iov_def iov_bytes_def)
  have fnum: "wset_file_num ?S' = wset_file_num ?T" by (simp add: upd_call_priv_def)
  show ?thesis
    by (rule exI [of _ ?S'], rule exI [of _ ?ds])
      (simp only: run uri fnum t_def [symmetric] number_last_digits last_digits_length next_num [symmetric] mod_less [OF small] simp_thms)
qed

theorem wset_uri_names_file_witness:
  "\<exists>S' ds. uri_wset_set_uri 2 (initial_prog\<lparr>param := default_params\<lparr>uri := ''www/'', num_clients := 3,
         wset_num_files := 120, wset_target_miss_rate := 2\<rparr>, wset_prefix_len := 3, wset_file_num := 118\<rparr>) = Inr S'
     \<and> iov_bytes (iov (calls S' 2) ! ie_uri) = ''www'' @ file_path ds @ ''.html''
     \<and> length ds = 3 \<and> number 10 ds = unat (wset_file_num S') \<and> unat (wset_file_num S') = (118 + 3) mod 120"
proof -
  let ?S = "initial_prog\<lparr>param := default_params\<lparr>uri := ''www/'', num_clients := 3,
         wset_num_files := 120, wset_target_miss_rate := 2\<rparr>, wset_prefix_len := 3, wset_file_num := 118\<rparr>"
  have "length (iov (calls ?S 2)) = ie_num" "wset_miss_prob ?S = 0"
    by (simp_all add: initial_prog_def initial_state_def core.defs zero_call_def)
  then show ?thesis
    using wset_uri_names_file [of ?S 3 2] by (simp add: max_uri_len_def)
qed

end
