(* ===== verification/Engine_Frame.thy ===== *)
theory Engine_Frame
  imports Core_Engine
begin

text \<open>
  What the engine leaves alone.  Its functions change the data of the core and the
  environment; timers only through \<^verbatim>\<open>timer.c\<close>, and the event table, the private areas and
  the variables of the modules only through the handlers that they signal.  The locale
  \<open>engine_inv\<close> turns this into a rule for invariants: a property that survives
  internal steps, the timer functions and the handlers survives every function of the
  engine.  \<open>object_inv\<close> adds the creation of objects.
\<close>

section \<open>Internal steps\<close>

definition internal :: "('cb, 'h, 'z) core_scheme \<Rightarrow> ('cb, 'h, 'z) core_scheme \<Rightarrow> bool" where
  "internal S S' \<longleftrightarrow>
     tmr S' = tmr S \<and> passive_timers S' = passive_timers S \<and> active_timers S' = active_timers S
     \<and> persistent_timers S' = persistent_timers S \<and> now S' = now S \<and> use_timer_cache S' = use_timer_cache S
     \<and> mallocs S \<le> mallocs S' \<and> action S' = action S \<and> conn_priv S' = conn_priv S
     \<and> call_priv S' = call_priv S \<and> sess_priv S' = sess_priv S \<and> param S' = param S
     \<and> core.more S' = core.more S"

lemma internal_refl: "internal S S"
  by (simp add: internal_def)

lemma internal_trans: "internal S T \<Longrightarrow> internal T U \<Longrightarrow> internal S U"
  by (simp add: internal_def)

named_theorems internal_intro

lemma internal_upd [internal_intro]:
  "internal S (upd_conn a f S)" "internal S (upd_call c g S)" "internal S (upd_sess x h S)" "internal S (upd_obj a k S)"
  by (simp_all add: internal_def upd_defs)

lemma internal_fields [internal_intro]:
  "internal S (S\<lparr>epoll_set := a\<rparr>)" "internal S (S\<lparr>addresses := b\<rparr>)" "internal S (S\<lparr>errno := c\<rparr>)"
  "internal S (S\<lparr>free_list := d\<rparr>)" "internal S (S\<lparr>iteration := e\<rparr>)" "internal S (S\<lparr>conn_burst := f\<rparr>)"
  "internal S (S\<lparr>epoll_set := a, max_sd := i\<rparr>)"
  by (simp_all add: internal_def)

lemma internal_syscall [internal_intro]: "syscall S = (r, T) \<Longrightarrow> internal S T"
  by (cases "sysc S (sysc_done S)") (auto simp: syscall_def internal_def)

lemma internal_sys_call [internal_intro]: "sys_call S = (r, T) \<Longrightarrow> internal S T"
  by (cases "sysc S (sysc_done S)") (auto simp: sys_call_def syscall_def internal_def)

lemma internal_async [internal_intro]: "internal S (take_async_error S)"
  by (cases "sysc S (sysc_done S)") (simp add: take_async_error_def internal_def)

lemma internal_writev [internal_intro]: "sys_writev fd bs S = (r, T) \<Longrightarrow> internal S T"
  by (auto simp: sys_writev_def internal_def Let_def split: write_answer.splits)

lemma internal_read [internal_intro]: "sys_read S = (r, T) \<Longrightarrow> internal S T"
  by (auto simp: sys_read_def internal_def Let_def split: read_answer.splits)

lemma internal_now [internal_intro]: "timer_now S = (t, T) \<Longrightarrow> internal S T"
  by (auto simp: timer_now_def timer_now_forced_def internal_def split: if_splits)

lemma internal_malloc [internal_intro]: "malloc S = (p, T) \<Longrightarrow> internal S T"
  by (auto simp: malloc_def internal_def)

lemma internal_inc_ref [internal_intro]: "internal S (object_inc_ref a S)"
  unfolding object_inc_ref_def by (rule internal_intro)

lemma internal_timeouts [internal_intro]: "internal S (set_send_timeout c S)" "internal S (set_recv_timeout c S)"
  by (auto simp: set_send_timeout_def set_recv_timeout_def Let_def split: prod.split
        intro: internal_upd internal_trans dest: internal_now)

lemma internal_written [internal_intro]: "internal S (written c k S)"
  by (auto simp: written_def Let_def split: prod.split intro: internal_upd)

lemma internal_burst [internal_intro]: "internal S (count_burst S)"
  by (auto simp: count_burst_def internal_def)

lemma internal_all_succeed [internal_intro]: "all_succeed k S = (b, T) \<Longrightarrow> internal S T"
proof (induction k arbitrary: S)
  case (Suc k)
  then show ?case
    by (auto simp: Let_def split: prod.splits if_splits intro: internal_trans dest: internal_syscall)
qed (simp add: internal_refl)

lemma internal_setup [internal_intro]: "setup_socket S = (b, T) \<Longrightarrow> internal S T"
  by (simp add: setup_socket_def internal_all_succeed)

lemma internal_myaddr [internal_intro]: "core_get_next_myaddr S = Inr (k, T) \<Longrightarrow> internal S T"
  by (auto simp: core_get_next_myaddr_def internal_def Inr_iff Let_def split: if_splits)

section \<open>Invariants of the engine\<close>

lemma returns_bind [simp]: "returns K (ebind m f) \<longleftrightarrow> returns (\<lambda>x. returns K (f x)) m"
  by (rule returns_ebind)

locale engine_inv =
  fixes sig :: "(callback_id, 'h, 'z) signal" and I :: "(callback_id, 'h, 'z) core_scheme \<Rightarrow> bool"
  assumes I_internal: "I S \<Longrightarrow> internal S T \<Longrightarrow> I T"
    and I_schedule: "I S \<Longrightarrow> timer_schedule f x d S = (w, T) \<Longrightarrow> I T"
    and I_cancel: "I S \<Longrightarrow> timer_cancel tm S = Inr T \<Longrightarrow> I T"
    and I_sig: "I S \<Longrightarrow> sig ev a arg S = Inr T \<Longrightarrow> I T"
begin

text \<open>The rules have a continuation \<open>K\<close>, so that they compose along \<open>ebind\<close>.\<close>

lemma sig_k [intro!]: "I S \<Longrightarrow> (\<And>T. I T \<Longrightarrow> K T) \<Longrightarrow> returns K (sig ev a arg S)"
  using I_sig by (auto simp: returns_def)

lemma cancel_k [intro!]: "I S \<Longrightarrow> (\<And>T. I T \<Longrightarrow> K T) \<Longrightarrow> returns K (timer_cancel w S)"
  using I_cancel by (auto simp: returns_def)

lemma assert_k [intro!]: "(b \<Longrightarrow> K S) \<Longrightarrow> returns K (c_assert b S)"
  by (rule returns_c_assert)

lemma deref_k [intro!]: "(\<And>x. p = Some x \<Longrightarrow> K x) \<Longrightarrow> returns K (deref p)"
  by (cases p) auto

lemma nth_k [intro!]: "(i < length xs \<Longrightarrow> K (xs ! i)) \<Longrightarrow> returns K (nth_c xs i)"
  by (simp add: nth_c_def)

lemma any_k: "(\<And>x. m = Inr x \<Longrightarrow> K x) \<Longrightarrow> returns K m"
  by (simp add: returns_def)

lemmas I_upd = internal_intro [THEN I_internal [rotated]]

lemma I_upd_simps [simp]:
  "I S \<Longrightarrow> I (upd_conn a f S)" "I S \<Longrightarrow> I (upd_call c g S)" "I S \<Longrightarrow> I (upd_sess x h S)" "I S \<Longrightarrow> I (upd_obj a k S)"
  "I S \<Longrightarrow> I (S\<lparr>epoll_set := ep\<rparr>)" "I S \<Longrightarrow> I (S\<lparr>addresses := b\<rparr>)"
  "I S \<Longrightarrow> I (S\<lparr>free_list := d\<rparr>)" "I S \<Longrightarrow> I (S\<lparr>epoll_set := ep, max_sd := i\<rparr>)" "I S \<Longrightarrow> I (S\<lparr>errno := er\<rparr>)"
  "I S \<Longrightarrow> I (S\<lparr>iteration := it\<rparr>)"
  "I S \<Longrightarrow> I (object_inc_ref a S)" "I S \<Longrightarrow> I (set_send_timeout c S)" "I S \<Longrightarrow> I (set_recv_timeout c S)"
  "I S \<Longrightarrow> I (written c n S)" "I S \<Longrightarrow> I (count_burst S)" "I S \<Longrightarrow> I (take_async_error S)"
  by (erule I_internal; rule internal_intro)+

lemma I_results:
  "syscall S = (r, T) \<Longrightarrow> I S \<Longrightarrow> I T" "sys_call S = (r, T) \<Longrightarrow> I S \<Longrightarrow> I T"
  "sys_writev fd bs S = (k, T) \<Longrightarrow> I S \<Longrightarrow> I T" "sys_read S = (s, T) \<Longrightarrow> I S \<Longrightarrow> I T"
  "timer_now S = (t, T) \<Longrightarrow> I S \<Longrightarrow> I T" "malloc S = (p, T) \<Longrightarrow> I S \<Longrightarrow> I T"
  "setup_socket S = (b, T) \<Longrightarrow> I S \<Longrightarrow> I T" "core_get_next_myaddr S = Inr (j, T) \<Longrightarrow> I S \<Longrightarrow> I T"
  "timer_schedule f x d S = (w, T) \<Longrightarrow> I S \<Longrightarrow> I T"
  using I_internal I_schedule
  by (blast intro: internal_intro)+

lemma conn_deinit_k [intro!]: "I S \<Longrightarrow> (\<And>T. I T \<Longrightarrow> K T) \<Longrightarrow> returns K (conn_deinit a S)"
  by (auto simp: conn_deinit_def Let_def)

lemma object_destroy_k [intro!]: "I S \<Longrightarrow> (\<And>T. I T \<Longrightarrow> K T) \<Longrightarrow> returns K (object_destroy sig a S)"
  by (auto simp: object_destroy_def Let_def split: object_type.split)

lemma object_dec_ref_k [intro!]: "I S \<Longrightarrow> (\<And>T. I T \<Longrightarrow> K T) \<Longrightarrow> returns K (object_dec_ref sig a S)"
  by (auto simp: object_dec_ref_def Let_def)

lemma release_calls_k [intro!]: "I S \<Longrightarrow> (\<And>T. I T \<Longrightarrow> K T) \<Longrightarrow> returns K (release_calls n follow sig p S)"
proof (induction n arbitrary: p S)
  case 0
  then show ?case by (cases p) auto
next
  case (Suc n)
  then show ?case by (cases p) (auto simp: Let_def)
qed

lemma drop_watchdog_k [intro!]: "I S \<Longrightarrow> (\<And>T. I T \<Longrightarrow> K T) \<Longrightarrow> returns K (drop_watchdog a S)"
  by (auto simp: drop_watchdog_def split: option.split)

lemma close_socket_k [intro!]: "I S \<Longrightarrow> (\<And>T. I T \<Longrightarrow> K T) \<Longrightarrow> returns K (close_socket fd a S)"
  by (auto simp: close_socket_def Let_def split: prod.split dest: I_results)

lemma return_port_k [intro!]: "I S \<Longrightarrow> (\<And>T. I T \<Longrightarrow> K T) \<Longrightarrow> returns K (return_port a S)"
  by (auto simp: return_port_def intro!: any_k)

lemma core_close_k [intro!]: "I S \<Longrightarrow> (\<And>T. I T \<Longrightarrow> K T) \<Longrightarrow> returns K (core_close n sig a S)"
  by (auto simp: core_close_def drop_calls_def Let_def simp del: conn_state_order)

lemma conn_failure_k [intro!]: "I S \<Longrightarrow> (\<And>T. I T \<Longrightarrow> K T) \<Longrightarrow> returns K (conn_failure n sig a err S)"
  by (auto simp: conn_failure_def)

lemma conn_timeout_k [intro!]: "I S \<Longrightarrow> (\<And>T. I T \<Longrightarrow> K T) \<Longrightarrow> returns K (conn_timeout n sig a S)"
  by (auto simp: conn_timeout_def)

lemma clear_active_k [intro!]: "I S \<Longrightarrow> (\<And>T. I T \<Longrightarrow> K T) \<Longrightarrow> returns K (clear_active a dir S)"
  by (auto simp: clear_active_def Let_def split: prod.split io_dir.split dest: I_results)

lemma schedule_k:
  assumes "I S" and K: "\<And>w T. I T \<Longrightarrow> K (w, T)"
  shows "K (timer_schedule f x d S)"
  using assms(1) I_results(9) [of f x d S] by (cases "timer_schedule f x d S") (simp add: K)

lemma now_k:
  assumes "I S" and K: "\<And>t T. I T \<Longrightarrow> K (t, T)"
  shows "K (timer_now S)"
  using assms(1) I_results(5) [of S] by (cases "timer_now S") (simp add: K)

lemma set_active_k [intro!]: "I S \<Longrightarrow> (\<And>T. I T \<Longrightarrow> K T) \<Longrightarrow> returns K (set_active a dir S)"
proof -
  assume S: "I S" and K: "\<And>T. I T \<Longrightarrow> K T"
  have arm: "returns K (if watchdog (conns U a) \<noteq> None then Inr U
      else let t = earliest_timeout a U in
        if 0 < t then
          (let (n, V) = timer_now U; (w, V) = timer_schedule Conn_timeout a (t - n) V
           in Inr (upd_conn a (\<lambda>s. s\<lparr>watchdog := w\<rparr>) V))
        else Inr U)" if "I U" for U
  proof -
    have "returns K (case timer_now U of (n, V) \<Rightarrow> case timer_schedule Conn_timeout a (t - n) V of
        (w, V) \<Rightarrow> Inr (upd_conn a (\<lambda>s. s\<lparr>watchdog := w\<rparr>) V))" for t
      by (rule now_k [OF that]) (simp, erule schedule_k, simp add: K)
    then show ?thesis using that K by (simp add: Let_def)
  qed
  obtain r T where T: "syscall S = (r, T)" by fastforce
  have "I T" by (rule I_results(1) [OF T S])
  then show ?thesis
    unfolding set_active_def Let_def T prod.case
    by (intro returns_if arm [unfolded Let_def]; cases dir) (use K in simp_all)
qed

section \<open>Sending\<close>

lemma move_to_recvq_k [intro!]: "I S \<Longrightarrow> (\<And>T. I T \<Longrightarrow> K T) \<Longrightarrow> returns K (move_to_recvq a c S)"
  by (auto simp: move_to_recvq_def Let_def split: option.split)

lemma expect_reply_k [intro!]: "I S \<Longrightarrow> (\<And>b T. I T \<Longrightarrow> K (b, T)) \<Longrightarrow> returns K (expect_reply sig a c S)"
  by (auto simp: expect_reply_def Let_def split: option.split simp del: conn_state_order)

lemma request_sent_k [intro!]: "I S \<Longrightarrow> (\<And>b T. I T \<Longrightarrow> K (b, T)) \<Longrightarrow> returns K (request_sent sig a c S)"
  by (auto simp: request_sent_def Let_def simp del: conn_state_order)

lemma send_step_k [intro!]: "I S \<Longrightarrow> (\<And>b T. I T \<Longrightarrow> K (b, T)) \<Longrightarrow> returns K (send_step n sig a S)"
  by (auto simp: send_step_def Let_def split: option.split prod.split dest: I_results)

lemma do_send_k [intro!]: "I S \<Longrightarrow> (\<And>T. I T \<Longrightarrow> K T) \<Longrightarrow> returns K (do_send n sig a S)"
  by (induction n arbitrary: S) auto

lemma core_send_k [intro!]: "I S \<Longrightarrow> (\<And>r T. I T \<Longrightarrow> K (r, T)) \<Longrightarrow> returns K (core_send sig a c S)"
  by (auto simp: core_send_def Let_def split: option.split simp del: conn_state_order intro!: any_k [where m = "fill_protocol p q" for p q])

section \<open>Receiving\<close>

lemma process_status_k [intro!]: "I S \<Longrightarrow> (\<And>T. I T \<Longrightarrow> K T) \<Longrightarrow> returns K (process_status sig c a k S)"
  by (auto simp: process_status_def Let_def split: prod.split simp del: conn_state_order)

lemma get_line_k: "(\<And>b s r. get_line s0 buf = Inr (b, s, r) \<Longrightarrow> K (b, s, r)) \<Longrightarrow> returns K (get_line s0 buf)"
  by (auto simp: returns_def)

lemma parse_status_line_k [intro!]:
  "I S \<Longrightarrow> (\<And>T r. I T \<Longrightarrow> K (T, r)) \<Longrightarrow> returns K (parse_status_line sig c a buf S)"
  by (auto simp: parse_status_line_def Let_def intro!: get_line_k)

lemma header_loop_k [intro!]:
  "I S \<Longrightarrow> (\<And>b T r. I T \<Longrightarrow> K (b, T, r)) \<Longrightarrow> returns K (header_loop sig c a buf S)"
proof (induction "length buf" arbitrary: buf S rule: less_induct)
  case less
  have "returns K (header_loop sig c a r T)" if "get_line (conns S a) buf = Inr (True, s, r)" "I T" for s r T
    using less that get_line_full [OF that(1)] get_line_shorter [OF that(1)] by blast
  then show ?case
    by (subst header_loop.simps)
      (use less.prems in \<open>auto simp: Let_def simp del: conn_state_order intro!: get_line_k\<close>)
qed

lemma footer_loop_k [intro!]:
  "I S \<Longrightarrow> (\<And>b T r. I T \<Longrightarrow> K (b, T, r)) \<Longrightarrow> returns K (footer_loop sig c a buf S)"
proof (induction "length buf" arbitrary: buf S rule: less_induct)
  case less
  have "returns K (footer_loop sig c a r T)" if "get_line (conns S a) buf = Inr (True, s, r)" "I T" for s r T
    using less that get_line_full [OF that(1)] get_line_shorter [OF that(1)] by blast
  then show ?case
    by (subst footer_loop.simps)
      (use less.prems in \<open>auto simp: Let_def simp del: conn_state_order intro!: get_line_k\<close>)
qed

lemma parse_data_k [intro!]:
  "I S \<Longrightarrow> (\<And>b T r. I T \<Longrightarrow> parse_data sig c a buf S = Inr (b, T, r) \<Longrightarrow> K (b, T, r))
     \<Longrightarrow> returns K (parse_data sig c a buf S)"
  using I_sig by (force simp: returns_def parse_data_def Let_def Inr_iff)

lemma chunk_loop_k [intro!]:
  "I S \<Longrightarrow> (\<And>T r. I T \<Longrightarrow> K (T, r)) \<Longrightarrow> returns K (chunk_loop sig c a buf S)"
proof (induction "length buf" arbitrary: buf S rule: less_induct)
  case less
  have line: "returns K (chunk_loop sig c a r T)" if "get_line (conns S a) buf = Inr (True, s, r)" "I T" for s r T
    using less that get_line_full [OF that(1)] get_line_shorter [OF that(1)] by blast
  have more: "returns K (chunk_loop sig c a r' T)"
    if "get_line (conns S a) buf = Inr (True, s, r)" "parse_data sig c a r U = Inr (d, T, r')" "I T" for s r U d T r'
    using less that get_line_full [OF that(1)] get_line_shorter [OF that(1)] parse_data_le [OF that(2)]
    by (meson le_less_trans)
  have data: "returns K (chunk_loop sig c a r T)"
    if "parse_data sig c a buf S = Inr (d, T, r)" "\<not> content_length (conns S a) \<le> content_bytes (calls S c)"
      "buf \<noteq> []" "I T" for d T r
    using less that parse_data_progress [OF that(1-3)] by blast
  show ?case
    by (subst chunk_loop.simps)
      (use less.prems line more data in
        \<open>auto simp: Let_def simp del: conn_state_order intro!: get_line_k split: prod.split\<close>)
qed

lemma http_round_k [intro!]:
  "I S \<Longrightarrow> (\<And>b T r. I T \<Longrightarrow> http_round sig c a buf S = Inr (b, T, r) \<Longrightarrow> K (b, T, r))
     \<Longrightarrow> returns K (http_round sig c a buf S)"
proof -
  assume I: "I S" and K: "\<And>b T r. I T \<Longrightarrow> http_round sig c a buf S = Inr (b, T, r) \<Longrightarrow> K (b, T, r)"
  have "returns (\<lambda>(b, T, r). I T) (http_round sig c a buf S)"
    using I unfolding http_round_def
    by (auto simp: parse_headers_def parse_footers_def xfer_chunked_def split: conn_state.split)
  then show ?thesis using K by (auto simp: returns_def)
qed

lemma http_loop_k [intro!]:
  "I S \<Longrightarrow> (\<And>T r. I T \<Longrightarrow> K (T, r)) \<Longrightarrow> returns K (http_loop sig c a buf S)"
proof (induction "2 * length buf + (if state (conns S a) = S_REPLY_DONE then 0 else 1)"
    arbitrary: buf S rule: less_induct)
  case less
  have "returns K (http_loop sig c a r T)"
    if run: "http_round sig c a buf S = Inr (False, T, r)" "r \<noteq> []" "state (conns T a) < S_CLOSING" and T: "I T" for T r
  proof (rule less.hyps [OF _ T less.prems(2)])
    show "2 * length r + (if state (conns T a) = S_REPLY_DONE then 0 else 1)
        < 2 * length buf + (if state (conns S a) = S_REPLY_DONE then 0 else 1)"
      using http_round_progress [OF run] by auto
  qed
  then show ?case
    by (subst http_loop.simps) (use less.prems in \<open>auto simp del: conn_state_order\<close>)
qed

lemma http_process_reply_bytes_k [intro!]:
  "I S \<Longrightarrow> (\<And>T r. I T \<Longrightarrow> K (T, r)) \<Longrightarrow> returns K (http_process_reply_bytes sig c buf S)"
  by (auto simp: http_process_reply_bytes_def)

lemma recv_done_k [intro!]: "I S \<Longrightarrow> (\<And>T. I T \<Longrightarrow> K T) \<Longrightarrow> returns K (recv_done sig c S)"
  by (auto simp: recv_done_def Let_def)

lemma recv_loop_k [intro!]:
  "I S \<Longrightarrow> (\<And>b d T. I T \<Longrightarrow> K (b, d, T)) \<Longrightarrow> returns K (recv_loop n sig a buf S)"
  by (induction n arbitrary: buf S)
    (auto simp: Let_def simp del: conn_state_order split: option.split)

lemma do_recv_k [intro!]: "I S \<Longrightarrow> (\<And>T. I T \<Longrightarrow> K T) \<Longrightarrow> returns K (do_recv n sig a S)"
  by (auto simp: do_recv_def Let_def split: option.split prod.split dest: I_results)

section \<open>Connecting and the main loop\<close>

lemma bind_port_k [intro!]:
  "I S \<Longrightarrow> (\<And>p T. I T \<Longrightarrow> K (p, T)) \<Longrightarrow> returns K (bind_port n k S)"
  by (induction n arbitrary: S)
    (auto simp: Let_def split: prod.split dest: I_results intro!: any_k [where m = "port_get ad" for ad])

lemma bind_local_k [intro!]:
  "I S \<Longrightarrow> (\<And>b T. I T \<Longrightarrow> K (b, T)) \<Longrightarrow> returns K (bind_local n a k S)"
  by (auto simp: bind_local_def Let_def split: prod.split option.split dest: I_results)

lemma start_connect_k [intro!]:
  "I S \<Longrightarrow> (\<And>b T. I T \<Longrightarrow> K (b, T)) \<Longrightarrow> returns K (start_connect sig a S)"
  by (auto simp: start_connect_def Let_def split: prod.split dest: I_results)

lemma next_myaddr_k [intro!]:
  "I S \<Longrightarrow> (\<And>k T. I T \<Longrightarrow> K (k, T)) \<Longrightarrow> returns K (core_get_next_myaddr S)"
  using I_results(8) by (auto simp: returns_def)

lemma try_connect_k [intro!]:
  assumes S: "I S" and K: "\<And>b T. I T \<Longrightarrow> K (b, T)"
  shows "returns K (try_connect n sig a S)"
proof -
  obtain fd S1 where 1: "sys_call (count_burst S) = (fd, S1)" by fastforce
  obtain ok S2 where 2: "setup_socket S1 = (ok, S2)" by fastforce
  have I1: "I S1" by (rule I_results(2) [OF 1]) (simp add: S)
  have I2: "I S2" by (rule I_results(7) [OF 2 I1])
  show ?thesis
    using I1 I2 K unfolding try_connect_def Let_def 1 2 prod.case
    by (auto simp del: conn_state_order intro!: any_k [where m = "hash_lookup sz h p t" for sz h p t])
qed

lemma core_connect_k [intro!]:
  "I S \<Longrightarrow> (\<And>r T. I T \<Longrightarrow> K (r, T)) \<Longrightarrow> returns K (core_connect n sig a S)"
  by (auto simp: core_connect_def)

lemma handle_ready_k [intro!]:
  "I S \<Longrightarrow> (\<And>T. I T \<Longrightarrow> K T) \<Longrightarrow> returns K (handle_ready n sig r S)"
  by (cases r) (auto simp: handle_ready_def Let_def)

end

section \<open>Creating objects\<close>

lemma internal_alloc: "alloc_object t S = (p, T) \<Longrightarrow> internal S T"
  by (auto simp: alloc_object_def internal_def malloc_def split: list.splits)

lemma internal_call_init: "internal S (call_init c S)"
  by (simp add: call_init_def internal_def upd_call_def)

lemma internal_conn_init: "internal S (conn_init a S)"
  by (simp add: conn_init_def internal_def upd_conn_def Let_def split: option.split)

locale object_inv = engine_inv +
  assumes I_clear: "I S \<Longrightarrow> I (clear_object t a S)"
begin

lemma object_new_k [intro!]:
  assumes S: "I S" and K: "\<And>p T. I T \<Longrightarrow> K (p, T)"
  shows "returns K (object_new sig t S)"
proof -
  obtain p S1 where 1: "alloc_object t S = (p, S1)" by fastforce
  have I1: "I S1" by (rule I_internal [OF S internal_alloc [OF 1]])
  have I2: "I (clear_object t a S1)" "I (call_init a (clear_object t a S1))" "I (conn_init a (clear_object t a S1))" for a
    using I_clear [OF I1] I_internal internal_call_init internal_conn_init by blast+
  show ?thesis
    using I1 I2 K unfolding object_new_def 1 Let_def
    by (auto split: option.split object_type.split)
qed

lemma sess_failure_k [intro!]: "I S \<Longrightarrow> (\<And>T. I T \<Longrightarrow> K T) \<Longrightarrow> returns K (sess_failure sig x S)"
  by (auto simp: sess_failure_def Let_def)

end

section \<open>The main loop\<close>

text \<open>For invariants that do not speak of the timers.\<close>

locale loop_inv = object_inv sig I
  for sig :: "(callback_id, 'h, 'z) signal" and I :: "(callback_id, 'h, 'z) core_scheme \<Rightarrow> bool" +
  fixes cb :: "(callback_id, ('h, 'z) core_ext) callback"
  assumes I_timers: "I S \<Longrightarrow> tstate.more T = tstate.more S \<Longrightarrow> I T"
    and I_cb: "I S \<Longrightarrow> cb f t x S = Inr T \<Longrightarrow> I T"
begin

lemma timer_has_expired_k: "I S \<Longrightarrow> (\<And>b T. I T \<Longrightarrow> K (b, T)) \<Longrightarrow> returns K (timer_has_expired cb t S)"
proof -
  assume S: "I S" and K: "\<And>b T. I T \<Longrightarrow> K (b, T)"
  have upd: "I (T\<lparr>tmr := tm\<rparr>)" if "I T" for T :: "(callback_id, 'h, 'z) core_scheme" and tm
    by (rule I_timers [OF that]) simp
  have cb: "returns L (cb f w x T)" if "I T" "\<And>U. I U \<Longrightarrow> L U" for L f w x T
    using I_cb that by (auto simp: returns_def)
  show ?thesis
    using S K unfolding timer_has_expired_def
    by (auto split: prod.split intro!: cb upd dest: I_results(5))
qed

lemma deactivate_loop_k: "I S \<Longrightarrow> (\<And>ts T. I T \<Longrightarrow> K (ts, T)) \<Longrightarrow> returns K (deactivate_loop ts S)"
proof (induction ts arbitrary: S K)
  case (Cons t ts)
  have "returns L (timer_deactivate t S)" if "\<And>b T. I T \<Longrightarrow> L (b, T)" for L
  proof -
    have "I (S\<lparr>mallocs := m, passive_timers := ps\<rparr>)" for m ps
      by (rule I_timers [OF Cons.prems(1)]) simp
    then show ?thesis using that Cons.prems(1)
      by (auto simp: timer_deactivate_def push_timer_eq)
  qed
  then show ?case using Cons by auto
qed auto

lemma timer_tick_k [intro!]:
  assumes S: "I S" and K: "\<And>T. I T \<Longrightarrow> K T"
  shows "returns K (timer_tick cb S)"
proof -
  let ?S = "S\<lparr>clock_reads := Suc (clock_reads S), now := clock S (clock_reads S)\<rparr>"
  have I1: "I ?S" by (rule I_timers [OF S]) simp
  have "returns I (efold (\<lambda>t u. ebind (timer_has_expired cb t u) (\<lambda>(_, v). Inr v)) ts ?S)" for ts
    by (rule returns_efold [where I = I]) (use I1 in \<open>auto intro!: timer_has_expired_k\<close>)
  then have "returns (\<lambda>T. returns K (ebind (deactivate_loop (active_timers T) T) (\<lambda>(ts, U). Inr (U\<lparr>active_timers := ts\<rparr>))))
      (efold (\<lambda>t u. ebind (timer_has_expired cb t u) (\<lambda>(_, v). Inr v)) ts ?S)" for ts
  proof (rule returns_weaken)
    fix T assume T: "I T"
    have "K (U\<lparr>active_timers := ts\<rparr>)" if "I U" for U ts
      by (rule K, rule I_timers [OF that]) simp
    then show "returns K (ebind (deactivate_loop (active_timers T) T) (\<lambda>(ts, U). Inr (U\<lparr>active_timers := ts\<rparr>)))"
      using T by (auto intro!: deactivate_loop_k)
  qed
  then show ?thesis by (simp add: timer_tick_def timer_now_forced_def Let_def)
qed

lemma core_step_k [intro!]:
  assumes S: "I S" and K: "\<And>T. I T \<Longrightarrow> K T"
  shows "returns K (core_step n cb sig S)"
proof -
  have "I (T\<lparr>waits_done := w\<rparr>)" "I (T\<lparr>waits_done := w, errno := e\<rparr>)" if "I T" for T w e
    using that by (auto intro: I_internal simp: internal_def)
  moreover have "returns K (efold (handle_ready n sig) rs T)" if "I T" for rs T
    by (rule returns_weaken [where Q = I]) (auto intro!: returns_efold that K)
  ultimately show ?thesis
    using S K by (auto simp: core_step_def Let_def split: wait_answer.split)
qed

lemma core_loop_k: "I S \<Longrightarrow> (\<And>T. I T \<Longrightarrow> K T) \<Longrightarrow> returns K (core_loop m n cb sig S)"
  by (induction m arbitrary: S) auto

end

end
