(* ===== verification/Gen_Session.thy ===== *)
theory Gen_Session
  imports Gen_Rate Engine_Frame Ring_Queue C_String
begin

text \<open>
  The generators that issue calls on connections: \<^verbatim>\<open>src/src/gen/call_seq.c\<close> (a sequence
  of calls on every connection), \<^verbatim>\<open>session.c\<close> (the calls of a session, spread over its
  connections, each with a ring buffer of pending calls) and \<^verbatim>\<open>sess_cookie.c\<close>
  (one cookie for each session).  \<open>sig\<close> stands for \<open>event_signal\<close>; \<open>n\<close> bounds the loops of
  the engine and those over pending calls, whose number handlers can change.
\<close>

section \<open>A sequence of calls\<close>

definition upd_cs :: "nat \<Rightarrow> (cs_conn \<Rightarrow> cs_conn) \<Rightarrow> prog \<Rightarrow> prog" where
  "upd_cs a f = upd_conn_priv a (\<lambda>p. p\<lparr>cs_conn := f (cs_conn p)\<rparr>)"

abbreviation cs_of :: "nat \<Rightarrow> prog \<Rightarrow> cs_conn" where
  "cs_of a S \<equiv> cs_conn (conn_priv S a)"

definition issue_call :: "psignal \<Rightarrow> nat \<Rightarrow> prog \<Rightarrow> prog result" where
  "issue_call sig a S =
     (let k = cs_num_calls (cs_of a S); S = upd_cs a (\<lambda>p. p\<lparr>cs_num_calls := k + 1\<rparr>) S in
      if as_ulong k < num_calls (param S) then
        ebind (object_new sig OBJ_CALL S) (\<lambda>(c, S).
        case c of
          None \<Rightarrow> Inr S
        | Some c \<Rightarrow> ebind (core_send sig a c S) (\<lambda>(_, S). object_dec_ref sig c S))
      else Inr S)"

definition issue_calls :: "psignal \<Rightarrow> nat \<Rightarrow> prog \<Rightarrow> prog result" where
  "issue_calls sig a S =
     efold (\<lambda>_. issue_call sig a) [0..<unat (burst_len (param S))]
       (upd_cs a (\<lambda>p. p\<lparr>cs_num_completed := 0, cs_num_destroyed := 0\<rparr>) S)"

definition call_seq_conn_connected :: "psignal \<Rightarrow> nat \<Rightarrow> prog \<Rightarrow> prog result" where
  "call_seq_conn_connected sig a S = issue_calls sig a S"

definition call_seq_call_done :: "nat \<Rightarrow> prog \<Rightarrow> prog result" where
  "call_seq_call_done c S =
     (case call_conn (calls S c) of
        None \<Rightarrow> Inl Assertion
      | Some a \<Rightarrow> Inr (upd_cs a (\<lambda>p. p\<lparr>cs_num_completed := cs_num_completed p + 1\<rparr>) S))"

definition call_seq_call_destroyed :: "nat \<Rightarrow> psignal \<Rightarrow> nat \<Rightarrow> prog \<Rightarrow> prog result" where
  "call_seq_call_destroyed n sig c S =
     ebind (deref (call_conn (calls S c))) (\<lambda>a.
     let S = upd_cs a (\<lambda>p. p\<lparr>cs_num_destroyed := cs_num_destroyed p + 1\<rparr>) S in
     if min (burst_len (param S)) (num_calls (param S)) \<le> as_ulong (cs_num_destroyed (cs_of a S)) then
       if cs_num_completed (cs_of a S) = cs_num_destroyed (cs_of a S)
          \<and> as_ulong (cs_num_calls (cs_of a S)) < num_calls (param S)
       then issue_calls sig a S
       else core_close n sig a S
     else Inr S)"

definition call_seq_init :: "prog \<Rightarrow> prog result" where
  "call_seq_init S =
     ebind (event_register_handler EV_CONN_CONNECTED Call_seq_conn_connected (Lng 0) (snd (object_expand OBJ_CONN 12 S))) (\<lambda>S.
     ebind (event_register_handler EV_CALL_RECV_STOP Call_seq_call_done (Lng 0) S)
       (event_register_handler EV_CALL_DESTROYED Call_seq_call_destroyed (Lng 0)))"

section \<open>Sessions\<close>

text \<open>The connection \<open>i\<close> of the session \<open>x\<close>; \<open>session_init\<close> keeps \<open>max_conns\<close> at most \<open>MAX_CONN\<close>.\<close>

definition ci_of :: "nat \<Rightarrow> nat \<Rightarrow> prog \<Rightarrow> conn_info" where
  "ci_of x i S = conn_infos (sn_sess (sess_priv S x)) ! i"

definition upd_ci :: "nat \<Rightarrow> nat \<Rightarrow> (conn_info \<Rightarrow> conn_info) \<Rightarrow> prog \<Rightarrow> prog" where
  "upd_ci x i f = upd_sess_priv x (\<lambda>p. p\<lparr>sn_sess := (sn_sess p)
     \<lparr>conn_infos := (conn_infos (sn_sess p))[i := f (conn_infos (sn_sess p) ! i)]\<rparr>\<rparr>)"

abbreviation sn_of :: "nat \<Rightarrow> prog \<Rightarrow> sn_conn" where
  "sn_of a S \<equiv> sn_conn (conn_priv S a)"

definition create_conn :: "nat \<Rightarrow> psignal \<Rightarrow> nat \<Rightarrow> nat \<Rightarrow> prog \<Rightarrow> prog result" where
  "create_conn n sig x i S =
     ebind (object_new sig OBJ_CONN S) (\<lambda>(a, S).
     let S = upd_ci x i (\<lambda>ci. ci\<lparr>ci_conn := a\<rparr>) S in
     case a of
       None \<Rightarrow> sess_failure sig x S
     | Some a \<Rightarrow>
         let S = upd_conn_priv a (\<lambda>p. p\<lparr>sn_conn := \<lparr>cn_sess = Some x, cn_ci = Some (x, i)\<rparr>\<rparr>) S;
             S = upd_ci x i (\<lambda>ci. ci\<lparr>is_connected := False, is_successful := False, num_sent := 0\<rparr>) S
         in ebind (core_connect n sig a S) (\<lambda>(r, S). if r < 0 then sess_failure sig x S else Inr S))"

text \<open>The loop of \<open>send_calls\<close>: \<open>k\<close> counts from \<open>num_sent\<close> on, \<open>rd\<close> runs through the ring.\<close>

fun send_loop :: "nat \<Rightarrow> psignal \<Rightarrow> nat \<Rightarrow> nat \<Rightarrow> u32 \<Rightarrow> u32 \<Rightarrow> prog \<Rightarrow> prog result" where
  "send_loop 0 sig x i k rd S = (if k < num_pending (ci_of x i S) then Inl Out_of_fuel else Inr S)"
| "send_loop (Suc n) sig x i k rd S =
     (if k < num_pending (ci_of x i S) then
        ebind (deref (ci_conn (ci_of x i S))) (\<lambda>a.
        ebind (nth_c (ci_call (ci_of x i S)) (unat rd)) (\<lambda>p.
        ebind (deref p) (\<lambda>c.
        ebind (core_send sig a c S) (\<lambda>(_, S).
          send_loop n sig x i (k + 1) ((rd + 1) mod of_nat max_piped_calls)
            (upd_ci x i (\<lambda>ci. ci\<lparr>num_sent := num_sent ci + 1\<rparr>) S)))))
      else Inr S)"

definition send_calls :: "nat \<Rightarrow> psignal \<Rightarrow> nat \<Rightarrow> nat \<Rightarrow> prog \<Rightarrow> prog result" where
  "send_calls n sig x i S =
     (let ci = ci_of x i S in
      if ci_conn ci = None then create_conn n sig x i S
      else if \<not> is_connected ci then Inr S
      else send_loop n sig x i (num_sent ci) ((ci_rd ci + num_sent ci) mod of_nat max_piped_calls) S)"

text \<open>
  The ring buffer.  A call is put into it while fewer than \<open>m\<close> are pending; \<open>ring_take\<close>
  takes the first one out.
\<close>

definition ring_put :: "u64 \<Rightarrow> nat \<Rightarrow> conn_info \<Rightarrow> (bool \<times> conn_info) result" where
  "ring_put m c ci =
     (if ucast (num_pending ci) < m then
        ebind (update_c (ci_call ci) (unat (ci_wr ci)) (Some c)) (\<lambda>cells.
          Inr (True, ci\<lparr>num_pending := num_pending ci + 1, ci_call := cells,
                        ci_wr := (ci_wr ci + 1) mod of_nat max_piped_calls\<rparr>))
      else Inr (False, ci))"

definition ring_take :: "conn_info \<Rightarrow> (nat \<times> conn_info) result" where
  "ring_take ci =
     ebind (nth_c (ci_call ci) (unat (ci_rd ci))) (\<lambda>p.
     if p \<noteq> None \<and> 0 < num_pending ci then
       Inr (the p, ci\<lparr>ci_call := (ci_call ci)[unat (ci_rd ci) := None],
                  ci_rd := (ci_rd ci + 1) mod of_nat max_piped_calls, num_pending := num_pending ci - 1\<rparr>)
     else Inl Assertion)"

text \<open>The loop of \<open>session_issue_call\<close> over the connections, up to the first one with room.\<close>

fun put_call :: "nat \<Rightarrow> nat list \<Rightarrow> nat \<Rightarrow> prog \<Rightarrow> (nat \<times> prog) result" where
  "put_call x [] c S = Inl (Exit 1)"
| "put_call x (i # is) c S =
     ebind (ring_put (max_piped (param S)) c (ci_of x i S)) (\<lambda>(room, ci).
       if room then Inr (i, object_inc_ref c (upd_ci x i (\<lambda>_. ci) S)) else put_call x is c S)"

definition session_issue_call :: "nat \<Rightarrow> psignal \<Rightarrow> nat \<Rightarrow> nat \<Rightarrow> prog \<Rightarrow> prog result" where
  "session_issue_call n sig x c S =
     (let S = upd_call_priv c (\<lambda>p. p\<lparr>sn_call := \<lparr>ca_sess = Some x\<rparr>\<rparr>) S in
      ebind (put_call x [0..<unat (max_conns (param S))] c S) (\<lambda>(i, S). send_calls n sig x i S))"

text \<open>The calls that are still pending when the session is destroyed lose their reference.\<close>

fun drop_pending :: "nat \<Rightarrow> psignal \<Rightarrow> nat \<Rightarrow> nat \<Rightarrow> u32 \<Rightarrow> u32 \<Rightarrow> prog \<Rightarrow> prog result" where
  "drop_pending 0 sig x i j rd S = (if j < num_pending (ci_of x i S) then Inl Out_of_fuel else Inr S)"
| "drop_pending (Suc n) sig x i j rd S =
     (if j < num_pending (ci_of x i S) then
        ebind (nth_c (ci_call (ci_of x i S)) (unat rd)) (\<lambda>p.
        ebind (deref p) (\<lambda>c.
        ebind (object_dec_ref sig c S)
          (drop_pending n sig x i (j + 1) ((rd + 1) mod of_nat max_piped_calls))))
      else Inr S)"

definition session_sess_destroyed :: "nat \<Rightarrow> psignal \<Rightarrow> nat \<Rightarrow> prog \<Rightarrow> prog result" where
  "session_sess_destroyed n sig x S =
     efold (\<lambda>i S.
       ebind (case ci_conn (ci_of x i S) of None \<Rightarrow> Inr S | Some a \<Rightarrow> core_close n sig a S) (\<lambda>S.
         drop_pending n sig x i 0 (ci_rd (ci_of x i S)) S)) [0..<unat (max_conns (param S))] S"

definition session_conn_connected :: "nat \<Rightarrow> psignal \<Rightarrow> nat \<Rightarrow> prog \<Rightarrow> prog result" where
  "session_conn_connected n sig a S =
     ebind (deref (cn_ci (sn_of a S))) (\<lambda>(x, i).
       send_calls n sig x i (upd_ci x i (\<lambda>ci. ci\<lparr>is_connected := True\<rparr>) S))"

definition session_conn_failed :: "nat \<Rightarrow> psignal \<Rightarrow> nat \<Rightarrow> prog \<Rightarrow> prog result" where
  "session_conn_failed n sig a S =
     ebind (deref (cn_ci (sn_of a S))) (\<lambda>(x, i).
       if is_successful (ci_of x i S) \<or> retry_on_failure (param S) then create_conn n sig x i S
       else sess_failure sig x S)"

definition session_conn_timeout :: "psignal \<Rightarrow> nat \<Rightarrow> prog \<Rightarrow> prog result" where
  "session_conn_timeout sig a S = ebind (deref (cn_sess (sn_of a S))) (\<lambda>x. sess_failure sig x S)"

text \<open>The call leaves the ring; the assertion checks that replies come in the order of the calls.\<close>

definition take_call :: "nat \<Rightarrow> nat \<Rightarrow> nat \<Rightarrow> prog \<Rightarrow> prog result" where
  "take_call x i c S =
     ebind (ring_take (ci_of x i S)) (\<lambda>(d, ci).
     ebind (c_assert (d = c \<and> 0 < num_sent ci) S) (\<lambda>S.
       Inr (upd_ci x i (\<lambda>_. ci\<lparr>num_sent := num_sent ci - 1\<rparr>) S)))"

definition session_call_done :: "nat \<Rightarrow> psignal \<Rightarrow> nat \<Rightarrow> prog \<Rightarrow> prog result" where
  "session_call_done n sig c S =
     ebind (deref (call_conn (calls S c))) (\<lambda>a.
     ebind (deref (cn_ci (sn_of a S))) (\<lambda>(x, i).
     ebind (take_call x i c (upd_ci x i (\<lambda>ci. ci\<lparr>is_successful := True\<rparr>) S)) (\<lambda>S.
     ebind (if failure_status (param S) \<noteq> 0 \<and> reply_status (calls S c) = failure_status (param S) then
              if retry_on_failure (param S) then session_issue_call n sig x c S else sess_failure sig x S
            else Inr S) (\<lambda>S.
     ebind (object_dec_ref sig c S) (\<lambda>S.
     if http_version (param S) < 0x10001 then
       ebind (deref (ci_conn (ci_of x i S))) (\<lambda>b.
       ebind (core_close n sig b S) (\<lambda>S. Inr (upd_ci x i (\<lambda>ci. ci\<lparr>ci_conn := None\<rparr>) S)))
     else Inr S)))))"

text \<open>The sizes of the private structures are those of the x86-64 ABI.\<close>

definition session_init :: "prog \<Rightarrow> prog result" where
  "session_init S =
     (let S = (if max_conns (param S) = 0 then S\<lparr>param := (param S)\<lparr>max_conns := of_nat max_conn\<rparr>\<rparr> else S);
          S = (if max_piped (param S) = 0 then
                 S\<lparr>param := (param S)\<lparr>max_piped := (if 0x10001 \<le> http_version (param S)
                                                       then of_nat max_piped_calls else 1)\<rparr>\<rparr>
               else S)
      in
      if of_nat max_conn < max_conns (param S) then Inl (Exit 1)
      else if of_nat max_piped_calls < max_piped (param S) then Inl (Exit 1)
      else
        let S = S\<lparr>max_qlen := max_conns (param S) * max_piped (param S)\<rparr>;
            S = snd (object_expand OBJ_SESS 1152 S);
            S = snd (object_expand OBJ_CONN 16 S);
            S = snd (object_expand OBJ_CALL 8 S)
        in ebind (event_register_handler EV_SESS_DESTROYED Session_sess_destroyed (Lng 0) S) (\<lambda>S.
           ebind (event_register_handler EV_CONN_CONNECTED Session_conn_connected (Lng 0) S) (\<lambda>S.
           ebind (event_register_handler EV_CONN_FAILED Session_conn_failed (Lng 0) S) (\<lambda>S.
           ebind (event_register_handler EV_CONN_TIMEOUT Session_conn_timeout (Lng 0) S)
             (event_register_handler EV_CALL_RECV_STOP Session_call_done (Lng 0))))))"

definition session_max_qlen :: "prog \<Rightarrow> u64" where
  "session_max_qlen S = max_qlen S"

definition session_current_qlen :: "nat \<Rightarrow> prog \<Rightarrow> u64" where
  "session_current_qlen x S =
     foldl (\<lambda>s i. s + ucast (num_pending (ci_of x i S))) 0 [0..<unat (max_conns (param S))]"

definition session_get_sess_from_conn :: "nat \<Rightarrow> prog \<Rightarrow> nat option" where
  "session_get_sess_from_conn a S = cn_sess (sn_of a S)"

definition session_get_sess_from_call :: "nat \<Rightarrow> prog \<Rightarrow> nat option" where
  "session_get_sess_from_call c S = ca_sess (sn_call (call_priv S c))"

section \<open>Cookies\<close>

definition max_cookie_len :: nat where
  "max_cookie_len = 256"

definition cookie_call_issue :: "nat \<Rightarrow> prog \<Rightarrow> prog result" where
  "cookie_call_issue c S =
     (if cookie_present (ck_call (call_priv S c)) then Inr S
      else
        ebind (deref (session_get_sess_from_call c S)) (\<lambda>x.
        let k = ck_sess (sess_priv S x) in
        if 0 < cookie_len k then
          let S = upd_call_priv c (\<lambda>p. p\<lparr>ck_call := \<lparr>cookie_present = True, ca_cookie = cookie k\<rparr>\<rparr>) S
          in Inr (snd (call_append_request_header c (cookie k) (cookie_len k) S))
        else Inr S))"

text \<open>
  The header line is a C string in the line buffer of the connection; \<open>len\<close> is the
  length of its I/O vector.
\<close>

definition cookie_call_recv_hdr :: "nat \<Rightarrow> string \<Rightarrow> prog \<Rightarrow> prog result" where
  "cookie_call_recv_hdr c hdr S =
     ebind (deref (session_get_sess_from_call c S)) (\<lambda>x.
     if hdr \<noteq> [] \<and> tolower_c (hd hdr) = CHR ''s'' \<and> 12 < length hdr
        \<and> strncasecmp_eq (drop 1 hdr) ''et-cookie: '' 11 then
       let start = drop 12 hdr;
           len = (case strchr start (CHR '';'') of None \<Rightarrow> length start | Some k \<Rightarrow> k);
           len = (if max_cookie_len \<le> len + 10 then max_cookie_len - 11 else len)
       in Inr (upd_sess_priv x (\<lambda>p. p\<lparr>ck_sess := \<lparr>cookie_len = len + 10,
                cookie = ''Cookie: '' @ take len start @ [CR, LF]\<rparr>\<rparr>) S)
     else Inr S)"

definition cookie_init :: "prog \<Rightarrow> prog result" where
  "cookie_init S =
     (let S = snd (object_expand OBJ_SESS 264 S);
          S = snd (object_expand OBJ_CALL 260 S)
      in ebind (event_register_handler EV_CALL_ISSUE Cookie_call_issue (Lng 0) S)
           (event_register_handler EV_CALL_RECV_HDR Cookie_call_recv_hdr (Lng 0)))"

section \<open>The ring buffer is a bounded queue\<close>

definition ring_inv :: "u64 \<Rightarrow> conn_info \<Rightarrow> bool" where
  "ring_inv m ci \<longleftrightarrow>
     length (ci_call ci) = max_piped_calls \<and> unat (ci_rd ci) < max_piped_calls
     \<and> unat (num_pending ci) \<le> unat m \<and> unat m \<le> max_piped_calls
     \<and> unat (ci_wr ci) = (unat (ci_rd ci) + unat (num_pending ci)) mod max_piped_calls
     \<and> None \<notin> set (ring (ci_call ci) (unat (ci_rd ci)) (unat (num_pending ci)))"

definition pending_calls :: "conn_info \<Rightarrow> nat list" where
  "pending_calls ci = map the (ring (ci_call ci) (unat (ci_rd ci)) (unat (num_pending ci)))"

lemma pending_calls_length [simp]: "length (pending_calls ci) = unat (num_pending ci)"
  by (simp add: pending_calls_def)

lemma unat_ucast_64 [simp]: "unat (ucast (x :: u32) :: u64) = unat x"
proof -
  have "unat x < 2 ^ 32" using unsigned_less [of x] by simp
  then have "unat x < 2 ^ 64" by simp
  then show ?thesis by (simp add: unsigned_ucast_eq take_bit_nat_eq_self)
qed

lemma ring_apart:
  fixes r j :: nat
  assumes "r < 32" "j < 31"
  shows "((r + 1) mod 32 + j) mod 32 \<noteq> r"
proof (cases "r + 1 + j < 32")
  case True
  then show ?thesis by (simp add: mod_add_left_eq)
next
  case False
  have "((r + 1) mod 32 + j) mod 32 = (r + 1 + j) mod 32" by (rule mod_add_left_eq)
  also have "\<dots> = r + 1 + j - 32" using False assms by (simp add: mod_if)
  finally show ?thesis using False assms by linarith
qed

lemma ring_next:
  fixes i :: u32
  assumes "unat i < max_piped_calls"
  shows "unat ((i + 1) mod of_nat max_piped_calls) = (unat i + 1) mod max_piped_calls"
proof -
  have "unat (i + 1) = unat i + 1" using assms unat_add_no_wrap [of i 1] by simp
  then show ?thesis by (simp add: unat_mod)
qed

lemma ring_put_room:
  assumes inv: "ring_inv m ci" and room: "unat (num_pending ci) < unat m"
  shows "\<exists>ci'. ring_put m c ci = Inr (True, ci') \<and> ring_inv m ci' \<and> pending_calls ci' = pending_calls ci @ [c]"
proof -
  let ?k = "unat (num_pending ci)" and ?cells = "(ci_call ci)[unat (ci_wr ci) := Some c]"
  let ?ci = "ci\<lparr>num_pending := num_pending ci + 1, ci_call := ?cells, ci_wr := (ci_wr ci + 1) mod of_nat max_piped_calls\<rparr>"
  have i: "length (ci_call ci) = 32" "unat (ci_rd ci) < 32" "unat m \<le> 32"
      "unat (ci_wr ci) = (unat (ci_rd ci) + ?k) mod 32"
      "None \<notin> set (ring (ci_call ci) (unat (ci_rd ci)) ?k)"
    using inv by (simp_all add: ring_inv_def)
  have k: "unat (num_pending ci + 1) = Suc ?k"
    using room i(3) unat_add_no_wrap [of "num_pending ci" 1] by simp
  have wr: "unat (ci_wr ci) < 32" using i(4) by simp
  have "unat ((ci_wr ci + 1) mod of_nat max_piped_calls) = (unat (ci_wr ci) + 1) mod 32" using ring_next [of "ci_wr ci"] wr by simp
  then have wr': "unat ((ci_wr ci + 1) mod of_nat max_piped_calls) = (unat (ci_rd ci) + Suc ?k) mod 32"
    using i(4) by (simp add: mod_Suc_eq)
  have r: "ring ?cells (unat (ci_rd ci)) (Suc ?k) = ring (ci_call ci) (unat (ci_rd ci)) ?k @ [Some c]"
    by (rule ring_snoc) (use i room in auto)
  have less: "ucast (num_pending ci) < m"
    using room by (simp add: word_less_nat_alt)
  have run: "ring_put m c ci = Inr (True, ?ci)"
    using less wr i(1) by (simp add: ring_put_def)
  have "ring_inv m ?ci" unfolding ring_inv_def using i room k wr' r by simp
  moreover have "pending_calls ?ci = pending_calls ci @ [c]" using k r by (simp add: pending_calls_def)
  ultimately show ?thesis using run by blast
qed

lemma ring_put_full:
  assumes "ring_inv m ci" "unat (num_pending ci) = unat m"
  shows "ring_put m c ci = Inr (False, ci)"
  using assms by (simp add: ring_put_def word_less_nat_alt)

lemma ring_take_first:
  assumes inv: "ring_inv m ci" and p: "pending_calls ci = c # cs"
  shows "\<exists>ci'. ring_take ci = Inr (c, ci') \<and> ring_inv m ci' \<and> pending_calls ci' = cs
     \<and> num_sent ci' = num_sent ci"
proof -
  let ?cells = "(ci_call ci)[unat (ci_rd ci) := None]"
  let ?ci = "ci\<lparr>ci_call := ?cells, ci_rd := (ci_rd ci + 1) mod of_nat max_piped_calls, num_pending := num_pending ci - 1\<rparr>"
  have i: "length (ci_call ci) = 32" "unat (ci_rd ci) < 32" "unat m \<le> 32" "unat (num_pending ci) \<le> unat m"
      "unat (ci_wr ci) = (unat (ci_rd ci) + unat (num_pending ci)) mod 32"
      "None \<notin> set (ring (ci_call ci) (unat (ci_rd ci)) (unat (num_pending ci)))"
    using inv by (simp_all add: ring_inv_def)
  obtain k where k: "unat (num_pending ci) = Suc k"
    using arg_cong [OF p, of length] by (cases "unat (num_pending ci)") auto
  have k': "unat (num_pending ci - 1) = k"
    using k unat_sub_le [of 1 "num_pending ci"] by simp
  have rd: "unat ((ci_rd ci + 1) mod of_nat max_piped_calls) = (unat (ci_rd ci) + 1) mod 32"
    using ring_next [of "ci_rd ci"] i(2) by simp
  have r: "ring (ci_call ci) (unat (ci_rd ci)) (Suc k)
      = ci_call ci ! unat (ci_rd ci) # ring (ci_call ci) ((unat (ci_rd ci) + 1) mod 32) k"
    using i(1,2) by (simp add: ring_Suc)
  have r': "ring ?cells ((unat (ci_rd ci) + 1) mod 32) k = ring (ci_call ci) ((unat (ci_rd ci) + 1) mod 32) k"
  proof -
    have "unat (ci_rd ci) \<noteq> ((unat (ci_rd ci) + 1) mod 32 + j) mod 32" if "j < k" for j
    proof -
      have "j < 31" using that k i(3,4) by linarith
      then show ?thesis using ring_apart [OF i(2)] by metis
    qed
    then show ?thesis using i(1) by (simp add: ring_def)
  qed
  have c: "ci_call ci ! unat (ci_rd ci) = Some c"
    using p r i(6) k by (cases "ci_call ci ! unat (ci_rd ci)") (auto simp: pending_calls_def)
  have pos: "0 < num_pending ci" using k by (simp add: word_less_nat_alt)
  have run: "ring_take ci = Inr (c, ?ci)" using c i(1,2) pos by (simp add: ring_take_def)
  have wr: "unat (ci_wr ci) = ((unat (ci_rd ci) + 1) mod 32 + k) mod 32"
    using i(5) k by (simp add: mod_add_left_eq)
  have "ring_inv m ?ci" unfolding ring_inv_def
    using i k k' rd r r' wr by simp
  moreover have "pending_calls ?ci = cs"
    using p k k' rd r r' by (simp add: pending_calls_def)
  ultimately show ?thesis using run by (intro exI [of _ ?ci]) simp
qed

interpretation pipe: bounded_fifo "ring_inv m" pending_calls "\<lambda>_. unat m" "ring_put m" ring_take for m
proof
  fix ci :: conn_info and c
  show "ring_inv m ci \<Longrightarrow> length (pending_calls ci) \<le> unat m" by (simp add: ring_inv_def)
  show "ring_inv m ci \<Longrightarrow> length (pending_calls ci) < unat m \<Longrightarrow>
      \<exists>ci'. ring_put m c ci = Inr (True, ci') \<and> ring_inv m ci' \<and> pending_calls ci' = pending_calls ci @ [c] \<and> unat m = unat m"
    using ring_put_room [of m ci c] by simp
  show "ring_inv m ci \<Longrightarrow> length (pending_calls ci) = unat m \<Longrightarrow> ring_put m c ci = Inr (False, ci)"
    by (simp add: ring_put_full)
  show "ring_inv m ci \<Longrightarrow> pending_calls ci = c # cs \<Longrightarrow>
      \<exists>ci'. ring_take ci = Inr (c, ci') \<and> ring_inv m ci' \<and> pending_calls ci' = cs \<and> unat m = unat m" for cs
    using ring_take_first [of m ci c cs] by blast
qed

section \<open>Issuing a call of a session\<close>

text \<open>Handlers that leave the rings of the sessions alone.\<close>

definition rings :: "prog \<Rightarrow> (nat \<Rightarrow> sn_sess) \<times> params" where
  "rings S = ((\<lambda>x. sn_sess (sess_priv S x)), param S)"

lemma ci_of_rings: "rings T = rings S \<Longrightarrow> ci_of x i T = ci_of x i S"
  by (simp add: rings_def ci_of_def fun_eq_iff)

lemma internal_rings: "internal S T \<Longrightarrow> rings T = rings S"
  by (simp add: internal_def rings_def)

lemma schedule_rings: "timer_schedule f x d S = (w, T) \<Longrightarrow> rings T = rings S"
  by (auto simp: timer_schedule_def malloc_def timer_now_def timer_now_forced_def push_timer_def rings_def Let_def
      split: list.splits if_splits option.splits prod.splits)

lemma cancel_rings: "timer_cancel w S = Inr T \<Longrightarrow> rings T = rings S"
  by (auto simp: timer_cancel_def rings_def Inr_iff)

locale keeps_rings =
  fixes sig :: psignal
  assumes sig_rings: "sig ev a arg S = Inr T \<Longrightarrow> rings T = rings S"

sublocale keeps_rings \<subseteq> ring_frame: engine_inv sig "\<lambda>T. rings T = R" for R
  by unfold_locales (use sig_rings internal_rings schedule_rings cancel_rings in metis)+

lemma ci_of_upd_ci:
  assumes "i < length (conn_infos (sn_sess (sess_priv S x)))"
  shows "ci_of y j (upd_ci x i f S) = (if y = x \<and> j = i then f (ci_of x i S) else ci_of y j S)"
  using assms by (simp add: ci_of_def upd_ci_def upd_sess_priv_def nth_list_update)

lemma upd_ci_keeps [simp]:
  "param (upd_ci x i f S) = param S"
  "length (conn_infos (sn_sess (sess_priv (upd_ci x i f S) y))) = length (conn_infos (sn_sess (sess_priv S y)))"
  "max_qlen (upd_ci x i f S) = max_qlen S"
  by (simp_all add: upd_ci_def upd_sess_priv_def)

context keeps_rings
begin

lemma core_send_rings: "core_send sig a c S = Inr (r, T) \<Longrightarrow> rings T = rings S"
  using ring_frame.core_send_k [of S "rings S" "\<lambda>(r, T). rings T = rings S" a c] by (simp add: returns_def)

lemma send_loop_sends:
  assumes "send_loop n sig x i k rd S = Inr T" "i < length (conn_infos (sn_sess (sess_priv S x)))"
    and "k = num_sent (ci_of x i S)" "num_sent (ci_of x i S) \<le> num_pending (ci_of x i S)"
  shows "ci_of x i T = (ci_of x i S)\<lparr>num_sent := num_pending (ci_of x i S)\<rparr>
     \<and> (\<forall>y j. (y, j) \<noteq> (x, i) \<longrightarrow> ci_of y j T = ci_of y j S)"
  using assms
proof (induction n arbitrary: k rd S)
  case 0
  then show ?case by (auto split: if_splits)
next
  case (Suc n)
  show ?case
  proof (cases "k < num_pending (ci_of x i S)")
    case False
    then have "T = S" "num_sent (ci_of x i S) = num_pending (ci_of x i S)" using Suc.prems by auto
    then show ?thesis by (cases "ci_of x i S") simp
  next
    case True
    then obtain a c r U where U: "core_send sig a c S = Inr (r, U)"
        and rest: "send_loop n sig x i (k + 1) ((rd + 1) mod of_nat max_piped_calls)
          (upd_ci x i (\<lambda>ci. ci\<lparr>num_sent := num_sent ci + 1\<rparr>) U) = Inr T"
      using Suc.prems(1) by (auto simp: Inr_iff)
    note same = core_send_rings [OF U]
    let ?U = "upd_ci x i (\<lambda>ci. ci\<lparr>num_sent := num_sent ci + 1\<rparr>) U"
    have len: "i < length (conn_infos (sn_sess (sess_priv U x)))"
      using Suc.prems(2) same by (simp add: rings_def fun_eq_iff)
    have ci: "ci_of x i ?U = (ci_of x i S)\<lparr>num_sent := num_sent (ci_of x i S) + 1\<rparr>"
        "(y, j) \<noteq> (x, i) \<Longrightarrow> ci_of y j ?U = ci_of y j S" for y j
      using ci_of_upd_ci [OF len] ci_of_rings [OF same] by auto
    have le: "num_sent (ci_of x i S) + 1 \<le> num_pending (ci_of x i S)"
      using True Suc.prems(3) by (simp add: inc_le)
    have "ci_of x i T = (ci_of x i ?U)\<lparr>num_sent := num_pending (ci_of x i ?U)\<rparr>
       \<and> (\<forall>y j. (y, j) \<noteq> (x, i) \<longrightarrow> ci_of y j T = ci_of y j ?U)"
      by (rule Suc.IH [OF rest]) (use len ci(1) le Suc.prems(3) in simp_all)
    then show ?thesis using ci by simp
  qed
qed

end

lemma upt_split:
  assumes "[0..<n] = bs @ i # as"
  shows "i = length bs \<and> i < n \<and> bs = [0..<i]"
proof -
  have k: "length bs < n" using arg_cong [OF assms, of length] by simp
  then have "[0..<n] ! length bs = length bs" by (simp del: upt_Suc)
  moreover have "(bs @ i # as) ! length bs = i" by simp
  ultimately have i: "i = length bs" using assms by metis
  have "take (length bs) [0..<n] = [0..<length bs]" using k by (simp add: take_upt)
  then show ?thesis using i k assms by (metis append_eq_conv_conj)
qed

lemma put_call_first:
  assumes "put_call x is c S = Inr (i, T)" "\<forall>j \<in> set is. ring_inv (max_piped (param S)) (ci_of x j S)"
    and "\<forall>j \<in> set is. j < length (conn_infos (sn_sess (sess_priv S x)))"
  shows "\<exists>bs as ci. is = bs @ i # as \<and> (\<forall>j \<in> set bs. num_pending (ci_of x j S) = ucast (max_piped (param S)))
     \<and> ring_inv (max_piped (param S)) ci \<and> pending_calls ci = pending_calls (ci_of x i S) @ [c]
     \<and> ci_conn ci = ci_conn (ci_of x i S) \<and> is_connected ci = is_connected (ci_of x i S)
     \<and> num_sent ci = num_sent (ci_of x i S) \<and> unat (num_pending ci) = Suc (unat (num_pending (ci_of x i S)))
     \<and> T = object_inc_ref c (upd_ci x i (\<lambda>_. ci) S)"
  using assms
proof (induction "is")
  case (Cons k ks)
  let ?ci = "ci_of x k S"
  have inv: "ring_inv (max_piped (param S)) ?ci" using Cons.prems(2) by simp
  show ?case
  proof (cases "unat (num_pending ?ci) < unat (max_piped (param S))")
    case True
    obtain ci where ci: "ring_put (max_piped (param S)) c ?ci = Inr (True, ci)" "ring_inv (max_piped (param S)) ci"
        "pending_calls ci = pending_calls ?ci @ [c]"
      using ring_put_room [OF inv True, of c] by blast
    have same: "ci_conn ci = ci_conn ?ci" "is_connected ci = is_connected ?ci" "num_sent ci = num_sent ?ci"
      using ci(1) by (auto simp: ring_put_def Inr_iff split: if_splits)
    have "unat (num_pending ci) = Suc (unat (num_pending ?ci))"
      using arg_cong [OF ci(3), of length] by simp
    moreover have "i = k" "T = object_inc_ref c (upd_ci x i (\<lambda>_. ci) S)" using Cons.prems(1) ci(1) by auto
    ultimately show ?thesis using ci same by (intro exI [of _ "[]"] exI [of _ ks] exI [of _ ci]) simp
  next
    case False
    then have full: "unat (num_pending ?ci) = unat (max_piped (param S))" using inv by (simp add: ring_inv_def)
    have "num_pending ?ci = ucast (max_piped (param S))"
    proof (rule word_unat_eq_iff [THEN iffD2])
      have "unat (max_piped (param S)) < 2 ^ 32" using inv by (simp add: ring_inv_def)
      then show "unat (num_pending ?ci) = unat (ucast (max_piped (param S)) :: u32)"
        using full by (simp add: unsigned_ucast_eq take_bit_nat_eq_self)
    qed
    note fk = this
    have "put_call x ks c S = Inr (i, T)" using Cons.prems(1) ring_put_full [OF inv full] by simp
    from Cons.IH [OF this] Cons.prems(2,3)
    obtain bs as ci where IH: "ks = bs @ i # as" "\<forall>j \<in> set bs. num_pending (ci_of x j S) = ucast (max_piped (param S))"
      and ci: "ring_inv (max_piped (param S)) ci \<and> pending_calls ci = pending_calls (ci_of x i S) @ [c]
        \<and> ci_conn ci = ci_conn (ci_of x i S) \<and> is_connected ci = is_connected (ci_of x i S)
        \<and> num_sent ci = num_sent (ci_of x i S) \<and> unat (num_pending ci) = Suc (unat (num_pending (ci_of x i S)))
        \<and> T = object_inc_ref c (upd_ci x i (\<lambda>_. ci) S)"
      by auto
    have "k # ks = (k # bs) @ i # as" "\<forall>j \<in> set (k # bs). num_pending (ci_of x j S) = ucast (max_piped (param S))"
      using IH fk by simp_all
    with ci show ?thesis by blast
  qed
qed simp

section \<open>Properties\<close>

lemma ring_inv_num_sent [simp]: "ring_inv m (ci\<lparr>num_sent := k\<rparr>) = ring_inv m ci"
  "pending_calls (ci\<lparr>num_sent := k\<rparr>) = pending_calls ci"
  by (simp_all add: ring_inv_def pending_calls_def)

lemma ring_inv_zero: "unat m \<le> max_piped_calls \<Longrightarrow> ring_inv m zero_conn_info \<and> pending_calls zero_conn_info = []"
  by (simp add: ring_inv_def pending_calls_def zero_conn_info_def)


lemma three: "length [7, 8, 9 :: nat] = 3" by simp


lemma send_calls_sends:
  assumes "keeps_rings sig" "send_calls n sig x i S = Inr T" "ci_conn (ci_of x i S) \<noteq> None"
    and "i < length (conn_infos (sn_sess (sess_priv S x)))" "num_sent (ci_of x i S) \<le> num_pending (ci_of x i S)"
  shows "ci_of x i T = (if is_connected (ci_of x i S) then (ci_of x i S)\<lparr>num_sent := num_pending (ci_of x i S)\<rparr> else ci_of x i S)
     \<and> (\<forall>y j. (y, j) \<noteq> (x, i) \<longrightarrow> ci_of y j T = ci_of y j S)"
proof (cases "is_connected (ci_of x i S)")
  case True
  then have "send_loop n sig x i (num_sent (ci_of x i S))
      ((ci_rd (ci_of x i S) + num_sent (ci_of x i S)) mod of_nat max_piped_calls) S = Inr T"
    using assms(2,3) by (simp add: send_calls_def Let_def)
  from keeps_rings.send_loop_sends [OF assms(1) this assms(4) refl assms(5)] True show ?thesis by simp
next
  case False
  then have "T = S" using assms(2,3) by (simp add: send_calls_def Let_def)
  with False show ?thesis by simp
qed


definition one_conn :: prog where
  "one_conn = initial_prog\<lparr>param := default_params\<lparr>max_conns := 2, max_piped := 4\<rparr>,
     sess_priv := (\<lambda>_. zero_sess_private\<lparr>sn_sess := \<lparr>conn_infos = replicate max_conn (zero_conn_info\<lparr>ci_conn := Some 5\<rparr>)\<rparr>\<rparr>)\<rparr>"


lemma strchr_first:
  assumes "NUL \<notin> set v" "ch \<notin> set v" "ch \<noteq> NUL"
  shows "strchr (v @ ch # rest) ch = Some (length v)" "strchr v ch = None"
proof -
  have c: "cstr (v @ ch # rest) = v @ ch # cstr rest" "cstr v = v"
    using cstr_append [OF assms(1), of "ch # rest"] assms cstr_no_NUL by (auto simp: cstr_def)
  have t: "takeWhile (\<lambda>d. d \<noteq> ch) (v @ ch # cstr rest) = v" "takeWhile (\<lambda>d. d \<noteq> ch) v = v"
    using assms(2) by (auto intro: takeWhile_append_stop simp: takeWhile_eq_all_conv)
  show "strchr (v @ ch # rest) ch = Some (length v)" "strchr v ch = None"
    by (simp_all add: strchr_def c t)
qed

text \<open>
  C22: a cookie comes back: after a header \<open>Set-Cookie: v; ...\<close> in a reply of a session,
  the next request of the session that is issued carries the header \<open>Cookie: v\<close>, cut to
  the 245 characters for which the buffer has room.
\<close>

theorem cookie_comes_back:
  assumes "session_get_sess_from_call c S = Some x" "session_get_sess_from_call d S = Some x"
    and hdr: "length pre = 12" "map tolower_c pre = ''set-cookie: ''" "rest = [] \<or> hd rest = CHR '';''"
    and v: "v \<noteq> []" "NUL \<notin> set v" "CHR '';'' \<notin> set v"
    and d: "\<not> cookie_present (ck_call (call_priv S d))" "num_extra_hdrs (calls S d) < max_extra_headers"
      "length (iov (calls S d)) = ie_num"
  shows "\<exists>T U. cookie_call_recv_hdr c (pre @ v @ rest) S = Inr T \<and> cookie_call_issue d T = Inr U
     \<and> iov_bytes (iov (calls U d) ! (ie_first_header + num_extra_hdrs (calls S d))) = ''Cookie: '' @ take 245 v @ [CR, LF]
     \<and> num_extra_hdrs (calls U d) = num_extra_hdrs (calls S d) + 1 \<and> cookie_present (ck_call (call_priv U d))"
proof -
  obtain p ps where p: "pre = p # ps" "length ps = 11" using hdr(1) by (cases pre) auto
  have low: "tolower_c p = CHR ''s''" "map tolower_c ps = ''et-cookie: ''" using hdr(2) by (auto simp: p)
  have nul: "NUL \<notin> set ps"
  proof
    assume "NUL \<in> set ps"
    then have "tolower_c NUL \<in> set ''et-cookie: ''" using low(2) by (metis image_eqI list.set_map)
    moreover have "tolower_c NUL = NUL" by code_simp
    ultimately show False by simp
  qed
  have "take 11 (cstr (ps @ v @ rest)) = ps" using cstr_append [OF nul, of "v @ rest"] p(2) by simp
  moreover have "cstr ''et-cookie: '' = ''et-cookie: ''" by code_simp
  moreover have "map tolower_c ''et-cookie: '' = ''et-cookie: ''" by code_simp
  ultimately have cmp: "strncasecmp_eq (ps @ v @ rest) ''et-cookie: '' 11"
    using low(2) by (simp add: strncasecmp_eq_def)
  have len: "(case strchr (v @ rest) (CHR '';'') of None \<Rightarrow> length (v @ rest) | Some k \<Rightarrow> k) = length v"
    using strchr_first [OF v(2,3)] hdr(3) by (cases rest) auto
  define k where "k = (if max_cookie_len \<le> length v + 10 then max_cookie_len - 11 else length v)"
  have take_v: "take k v = take 245 v" "k \<le> length v" "min (length v) 245 = k" by (auto simp: k_def max_cookie_len_def)
  let ?ck = "''Cookie: '' @ take k (v @ rest) @ [CR, LF]"
  let ?T = "upd_sess_priv x (\<lambda>p. p\<lparr>ck_sess := \<lparr>cookie_len = k + 10, cookie = ?ck\<rparr>\<rparr>) S"
  have T: "cookie_call_recv_hdr c (pre @ v @ rest) S = Inr ?T"
    using assms(1) low(1) cmp v(1) len p(2)
    by (simp add: cookie_call_recv_hdr_def p(1) Let_def k_def drop_Cons' max_cookie_len_def)
  let ?U = "snd (call_append_request_header d ?ck (k + 10)
     (upd_call_priv d (\<lambda>p. p\<lparr>ck_call := \<lparr>cookie_present = True, ca_cookie = ?ck\<rparr>\<rparr>) ?T))"
  have U: "cookie_call_issue d ?T = Inr ?U"
    using assms(2) d(1) by (simp add: cookie_call_issue_def session_get_sess_from_call_def upd_sess_priv_def)
  have l: "length ?ck = k + 10" "?ck = ''Cookie: '' @ take 245 v @ [CR, LF]" using take_v by simp_all
  have "ie_first_header + num_extra_hdrs (calls S d) < length (iov (calls S d))" using d(2,3) by simp
  then have "iov_bytes (iov (calls ?U d) ! (ie_first_header + num_extra_hdrs (calls S d))) = ?ck
     \<and> num_extra_hdrs (calls ?U d) = num_extra_hdrs (calls S d) + 1 \<and> cookie_present (ck_call (call_priv ?U d))"
    using d(2) l(1) by (simp add: call_append_request_header_def upd_call_def upd_call_priv_def upd_sess_priv_def
        call_set_iov_def iov_bytes_def Let_def)
  then show ?thesis using T U unfolding l(2) by blast
qed

theorem cookie_comes_back_witness:
  "\<exists>T U. cookie_call_recv_hdr 5 (''Set-Cookie: '' @ ''id=7'' @ ''; path=/'')
       (initial_prog\<lparr>call_priv := (\<lambda>_. zero_call_private\<lparr>sn_call := \<lparr>ca_sess = Some 3\<rparr>\<rparr>)\<rparr>) = Inr T
     \<and> cookie_call_issue 6 T = Inr U \<and> iov_bytes (iov (calls U 6) ! 7) = ''Cookie: id=7'' @ [CR, LF]"
proof -
  let ?S = "initial_prog\<lparr>call_priv := (\<lambda>_. zero_call_private\<lparr>sn_call := \<lparr>ca_sess = Some 3\<rparr>\<rparr>)\<rparr>"
  have low: "map tolower_c ''Set-Cookie: '' = ''set-cookie: ''" by code_simp
  have c: "calls initial_prog = (\<lambda>_. zero_call)" by (simp add: initial_prog_def initial_state_def core.defs)
  have "\<exists>T U. cookie_call_recv_hdr 5 (''Set-Cookie: '' @ ''id=7'' @ ''; path=/'') ?S = Inr T \<and> cookie_call_issue 6 T = Inr U
     \<and> iov_bytes (iov (calls U 6) ! (ie_first_header + num_extra_hdrs (calls ?S 6))) = ''Cookie: '' @ take 245 ''id=7'' @ [CR, LF]
     \<and> num_extra_hdrs (calls U 6) = num_extra_hdrs (calls ?S 6) + 1 \<and> cookie_present (ck_call (call_priv U 6))"
    by (rule cookie_comes_back [where x = 3])
      (simp_all add: session_get_sess_from_call_def zero_call_private_def c zero_call_def low del: list.map)
  then show ?thesis by (auto simp: c zero_call_def)
qed

end
