(* ===== verification/Gen_Wsess.thy ===== *)
theory Gen_Wsess
  imports Gen_Session
begin

text \<open>
  Session workloads: \<^verbatim>\<open>src/src/gen/wsess.c\<close>, where every session makes the same number of
  calls in bursts, and the part of \<^verbatim>\<open>src/src/gen/wsesslog.c\<close> that runs the sessions
  described by a file (theory \<open>Wsesslog_Config\<close> reads the file).  Between bursts a
  timer waits for the think time of the user.
\<close>

section \<open>Conversions\<close>

text \<open>
  The counters of sessions are \<open>int\<close>; comparing one with an \<open>u_int\<close> converts it.  A
  difference of \<open>size_t\<close> values that is assigned to an \<open>int\<close> keeps its low 32 bits.
\<close>

definition as_uint :: "int \<Rightarrow> u32" where
  "as_uint k = word_of_int k"

definition to_int :: "u64 \<Rightarrow> int" where
  "to_int w = sint (ucast w :: u32)"

section \<open>Sessions with equal bursts\<close>

abbreviation ws_of :: "nat \<Rightarrow> prog \<Rightarrow> ws_sess" where
  "ws_of x S \<equiv> ws_sess (sess_priv S x)"

definition upd_ws :: "nat \<Rightarrow> (ws_sess \<Rightarrow> ws_sess) \<Rightarrow> prog \<Rightarrow> prog" where
  "upd_ws x f = upd_sess_priv x (\<lambda>p. p\<lparr>ws_sess := f (ws_sess p)\<rparr>)"

text \<open>The loop of \<open>issue_calls\<close>, with \<open>k\<close> calls left to make.\<close>

fun wsess_issue :: "nat \<Rightarrow> nat \<Rightarrow> psignal \<Rightarrow> nat \<Rightarrow> prog \<Rightarrow> prog result" where
  "wsess_issue 0 n sig x S = Inr S"
| "wsess_issue (Suc k) n sig x S =
     ebind (object_new sig OBJ_CALL S) (\<lambda>(c, S).
     case c of
       None \<Rightarrow> sess_failure sig x S
     | Some c \<Rightarrow>
         ebind (session_issue_call n sig x c S) (\<lambda>S.
         ebind (object_dec_ref sig c S) (wsess_issue k n sig x)))"

definition wsess_issue_calls :: "nat \<Rightarrow> psignal \<Rightarrow> nat \<Rightarrow> prog \<Rightarrow> prog result" where
  "wsess_issue_calls n sig x S =
     (let k = ws_calls_in_this_burst (ws_of x S);
          to_create = (if 0 < k then to_int (burst_len (param S) - ucast k) else 1);
          S = upd_ws x (\<lambda>p. p\<lparr>ws_calls_in_this_burst := k + as_uint to_create\<rparr>) S
      in wsess_issue (nat to_create) n sig x S)"

definition wsess_think_time_expired :: "nat \<Rightarrow> psignal \<Rightarrow> nat \<Rightarrow> prog \<Rightarrow> prog result" where
  "wsess_think_time_expired n sig x S =
     wsess_issue_calls n sig x (upd_ws x (\<lambda>p. p\<lparr>ws_timer := None\<rparr>) S)"

definition wsess_call_destroyed :: "nat \<Rightarrow> psignal \<Rightarrow> nat \<Rightarrow> prog \<Rightarrow> prog result" where
  "wsess_call_destroyed n sig c S =
     ebind (deref (session_get_sess_from_call c S)) (\<lambda>x.
     let S = upd_ws x (\<lambda>p. p\<lparr>ws_calls_destroyed := ws_calls_destroyed p + 1\<rparr>) S; p = ws_of x S in
     if wsess_num_calls (param S) \<le> ws_calls_destroyed p then
       if \<not> failed (sesss S x) then object_dec_ref sig x S else Inr S
     else if ucast (ws_calls_in_this_burst p) < burst_len (param S) then wsess_issue_calls n sig x S
     else if ws_calls_target p \<le> ws_calls_destroyed p then
       let S = upd_ws x (\<lambda>p. p\<lparr>ws_calls_in_this_burst := 0,
                 ws_calls_target := ws_calls_target p + ucast (burst_len (param S))\<rparr>) S in
       ebind (c_assert (ws_timer (ws_of x S) = None) S) (\<lambda>S.
         let (w, S) = timer_schedule Wsess_think_time_expired x (wsess_think_time (param S)) S
         in Inr (upd_ws x (\<lambda>p. p\<lparr>ws_timer := w\<rparr>) S))
     else Inr S)"

definition wsess_sess_create :: "nat \<Rightarrow> psignal \<Rightarrow> prog \<Rightarrow> (int \<times> prog) result" where
  "wsess_sess_create n sig S =
     (let k = wsess_generated S; S = S\<lparr>wsess_generated := k + 1\<rparr> in
      if wsess_num_sessions (param S) \<le> as_uint k then Inr (- 1, S)
      else
        ebind (object_new sig OBJ_SESS S) (\<lambda>(x, S).
        case x of
          None \<Rightarrow> Inr (1, S)
        | Some x \<Rightarrow>
            ebind (wsess_issue_calls n sig x
                (upd_ws x (\<lambda>p. p\<lparr>ws_calls_target := ucast (burst_len (param S))\<rparr>) S)) (\<lambda>S. Inr (0, S))))"

definition wsess_sess_destroyed :: "nat \<Rightarrow> prog \<Rightarrow> prog result" where
  "wsess_sess_destroyed x S =
     ebind (case ws_timer (ws_of x S) of
              None \<Rightarrow> Inr S
            | Some w \<Rightarrow> ebind (timer_cancel w S) (\<lambda>S. Inr (upd_ws x (\<lambda>p. p\<lparr>ws_timer := None\<rparr>) S))) (\<lambda>S.
     let k = wsess_destroyed S + 1; S = S\<lparr>wsess_destroyed := k\<rparr> in
     Inr (if wsess_num_sessions (param S) \<le> as_uint k then core_exit S else S))"

definition wsess_init :: "prog \<Rightarrow> prog result" where
  "wsess_init S =
     ebind (session_init S) (\<lambda>S.
     let S = upd_rg rg_wsess (\<lambda>r. r\<lparr>rg_tick := Wsess_sess_create\<rparr>) (snd (object_expand OBJ_SESS 24 S)) in
     ebind (event_register_handler EV_SESS_DESTROYED Wsess_sess_destroyed (Lng 0) S)
       (event_register_handler EV_CALL_DESTROYED Wsess_call_destroyed (Lng 0)))"

definition wsess_start :: "tick_semantics \<Rightarrow> prog \<Rightarrow> prog result" where
  "wsess_start run_tick S = rate_generator_start run_tick rg_wsess EV_SESS_DESTROYED S"

section \<open>Sessions from a file\<close>

abbreviation wl_of :: "nat \<Rightarrow> prog \<Rightarrow> wl_sess" where
  "wl_of x S \<equiv> wl_sess (sess_priv S x)"

definition upd_wl :: "nat \<Rightarrow> (wl_sess \<Rightarrow> wl_sess) \<Rightarrow> prog \<Rightarrow> prog" where
  "upd_wl x f = upd_sess_priv x (\<lambda>p. p\<lparr>wl_sess := f (wl_sess p)\<rparr>)"

definition call_method_name :: "string list" where
  "call_method_name = [''DELETE'', ''GET'', ''HEAD'', ''OPTIONS'', ''POST'', ''PUT'', ''PROPFIND'', ''REPORT'', ''TRACE'']"

abbreviation (input) hm_get :: nat where "hm_get \<equiv> 1"

text \<open>Filling in a new call from a request descriptor.\<close>

definition fill_request :: "req \<Rightarrow> nat \<Rightarrow> prog \<Rightarrow> prog result" where
  "fill_request r c S =
     ebind (nth_c call_method_name (rq_method r)) (\<lambda>m.
     let S = upd_call c (call_set_uri (rq_uri r) (length (rq_uri r)) \<circ> call_set_method m (length m)) S in
     Inr (if 0 < length (rq_contents r) then
            upd_call c (call_set_contents (rq_contents r) (length (rq_contents r)))
              (snd (call_append_request_header c (rq_extra_hdrs r) (length (rq_extra_hdrs r)) S))
          else S))"

fun wsesslog_issue :: "nat \<Rightarrow> nat \<Rightarrow> psignal \<Rightarrow> nat \<Rightarrow> prog \<Rightarrow> prog result" where
  "wsesslog_issue 0 n sig x S = Inr S"
| "wsesslog_issue (Suc k) n sig x S =
     ebind (object_new sig OBJ_CALL S) (\<lambda>(c, S).
     case c of
       None \<Rightarrow> sess_failure sig x S
     | Some c \<Rightarrow>
         (case wl_current_req (wl_of x S) of
            [] \<Rightarrow> Inl (Exit 1)
          | r # rs \<Rightarrow>
              ebind (fill_request r c S) (\<lambda>S.
              ebind (session_issue_call n sig x c (upd_wl x (\<lambda>p. p\<lparr>wl_current_req := rs\<rparr>) S)) (\<lambda>S.
              ebind (object_dec_ref sig c S) (wsesslog_issue k n sig x)))))"

definition num_reqs :: "burst \<Rightarrow> nat" where
  "num_reqs b = length (req_list b)"

definition wsesslog_to_create :: "nat \<Rightarrow> prog \<Rightarrow> int result" where
  "wsesslog_to_create x S =
     (let k = wl_calls_in_this_burst (wl_of x S); n = to_int (session_max_qlen S - session_current_qlen x S) in
      ebind (if 0 < k then
               (case wl_current_burst (wl_of x S) of
                  [] \<Rightarrow> Inl Undefined
                | b # _ \<Rightarrow> Inr (sint (of_nat (num_reqs b) - k)))
             else Inr 1) (\<lambda>to_create. Inr (min n to_create)))"

definition wsesslog_issue_calls :: "nat \<Rightarrow> psignal \<Rightarrow> nat \<Rightarrow> prog \<Rightarrow> prog result" where
  "wsesslog_issue_calls n sig x S =
     ebind (wsesslog_to_create x S) (\<lambda>to_create.
       wsesslog_issue (nat to_create) n sig x
         (upd_wl x (\<lambda>p. p\<lparr>wl_calls_in_this_burst := wl_calls_in_this_burst p + as_uint to_create\<rparr>) S))"

definition wsesslog_think_time_expired :: "nat \<Rightarrow> psignal \<Rightarrow> nat \<Rightarrow> prog \<Rightarrow> prog result" where
  "wsesslog_think_time_expired n sig x S =
     wsesslog_issue_calls n sig x (upd_wl x (\<lambda>p. p\<lparr>wl_timer := None\<rparr>) S)"

text \<open>
  \<open>sess_create\<close> uses the session without testing that there is memory for it; without a
  template in the file the first burst is NULL.
\<close>

definition wsesslog_sess_create :: "nat \<Rightarrow> psignal \<Rightarrow> prog \<Rightarrow> (int \<times> prog) result" where
  "wsesslog_sess_create n sig S =
     (let k = wsesslog_generated S; S = S\<lparr>wsesslog_generated := k + 1\<rparr> in
      if wsesslog_num_sessions (param S) \<le> as_uint k then Inr (- 1, S)
      else
        ebind (object_new sig OBJ_SESS S) (\<lambda>(x, S).
        ebind (deref x) (\<lambda>x.
        let t = (if next_session_template S < length (templates S) then templates S ! next_session_template S
                 else \<lparr>tp_bursts = [], tp_total_num_reqs = 0\<rparr>);
            k = next_session_template S + 1;
            S = S\<lparr>next_session_template := (if length (templates S) \<le> k then 0 else k)\<rparr>
        in case tp_bursts t of
             [] \<Rightarrow> Inl Undefined
           | b # bs \<Rightarrow>
               ebind (wsesslog_issue_calls n sig x (upd_wl x (\<lambda>p. p\<lparr>wl_current_burst := b # bs,
                   wl_current_req := req_list b, wl_total_num_reqs := tp_total_num_reqs t,
                   wl_calls_target := of_nat (num_reqs b)\<rparr>) S)) (\<lambda>S. Inr (0, S)))))"

definition prepare_for_next_burst :: "nat \<Rightarrow> prog \<Rightarrow> prog result" where
  "prepare_for_next_burst x S =
     (case wl_current_burst (wl_of x S) of
        [] \<Rightarrow> Inr S
      | b # bs \<Rightarrow>
          let S = upd_wl x (\<lambda>p. p\<lparr>wl_current_burst := bs\<rparr>) S in
          (case bs of
             [] \<Rightarrow> Inr S
           | b' # _ \<Rightarrow>
               let S = upd_wl x (\<lambda>p. p\<lparr>wl_current_req := req_list b', wl_calls_in_this_burst := 0,
                         wl_calls_target := wl_calls_target p + of_nat (num_reqs b')\<rparr>) S in
               ebind (c_assert (wl_timer (wl_of x S) = None) S) (\<lambda>S.
                 let (w, S) = timer_schedule Wsesslog_think_time_expired x (user_think_time b) S
                 in Inr (upd_wl x (\<lambda>p. p\<lparr>wl_timer := w\<rparr>) S))))"

definition wsesslog_call_destroyed :: "nat \<Rightarrow> psignal \<Rightarrow> nat \<Rightarrow> prog \<Rightarrow> prog result" where
  "wsesslog_call_destroyed n sig c S =
     ebind (deref (session_get_sess_from_call c S)) (\<lambda>x.
     if failed (sesss S x) then Inr S
     else
       let S = upd_wl x (\<lambda>p. p\<lparr>wl_calls_destroyed := wl_calls_destroyed p + 1\<rparr>) S; p = wl_of x S in
       if as_uint (wl_total_num_reqs p) \<le> wl_calls_destroyed p then object_dec_ref sig x S
       else
         (case wl_current_burst p of
            [] \<Rightarrow> Inl Undefined
          | b # _ \<Rightarrow>
              if wl_calls_in_this_burst p < of_nat (num_reqs b) then wsesslog_issue_calls n sig x S
              else if wl_calls_target p \<le> wl_calls_destroyed p then prepare_for_next_burst x S
              else Inr S))"

definition wsesslog_sess_destroyed :: "nat \<Rightarrow> prog \<Rightarrow> prog result" where
  "wsesslog_sess_destroyed x S =
     ebind (case wl_timer (wl_of x S) of
              None \<Rightarrow> Inr S
            | Some w \<Rightarrow> ebind (timer_cancel w S) (\<lambda>S. Inr (upd_wl x (\<lambda>p. p\<lparr>wl_timer := None\<rparr>) S))) (\<lambda>S.
     let k = wsesslog_destroyed S + 1; S = S\<lparr>wsesslog_destroyed := k\<rparr> in
     Inr (if wsesslog_num_sessions (param S) \<le> as_uint k then core_exit S else S))"

definition wsesslog_start :: "tick_semantics \<Rightarrow> prog \<Rightarrow> prog result" where
  "wsesslog_start run_tick S = rate_generator_start run_tick rg_wsesslog EV_SESS_DESTROYED S"

end
