(* ===== verification/Wsesslog_Config.thy ===== *)
theory Wsesslog_Config
  imports Gen_Wsess C_String
begin

text \<open>
  \<open>parse_config\<close> of \<^verbatim>\<open>src/src/gen/wsesslog.c\<close>: the session templates that a file describes.
  A line names a URI; a line that does not begin with white space begins a new burst, an
  empty line ends the session, and a line that begins with \<open>#\<close> is a comment.  Behind the URI
  follow \<open>method=\<close>, \<open>think=\<close> and \<open>contents=\<close>; the contents may be quoted and may go on in
  the next line.  The memory for the descriptors is taken to suffice, and the debug output
  is left out.  The theorem is the round trip: parsing the text of session templates
  gives the templates back.
\<close>

section \<open>Reading words and numbers\<close>

definition line_size :: nat where
  "line_size = 500000"

text \<open>\<open>fgets\<close>: the characters up to and including the next newline, at most \<open>sizeof (line) - 1\<close>.\<close>

definition fgets :: "string \<Rightarrow> (string \<times> string) option" where
  "fgets f =
     (if f = [] then None
      else
        let n = length (takeWhile (\<lambda>c. c \<noteq> LF) f);
            k = min (line_size - 1) (if n < length f then n + 1 else n)
        in Some (take k f, drop k f))"

text \<open>\<open>%s%n\<close> of \<open>sscanf\<close>: a word and the rest of the string behind it.\<close>

definition scan_word :: "string \<Rightarrow> (string \<times> string) option" where
  "scan_word s =
     (let t = dropWhile isspace_c (cstr s); w = takeWhile (\<lambda>c. \<not> isspace_c c) t in
      if w = [] then None else Some (w, drop (length w) t))"

definition scan_prefix :: "string \<Rightarrow> string \<Rightarrow> string option" where
  "scan_prefix p w =
     (case scan_lit p w of
        None \<Rightarrow> None
      | Some r \<Rightarrow> (case scan_word r of None \<Rightarrow> None | Some (v, _) \<Rightarrow> Some v))"

text \<open>
  \<open>%lf\<close>, for decimal numbers: an optional sign, digits with an optional point, and an
  optional exponent.  Hexadecimal numbers, infinity and NaN are not considered.
\<close>

definition scan_exponent :: "string \<Rightarrow> int" where
  "scan_exponent s =
     (case s of
        [] \<Rightarrow> 0
      | e # t \<Rightarrow>
          if tolower_c e \<noteq> CHR ''e'' then 0
          else
            let neg = (t \<noteq> [] \<and> hd t = CHR ''-'');
                t = (if t \<noteq> [] \<and> (hd t = CHR ''-'' \<or> hd t = CHR ''+'') then tl t else t);
                n = int (number 10 (takeWhile (is_digit_c 10) t))
            in if neg then - n else n)"

definition scan_double :: "string \<Rightarrow> real option" where
  "scan_double str =
     (let s = dropWhile isspace_c (cstr str);
          neg = (s \<noteq> [] \<and> hd s = CHR ''-'');
          s = (if s \<noteq> [] \<and> (hd s = CHR ''-'' \<or> hd s = CHR ''+'') then tl s else s);
          ip = takeWhile (is_digit_c 10) s;
          s = drop (length ip) s;
          fp = (if s \<noteq> [] \<and> hd s = CHR ''.'' then takeWhile (is_digit_c 10) (tl s) else []);
          s = (if s \<noteq> [] \<and> hd s = CHR ''.'' then drop (length fp) (tl s) else s);
          x = (real (number 10 ip) + real (number 10 fp) / 10 ^ length fp) * 10 powr real_of_int (scan_exponent s)
      in if ip = [] \<and> fp = [] then None else Some (if neg then - x else x))"

section \<open>The contents of a request\<close>

text \<open>
  The loop over the characters of a \<open>contents=\<close> argument, with the flags \<open>single_quoted\<close>,
  \<open>double_quoted\<close> and \<open>escaped\<close>: the contents, the text behind them in the current line, and
  the rest of the file.  An escaped newline goes on in the next line.  The result is
  longer than the buffer only if it does not fit it.
\<close>

lemma fgets_shorter: "fgets f = Some (l, r) \<Longrightarrow> length l + length r = length f \<and> l \<noteq> []"
  using length_takeWhile_le [of "\<lambda>c. c \<noteq> LF" f]
  by (cases f) (auto simp: fgets_def line_size_def Let_def split: if_splits)

datatype char_action = Finish | Next_line | Step bool bool bool string

definition contents_step :: "bool \<Rightarrow> bool \<Rightarrow> bool \<Rightarrow> char \<Rightarrow> char_action" where
  "contents_step sq dq esc c =
     (if esc then
        if c = LF then Next_line
        else Step sq dq False
               [if c = CHR ''n'' then LF else if c = CHR ''r'' then CR else if c = CHR ''t'' then TAB else c]
      else if c = CHR 0x22 \<and> dq then Step sq False False []
      else if c = CHR 0x27 \<and> sq then Step False dq False []
      else if c = TAB \<or> c = LF \<or> c = CHR '' '' then
        if \<not> sq \<and> \<not> dq then Finish else Step sq dq False [c]
      else if c = CHR 0x5C then Step sq dq True []
      else if c = CHR 0x22 then
        if sq then Step sq dq False [c] else Step sq True False []
      else if c = CHR 0x27 then
        if dq then Step sq dq False [c] else Step True dq False []
      else Step sq dq False [c])"

function scan_contents :: "bool \<Rightarrow> bool \<Rightarrow> bool \<Rightarrow> string \<Rightarrow> string \<Rightarrow> string \<Rightarrow> (string \<times> string \<times> string) result" where
  "scan_contents sq dq esc acc [] f = Inr (acc, [], f)"
| "scan_contents sq dq esc acc (c # t) f =
     (if c = NUL then Inr (acc, c # t, f)
      else
        case contents_step sq dq esc c of
          Finish \<Rightarrow> Inr (acc, t, f)
        | Next_line \<Rightarrow>
            (case fgets f of
               None \<Rightarrow> Inl (Exit 1)
             | Some (l, f') \<Rightarrow> scan_contents sq dq False (acc @ [LF]) l f')
        | Step sq' dq' esc' out \<Rightarrow> scan_contents sq' dq' esc' (acc @ out) t f)"
  by pat_completeness auto
termination
  by (relation "measure (\<lambda>(sq, dq, esc, acc, t, f). length t + length f)") (auto dest: fgets_shorter)

declare scan_contents.simps [simp del]

lemma scan_contents_length:
  "scan_contents sq dq esc acc t f = Inr (s, t', f') \<Longrightarrow> length t' + length f' \<le> length t + length f"
proof (induction sq dq esc acc t f rule: scan_contents.induct)
  case (1 sq dq esc acc f)
  then show ?case by (simp add: scan_contents.simps)
next
  case (2 sq dq esc acc c t f)
  show ?case
  proof (cases "c = NUL")
    case True
    then show ?thesis using "2.prems" by (simp add: scan_contents.simps)
  next
    case False
    show ?thesis
    proof (cases "contents_step sq dq esc c")
      case Finish
      then show ?thesis using "2.prems" False by (simp add: scan_contents.simps)
    next
      case Next_line
      then obtain l g where g: "fgets f = Some (l, g)" "scan_contents sq dq False (acc @ [LF]) l g = Inr (s, t', f')"
        using "2.prems" False by (subst (asm) scan_contents.simps) (auto split: option.splits prod.splits)
      then show ?thesis using "2.IH"(1) [OF False Next_line g(1) refl g(2)] fgets_shorter [OF g(1)] by simp
    next
      case (Step sq' dq' esc' out)
      then have "scan_contents sq' dq' esc' (acc @ out) t f = Inr (s, t', f')"
        using "2.prems" False by (subst (asm) scan_contents.simps) simp
      then show ?thesis using "2.IH"(2) [OF False Step] by simp
    qed
  qed
qed

section \<open>The arguments of a request\<close>

definition new_request :: "string \<Rightarrow> req" where
  "new_request u = \<lparr>rq_method = hm_get, rq_uri = u, rq_contents = [], rq_extra_hdrs = []\<rparr>"

definition set_contents :: "string \<Rightarrow> req \<Rightarrow> req" where
  "set_contents s r =
     (if s = [] then r
      else r\<lparr>rq_contents := s, rq_extra_hdrs := ''Content-length: '' @ digits 10 (length s) @ [CR, LF]\<rparr>)"

text \<open>The first method whose name is a prefix of the argument.\<close>

definition find_method :: "string \<Rightarrow> nat option" where
  "find_method s =
     (case filter (\<lambda>i. take (length (call_method_name ! i)) s = call_method_name ! i) [0..<length call_method_name] of
        [] \<Rightarrow> None | i # _ \<Rightarrow> Some i)"

text \<open>\<open>method_str\<close> has room for 999 characters.\<close>

datatype arg = Method nat | Think real | Contents | Bad failure

definition classify :: "string \<Rightarrow> arg" where
  "classify w =
     (case scan_prefix ''method='' w of
        Some m \<Rightarrow>
          if 1000 \<le> length m then Bad Undefined
          else (case find_method m of None \<Rightarrow> Bad (Exit 1) | Some i \<Rightarrow> Method i)
      | None \<Rightarrow>
          (case Option.bind (scan_lit ''think='' w) scan_double of
             Some x \<Rightarrow> Think x
           | None \<Rightarrow> if scan_prefix ''contents='' w = None then Bad (Exit 1) else Contents))"

definition text_after_eq :: "string \<Rightarrow> string" where
  "text_after_eq s = drop 1 (dropWhile (\<lambda>c. c \<noteq> CHR ''='') s)"

lemma scan_word_length: "scan_word s = Some (w, r) \<Longrightarrow> length r < length s"
proof -
  assume a: "scan_word s = Some (w, r)"
  let ?t = "dropWhile isspace_c (cstr s)"
  have "w = takeWhile (\<lambda>c. \<not> isspace_c c) ?t" "r = drop (length w) ?t" "w \<noteq> []"
    using a by (auto simp: scan_word_def Let_def split: if_splits)
  then have "length r < length ?t" by (cases ?t) (auto split: if_splits)
  also have "\<dots> \<le> length s" using length_dropWhile_le [of isspace_c "cstr s"] cstr_length [of s] by linarith
  finally show ?thesis .
qed

lemma text_after_eq_length: "text_after_eq s = [] \<or> length (text_after_eq s) < length s"
proof -
  have "length d \<le> length s \<Longrightarrow> drop 1 d = [] \<or> length (drop 1 d) < length s" for d :: string
    by (cases d) auto
  from this [OF length_dropWhile_le] show ?thesis unfolding text_after_eq_def .
qed

lemma parse_args_progress:
  assumes "scan_word t = Some (w, rest)" "scan_contents False False False [] (text_after_eq t) f = Inr (s, t', f')"
  shows "length t' + length f' < length t + length f"
proof -
  have "0 < length t" using scan_word_length [OF assms(1)] by linarith
  then have "length (text_after_eq t) < length t" using text_after_eq_length [of t] by fastforce
  then show ?thesis using scan_contents_length [OF assms(2)] by linarith
qed

text \<open>
  The loop over the arguments: \<open>t\<close> is \<open>parsed_so_far\<close>; the request and the think time of
  the current burst change.
\<close>

function parse_args :: "string \<Rightarrow> string \<Rightarrow> req \<Rightarrow> real \<Rightarrow> (req \<times> real \<times> string) result" where
  "parse_args t f r think =
     (case scan_word t of
        None \<Rightarrow> Inr (r, think, f)
      | Some (w, rest) \<Rightarrow>
          (case classify w of
             Bad e \<Rightarrow> Inl e
           | Method i \<Rightarrow> parse_args rest f (r\<lparr>rq_method := i\<rparr>) think
           | Think x \<Rightarrow> parse_args rest f r x
           | Contents \<Rightarrow>
               (case scan_contents False False False [] (text_after_eq t) f of
                  Inl e \<Rightarrow> Inl e
                | Inr (s, t', f') \<Rightarrow>
                    if line_size \<le> length s then Inl Undefined
                    else parse_args t' f' (set_contents s r) think)))"
  by pat_completeness auto

termination
proof (relation "measure (\<lambda>(t, f, r, think). length t + length f)", goal_cases)
  case 1
  then show ?case by simp
next
  case (2 t f r think p w rest i)
  then show ?case using scan_word_length [of t w rest] by simp
next
  case (3 t f r think p w rest x)
  then show ?case using scan_word_length [of t w rest] by simp
next
  case (4 t f r think p w rest q s v t' f')
  then show ?case using parse_args_progress [of t w rest f s t' f'] by simp
qed

declare parse_args.simps [simp del]

lemma parse_args_length: "parse_args t f r think = Inr (r', think', f') \<Longrightarrow> length f' \<le> length t + length f"
proof (induction t f r think rule: parse_args.induct)
  case (1 t f r think)
  show ?case
  proof (cases "scan_word t")
    case None
    then show ?thesis using "1.prems" by (subst (asm) parse_args.simps) simp
  next
    case (Some p)
    then obtain w rest where w: "scan_word t = Some (w, rest)" by (cases p) auto
    note lt = scan_word_length [OF w]
    show ?thesis
    proof (cases "classify w")
      case (Method i)
      then show ?thesis using "1.prems" w lt "1.IH"(1) [OF w refl Method]
        by (subst (asm) parse_args.simps) simp
    next
      case (Think x)
      then show ?thesis using "1.prems" w lt "1.IH"(2) [OF w refl Think]
        by (subst (asm) parse_args.simps) simp
    next
      case Contents
      then obtain s t' g where c: "scan_contents False False False [] (text_after_eq t) f = Inr (s, t', g)"
          "\<not> line_size \<le> length s" "parse_args t' g (set_contents s r) think = Inr (r', think', f')"
        using "1.prems" w by (subst (asm) parse_args.simps) (auto split: sum.splits if_splits)
      then show ?thesis
        using "1.IH"(3) [OF w refl Contents c(1) refl refl c(2,3)] parse_args_progress [OF w c(1)] by simp
    next
      case (Bad e)
      then show ?thesis using "1.prems" w by (subst (asm) parse_args.simps) simp
    qed
  qed
qed

section \<open>The file\<close>

definition max_session_templates :: nat where
  "max_session_templates = 1000"

text \<open>\<open>sptr\<close>: the bursts of the current session; with none \<open>sptr->current_req\<close> is NULL.\<close>

definition add_request :: "real \<Rightarrow> bool \<Rightarrow> req \<Rightarrow> burst list \<Rightarrow> burst list" where
  "add_request think indented r bs =
     (if bs = [] \<or> \<not> indented then bs @ [\<lparr>user_think_time = think, req_list = [r]\<rparr>]
      else butlast bs @ [last bs\<lparr>req_list := req_list (last bs) @ [r]\<rparr>])"

definition set_last :: "req \<Rightarrow> real \<Rightarrow> burst list \<Rightarrow> burst list" where
  "set_last r think bs =
     butlast bs @ [\<lparr>user_think_time = think, req_list = butlast (req_list (last bs)) @ [r]\<rparr>]"

definition close_session :: "burst list \<Rightarrow> template list \<Rightarrow> template list" where
  "close_session bs ts =
     (if bs = [] then ts
      else ts @ [\<lparr>tp_bursts = bs, tp_total_num_reqs = int (length (concat (map req_list bs)))\<rparr>])"

function parse_lines :: "real \<Rightarrow> string \<Rightarrow> template list \<Rightarrow> burst list \<Rightarrow> template list result" where
  "parse_lines think f ts bs =
     (case fgets f of
        None \<Rightarrow> Inr (close_session bs ts)
      | Some (l, f') \<Rightarrow>
          if hd l = CHR ''#'' then parse_lines think f' ts bs
          else
            (case scan_word l of
               None \<Rightarrow> parse_lines think f' (close_session bs ts) []
             | Some (u, rest) \<Rightarrow>
                 if bs = [] \<and> max_session_templates \<le> length ts then Inl (Exit 1)
                 else
                   let bs1 = add_request think (isspace_c (hd l)) (new_request u) bs in
                   (case parse_args rest f' (new_request u) (user_think_time (last bs1)) of
                      Inl e \<Rightarrow> Inl e
                    | Inr (r, th, f2) \<Rightarrow> parse_lines think f2 ts (set_last r th bs1))))"
  by pat_completeness auto
termination
proof (relation "measure (\<lambda>(think, f, ts, bs). length f)", goal_cases)
  case 1
  then show ?case by simp
next
  case (2 think f ts bs p l f')
  then show ?case using fgets_shorter [of f l f'] by (cases l) auto
next
  case (3 think f ts bs p l f')
  then show ?case using fgets_shorter [of f l f'] by (cases l) auto
next
  case (4 think f ts bs p l f' q u rest bs1 w r v th f2)
  then have "length f2 \<le> length rest + length f'" "length rest < length l" "length l + length f' = length f"
    using parse_args_length [of rest f' "new_request u" "user_think_time (last bs1)" r th f2]
      scan_word_length [of l u rest] fgets_shorter [of f l f'] by auto
  then show ?case by simp
qed

declare parse_lines.simps [simp del]

definition parse_config :: "prog \<Rightarrow> prog result" where
  "parse_config S =
     (case Option.bind (wsesslog_file (param S)) (files S) of
        None \<Rightarrow> Inl (Exit 1)
      | Some f \<Rightarrow> ebind (parse_lines (wsesslog_think_time (param S)) f [] []) (\<lambda>ts. Inr (S\<lparr>templates := ts\<rparr>)))"

definition wsesslog_init :: "prog \<Rightarrow> prog result" where
  "wsesslog_init S =
     ebind (parse_config S) (\<lambda>S.
     let S = upd_rg rg_wsesslog (\<lambda>r. r\<lparr>rg_tick := Wsesslog_sess_create\<rparr>) (snd (object_expand OBJ_SESS 48 S)) in
     ebind (event_register_handler EV_SESS_DESTROYED Wsesslog_sess_destroyed (Lng 0) S) (\<lambda>S.
     ebind (event_register_handler EV_CALL_DESTROYED Wsesslog_call_destroyed (Lng 0) S) session_init))"

section \<open>The text of session templates\<close>

text \<open>
  A session as it is written: bursts with a think time in whole seconds and their
  requests, each with its method, URI and contents.  The first request of a burst carries
  the think time; the others are indented.
\<close>

type_synonym request_text = "nat \<times> string \<times> string"

type_synonym session_text = "(nat \<times> request_text list) list"

definition quote_char :: "char \<Rightarrow> string" where
  "quote_char c = (if c = LF then [CHR 0x5C, CHR ''n''] else if c = CHR 0x22 \<or> c = CHR 0x5C then [CHR 0x5C, c] else [c])"

definition contents_text :: "string \<Rightarrow> string" where
  "contents_text s =
     (if s = [] then []
      else '' contents='' @ CHR 0x22 # concat (map quote_char s) @ [CHR 0x22])"

definition request_line :: "string \<Rightarrow> string \<Rightarrow> request_text \<Rightarrow> string" where
  "request_line start think = (\<lambda>(m, u, s).
     start @ u @ '' method='' @ call_method_name ! m @ think @ contents_text s @ [LF])"

definition burst_text :: "nat \<times> request_text list \<Rightarrow> string" where
  "burst_text = (\<lambda>(th, rs).
     request_line [] ('' think='' @ digits 10 th) (hd rs) @ concat (map (request_line [TAB] []) (tl rs)))"

definition config_text :: "session_text list \<Rightarrow> string" where
  "config_text ss = concat (map (\<lambda>s. concat (map burst_text s) @ [LF]) ss)"

text \<open>What the text stands for.\<close>

definition the_request :: "request_text \<Rightarrow> req" where
  "the_request = (\<lambda>(m, u, s). set_contents s (new_request u\<lparr>rq_method := m\<rparr>))"

definition the_burst :: "nat \<times> request_text list \<Rightarrow> burst" where
  "the_burst = (\<lambda>(th, rs). \<lparr>user_think_time = real th, req_list = map the_request rs\<rparr>)"

definition the_template :: "session_text \<Rightarrow> template" where
  "the_template s = \<lparr>tp_bursts = map the_burst s, tp_total_num_reqs = int (length (concat (map snd s)))\<rparr>"

definition wf_request :: "request_text \<Rightarrow> bool" where
  "wf_request = (\<lambda>(m, u, s). m < length call_method_name \<and> u \<noteq> [] \<and> hd u \<noteq> CHR ''#''
     \<and> (\<forall>c \<in> set u. c \<noteq> NUL \<and> \<not> isspace_c c) \<and> NUL \<notin> set s)"

definition wf_session :: "session_text \<Rightarrow> bool" where
  "wf_session s \<longleftrightarrow> s \<noteq> [] \<and>
     (\<forall>b \<in> set s. snd b \<noteq> [] \<and> length (burst_text b) < line_size \<and> (\<forall>r \<in> set (snd b). wf_request r))"

section \<open>Reading it back\<close>

lemma fgets_line:
  assumes "LF \<notin> set l" "length l < line_size - 1"
  shows "fgets (l @ LF # rest) = Some (l @ [LF], rest)"
proof -
  have "takeWhile (\<lambda>c. c \<noteq> LF) (l @ LF # rest) = l"
    using assms(1) by (intro takeWhile_append_stop) auto
  then show ?thesis using assms(2) by (simp add: fgets_def)
qed

lemma isspace_simps [simp]:
  "isspace_c LF" "isspace_c TAB" "isspace_c (CHR '' '')" "\<not> isspace_c NUL" "\<not> isspace_c (CHR 0x22)"
  "\<not> isspace_c (CHR ''='')" "\<not> isspace_c (CHR ''c'')" "\<not> isspace_c (CHR ''m'')" "\<not> isspace_c (CHR ''t'')"
  by code_simp+

lemma scan_word_word:
  assumes "\<forall>c \<in> set ws. isspace_c c" "w \<noteq> []" "\<forall>c \<in> set w. c \<noteq> NUL \<and> \<not> isspace_c c"
    and "rest = [] \<or> isspace_c (hd rest)"
  shows "scan_word (ws @ w @ rest) = Some (w, cstr rest)"
proof -
  have n1: "NUL \<notin> set ws" using assms(1) isspace_simps(4) by blast
  have n2: "NUL \<notin> set w" using assms(3) by blast
  have c: "cstr (ws @ w @ rest) = ws @ w @ cstr rest"
    by (simp only: cstr_append [OF n1] cstr_append [OF n2])
  obtain x xs where w: "w = x # xs" using assms(2) by (cases w) simp_all
  then have x: "\<not> isspace_c x" using assms(3) by simp
  have "dropWhile isspace_c (ws @ w @ cstr rest) = dropWhile isspace_c (w @ cstr rest)"
    by (rule dropWhile_append2) (use assms(1) in blast)
  then have d: "dropWhile isspace_c (ws @ w @ cstr rest) = w @ cstr rest"
    using x by (simp add: w)
  have "cstr rest = [] \<or> isspace_c (hd (cstr rest))"
  proof (cases rest)
    case (Cons y ys)
    then show ?thesis using assms(4) by (cases "y = NUL") (simp_all add: cstr_def)
  qed (simp add: cstr_def)
  then have "cstr rest = [] \<or> \<not> \<not> isspace_c (hd (cstr rest))" by simp
  then have t: "takeWhile (\<lambda>c. \<not> isspace_c c) (w @ cstr rest) = w"
    by (rule takeWhile_append_stop [rotated]) (use assms(3) in blast)
  show ?thesis using assms(2) by (simp only: scan_word_def c d t Let_def if_False append_eq_conv_conj) simp
qed

lemma scan_word_space: "scan_word (CHR '' '' # s) = scan_word s"
  by (simp add: scan_word_def cstr_def Let_def)

lemma quote_char_simps:
  "quote_char LF = [CHR 0x5C, CHR ''n'']" "quote_char (CHR 0x22) = [CHR 0x5C, CHR 0x22]"
  "quote_char (CHR 0x5C) = [CHR 0x5C, CHR 0x5C]"
  "c \<noteq> LF \<Longrightarrow> c \<noteq> CHR 0x22 \<Longrightarrow> c \<noteq> CHR 0x5C \<Longrightarrow> quote_char c = [c]"
  by (simp_all add: quote_char_def)

lemma scan_quoted:
  assumes "NUL \<notin> set s"
  shows "scan_contents False True False acc (concat (map quote_char s) @ CHR 0x22 # t) f
       = scan_contents False False False (acc @ s) t f"
  using assms
proof (induction s arbitrary: acc)
  case Nil
  then show ?case by (simp add: scan_contents.simps(2) contents_step_def)
next
  case (Cons c s)
  have IH: "scan_contents False True False acc (concat (map quote_char s) @ CHR 0x22 # t) f
       = scan_contents False False False (acc @ s) t f" for acc
    using Cons by simp
  consider (lf) "c = LF" | (quote) "c = CHR 0x22" | (backslash) "c = CHR 0x5C"
    | (plain) "c \<noteq> LF" "c \<noteq> CHR 0x22" "c \<noteq> CHR 0x5C" "c \<noteq> NUL"
    using Cons.prems by auto
  then show ?case
  proof cases
    case plain
    then have "contents_step False True False c = Step False True False [c]" by (simp add: contents_step_def)
    then show ?thesis using plain by (simp add: quote_char_simps scan_contents.simps(2) IH)
  qed (simp_all add: quote_char_simps scan_contents.simps(2) contents_step_def IH)
qed

lemma quoted_no_NUL: "NUL \<notin> set s \<Longrightarrow> NUL \<notin> set (contents_text s) \<and> LF \<notin> set (contents_text s)"
  by (auto simp: contents_text_def quote_char_def split: if_splits)

text \<open>The three kinds of arguments.\<close>

lemma method_names:
  "list_all (\<lambda>i. find_method (call_method_name ! i) = Some i \<and> call_method_name ! i \<noteq> []
     \<and> length (call_method_name ! i) < 1000
     \<and> list_all (\<lambda>c. c \<noteq> NUL \<and> \<not> isspace_c c \<and> c \<noteq> LF) (call_method_name ! i)) [0..<length call_method_name]"
  by code_simp

lemma method_name:
  assumes "m < length call_method_name"
  shows "find_method (call_method_name ! m) = Some m" "call_method_name ! m \<noteq> []"
    "length (call_method_name ! m) < 1000"
    "\<forall>c \<in> set (call_method_name ! m). c \<noteq> NUL \<and> \<not> isspace_c c \<and> c \<noteq> LF"
  using method_names assms by (simp_all add: list_all_iff)

lemma scan_word_all:
  assumes "w \<noteq> []" "\<forall>c \<in> set w. c \<noteq> NUL \<and> \<not> isspace_c c"
  shows "scan_word w = Some (w, [])"
  using scan_word_word [of "[]" w "[]"] assms by (simp add: cstr_def)

lemma classify_method:
  assumes "m < length call_method_name"
  shows "classify (''method='' @ call_method_name ! m) = Method m"
  using method_name [OF assms] scan_word_all [of "call_method_name ! m"]
  by (simp add: classify_def scan_prefix_def)

lemma scan_double_digits: "scan_double (digits 10 n) = Some (real n)"
proof -
  have cls: "plain_char c" "is_digit_c 10 c" if "c \<in> set (digits 10 n)" for c
    using digits_plain [of 10 c n] that by auto
  obtain d ds where d: "digits 10 n = d # ds" by (cases "digits 10 n") auto
  have "NUL \<notin> set (digits 10 n)" using cls(1) by (auto simp: plain_char_def)
  then have c: "cstr (digits 10 n) = digits 10 n" by (rule cstr_no_NUL)
  have dc: "\<not> isspace_c d" "d \<noteq> CHR ''-''" "d \<noteq> CHR ''+''" using cls(1) [of d] d by (auto simp: plain_char_def)
  have t: "takeWhile (is_digit_c 10) (digits 10 n) = digits 10 n"
    using cls(2) by (simp add: takeWhile_eq_all_conv)
  have n: "number 10 (digits 10 n) = n" by (rule number_digits) simp_all
  have "dropWhile isspace_c (digits 10 n) = digits 10 n" "hd (digits 10 n) = d" using dc(1) d by simp_all
  then show ?thesis using dc n
    unfolding scan_double_def c Let_def by (simp add: t scan_exponent_def) (simp add: number_def)
qed

lemma classify_think: "classify (''think='' @ digits 10 n) = Think (real n)"
  by (simp add: classify_def scan_prefix_def scan_double_digits)

lemma classify_contents:
  assumes "\<forall>c \<in> set w. c \<noteq> NUL \<and> \<not> isspace_c c" "w \<noteq> []"
  shows "classify (''contents='' @ w) = Contents"
  using scan_word_all [OF assms(2,1)] by (simp add: classify_def scan_prefix_def)

lemma quoted_text:
  assumes "NUL \<notin> set s"
  shows "NUL \<notin> set (concat (map quote_char s))"
  using assms by (induction s) (auto simp: quote_char_def)

lemma contents_word:
  assumes "NUL \<notin> set u"
  shows "\<exists>rest. scan_word ('' contents='' @ CHR 0x22 # u)
     = Some (''contents='' @ CHR 0x22 # takeWhile (\<lambda>c. \<not> isspace_c c) u, rest)"
proof -
  have i: "\<not> isspace_c (CHR ''o'')" "\<not> isspace_c (CHR ''n'')" "\<not> isspace_c (CHR ''e'')" "\<not> isspace_c (CHR ''s'')"
    by code_simp+
  have "cstr ('' contents='' @ CHR 0x22 # u) = '' contents='' @ CHR 0x22 # u"
    by (rule cstr_no_NUL) (use assms in simp)
  then show ?thesis by (simp add: scan_word_def i)
qed

lemma parse_args_end: "parse_args [] f r th = Inr (r, th, f)" "parse_args [LF] f r th = Inr (r, th, f)"
proof -
  have "scan_word [] = None" "scan_word [LF] = None" by (simp_all add: scan_word_def cstr_def)
  then show "parse_args [] f r th = Inr (r, th, f)" "parse_args [LF] f r th = Inr (r, th, f)"
    by (subst parse_args.simps, simp)+
qed

lemma parse_args_contents:
  assumes "NUL \<notin> set s" "length s < line_size"
  shows "parse_args (contents_text s @ [LF]) f r th = Inr (set_contents s r, th, f)"
proof (cases "s = []")
  case True
  then show ?thesis by (simp add: contents_text_def parse_args_end set_contents_def)
next
  case False
  let ?u = "concat (map quote_char s) @ CHR 0x22 # [LF]"
  have tx: "contents_text s @ [LF] = '' contents='' @ CHR 0x22 # ?u" using False by (simp add: contents_text_def)
  have nul: "NUL \<notin> set ?u" using quoted_text [OF assms(1)] by simp
  obtain rest where w: "scan_word ('' contents='' @ CHR 0x22 # ?u)
      = Some (''contents='' @ CHR 0x22 # takeWhile (\<lambda>c. \<not> isspace_c c) ?u, rest)"
    using contents_word [OF nul] by blast
  have "\<forall>c \<in> set (CHR 0x22 # takeWhile (\<lambda>c. \<not> isspace_c c) ?u). c \<noteq> NUL \<and> \<not> isspace_c c"
    using nul by (auto dest: set_takeWhileD)
  then have cl: "classify (''contents='' @ CHR 0x22 # takeWhile (\<lambda>c. \<not> isspace_c c) ?u) = Contents"
    by (rule classify_contents) simp
  have eq: "text_after_eq ('' contents='' @ CHR 0x22 # ?u) = CHR 0x22 # ?u" by (simp add: text_after_eq_def)
  have "scan_contents False False False [] (CHR 0x22 # ?u) f = scan_contents False True False [] ?u f"
    by (subst scan_contents.simps(2)) (simp add: contents_step_def)
  also have "\<dots> = scan_contents False False False s [LF] f" using scan_quoted [OF assms(1), of "[]" "[LF]" f] by simp
  also have "\<dots> = Inr (s, [], f)" by (simp add: scan_contents.simps(2) contents_step_def)
  finally have sc: "scan_contents False False False [] (CHR 0x22 # ?u) f = Inr (s, [], f)" .
  show ?thesis
    unfolding tx by (subst parse_args.simps)
      (simp only: w cl eq sc option.case prod.case arg.case sum.case parse_args_end, use assms(2) in simp)
qed

lemma parse_args_word:
  assumes "w \<noteq> []" "\<forall>c \<in> set w. c \<noteq> NUL \<and> \<not> isspace_c c" "NUL \<notin> set X" "X = [] \<or> isspace_c (hd X)"
  shows "scan_word (CHR '' '' # w @ X) = Some (w, X)"
  using scan_word_word [of "[CHR '' '']" w X] assms cstr_no_NUL [OF assms(3)] by simp

lemma parse_args_method:
  assumes "m < length call_method_name" "NUL \<notin> set X" "X = [] \<or> isspace_c (hd X)"
  shows "parse_args ('' method='' @ call_method_name ! m @ X) f r th = parse_args X f (r\<lparr>rq_method := m\<rparr>) th"
proof -
  let ?w = "''method='' @ call_method_name ! m"
  have i: "\<not> isspace_c (CHR ''e'')" "\<not> isspace_c (CHR ''h'')" "\<not> isspace_c (CHR ''o'')" "\<not> isspace_c (CHR ''d'')" by code_simp+
  have "\<forall>c \<in> set ?w. c \<noteq> NUL \<and> \<not> isspace_c c" using method_name(4) [OF assms(1)] i by auto
  then have "scan_word (CHR '' '' # ?w @ X) = Some (?w, X)" by (intro parse_args_word) (use assms in simp_all)
  then have w: "scan_word ('' method='' @ call_method_name ! m @ X) = Some (?w, X)" by simp
  show ?thesis
    by (subst parse_args.simps) (simp only: w classify_method [OF assms(1)] option.case prod.case arg.case)
qed

lemma parse_args_think:
  assumes "NUL \<notin> set X" "X = [] \<or> isspace_c (hd X)"
  shows "parse_args ('' think='' @ digits 10 n @ X) f r th = parse_args X f r (real n)"
proof -
  let ?w = "''think='' @ digits 10 n"
  have i: "\<not> isspace_c (CHR ''h'')" "\<not> isspace_c (CHR ''i'')" "\<not> isspace_c (CHR ''n'')" "\<not> isspace_c (CHR ''k'')" by code_simp+
  have "c \<noteq> NUL \<and> \<not> isspace_c c" if "c \<in> set (digits 10 n)" for c
    using digits_plain [of 10 c n] that by (auto simp: plain_char_def)
  then have "\<forall>c \<in> set ?w. c \<noteq> NUL \<and> \<not> isspace_c c" using i by auto
  then have "scan_word (CHR '' '' # ?w @ X) = Some (?w, X)" by (intro parse_args_word) (use assms in simp_all)
  then have w: "scan_word ('' think='' @ digits 10 n @ X) = Some (?w, X)" by simp
  show ?thesis
    by (subst parse_args.simps) (simp only: w classify_think option.case prod.case arg.case)
qed


text \<open>The arguments behind the URI, with and without a think time.\<close>

definition args_text :: "nat \<Rightarrow> string \<Rightarrow> string \<Rightarrow> string" where
  "args_text m think s = '' method='' @ call_method_name ! m @ think @ contents_text s @ [LF]"

lemma contents_text_start: "isspace_c (hd (contents_text s @ [LF]))" "contents_text s @ [LF] \<noteq> []"
  by (simp_all add: contents_text_def)

lemma digits_text: "NUL \<notin> set (digits 10 n)" "LF \<notin> set (digits 10 n)"
  using digits_plain [of 10 _ n] by (auto simp: plain_char_def)

lemma args_text_no_NUL:
  assumes "m < length call_method_name" "NUL \<notin> set s" "NUL \<notin> set think"
  shows "NUL \<notin> set (args_text m think s)"
  using method_name(4) [OF assms(1)] quoted_no_NUL [OF assms(2)] assms(3)
  by (auto simp: args_text_def)

lemma parse_args_plain:
  assumes "m < length call_method_name" "NUL \<notin> set s" "length s < line_size"
  shows "parse_args (args_text m [] s) f r th = Inr (set_contents s (r\<lparr>rq_method := m\<rparr>), th, f)"
  using parse_args_method [OF assms(1), of "contents_text s @ [LF]" f r th]
    parse_args_contents [OF assms(2,3)] quoted_no_NUL [OF assms(2)] contents_text_start [of s]
  by (simp add: args_text_def)

lemma parse_args_full:
  assumes "m < length call_method_name" "NUL \<notin> set s" "length s < line_size"
  shows "parse_args (args_text m ('' think='' @ digits 10 n) s) f r th
     = Inr (set_contents s (r\<lparr>rq_method := m\<rparr>), real n, f)"
proof -
  have c: "NUL \<notin> set (contents_text s @ [LF])" using quoted_no_NUL [OF assms(2)] by simp
  have "parse_args (args_text m ('' think='' @ digits 10 n) s) f r th
      = parse_args ('' think='' @ digits 10 n @ contents_text s @ [LF]) f (r\<lparr>rq_method := m\<rparr>) th"
    using parse_args_method [OF assms(1), of "'' think='' @ digits 10 n @ contents_text s @ [LF]" f r th] c digits_text
    by (simp add: args_text_def)
  also have "\<dots> = parse_args (contents_text s @ [LF]) f (r\<lparr>rq_method := m\<rparr>) (real n)"
    using parse_args_think [OF c] contents_text_start [of s] by blast
  also have "\<dots> = Inr (set_contents s (r\<lparr>rq_method := m\<rparr>), real n, f)"
    using parse_args_contents [OF assms(2,3)] by simp
  finally show ?thesis .
qed

lemma request_line_args: "request_line start think (m, u, s) = start @ u @ args_text m think s"
  by (simp add: request_line_def args_text_def)

text \<open>The length of a line bounds the length of the contents in it.\<close>

lemma contents_length: "length s \<le> length (contents_text s)"
proof -
  have "length s \<le> length (concat (map quote_char s))"
    by (induction s) (auto simp: quote_char_def)
  then show ?thesis by (simp add: contents_text_def)
qed

lemma fgets_request:
  assumes "wf_request (m, u, s)" "LF \<notin> set start" "LF \<notin> set think"
    and "length (request_line start think (m, u, s)) < line_size"
  shows "fgets (request_line start think (m, u, s) @ rest) = Some (request_line start think (m, u, s), rest)"
proof -
  let ?l = "start @ u @ '' method='' @ call_method_name ! m @ think @ contents_text s"
  have wf: "m < length call_method_name" "\<forall>c \<in> set u. c \<noteq> NUL \<and> \<not> isspace_c c" "NUL \<notin> set s"
    using assms(1) by (simp_all add: wf_request_def)
  have u: "LF \<notin> set u" using wf(2) isspace_simps(1) by blast
  have m: "LF \<notin> set (call_method_name ! m)" using method_name(4) [OF wf(1)] by blast
  have "LF \<notin> set (contents_text s)" using quoted_no_NUL [OF wf(3)] by blast
  with u m have "LF \<notin> set ?l" using assms(2,3) by simp
  moreover have "length ?l < line_size - 1" using assms(4) by (simp add: request_line_def)
  ultimately have "fgets (?l @ LF # rest) = Some (?l @ [LF], rest)" by (rule fgets_line)
  then show ?thesis by (simp add: request_line_def)
qed

lemma scan_word_request:
  assumes "wf_request (m, u, s)" "\<forall>c \<in> set start. isspace_c c" "NUL \<notin> set think"
  shows "scan_word (request_line start think (m, u, s)) = Some (u, args_text m think s)"
proof -
  have "NUL \<notin> set (args_text m think s)" using assms by (intro args_text_no_NUL) (auto simp: wf_request_def)
  then show ?thesis
    using scan_word_word [of start u "args_text m think s"] assms(1,2) cstr_no_NUL
    by (simp add: request_line_args wf_request_def) (simp add: args_text_def)
qed

lemma wf_request_contents:
  assumes "wf_request (m, u, s)" "length (request_line start think (m, u, s)) < line_size"
  shows "m < length call_method_name" "NUL \<notin> set s" "length s < line_size"
  using assms contents_length [of s] by (auto simp: wf_request_def request_line_def)


text \<open>The lines of a burst.\<close>

lemma parse_line:
  assumes "fgets f = Some (l, f')" "hd l \<noteq> CHR ''#''" "scan_word l = Some (u, rest)"
    and "bs \<noteq> [] \<or> length ts < max_session_templates"
    and "parse_args rest f' (new_request u) (user_think_time (last (add_request think (isspace_c (hd l)) (new_request u) bs)))
      = Inr (r, th, f2)"
  shows "parse_lines think f ts bs
    = parse_lines think f2 ts (set_last r th (add_request think (isspace_c (hd l)) (new_request u) bs))"
proof -
  have "\<not> (bs = [] \<and> max_session_templates \<le> length ts)" using assms(4) by auto
  then show ?thesis
    by (subst parse_lines.simps) (simp only: assms(1-3,5) option.case prod.case sum.case Let_def if_False simp_thms)
qed

lemma parse_first_line:
  assumes wf: "wf_request (m, u, s)" and len: "length (request_line [] ('' think='' @ digits 10 n) (m, u, s)) < line_size"
    and room: "bs \<noteq> [] \<or> length ts < max_session_templates"
  shows "parse_lines think (request_line [] ('' think='' @ digits 10 n) (m, u, s) @ rest) ts bs
    = parse_lines think rest ts (bs @ [\<lparr>user_think_time = real n, req_list = [the_request (m, u, s)]\<rparr>])"
proof -
  let ?l = "request_line [] ('' think='' @ digits 10 n) (m, u, s)"
  have hd: "hd ?l = hd u" "u \<noteq> []" using wf by (auto simp: request_line_def wf_request_def)
  then have "hd ?l \<noteq> CHR ''#''" "\<not> isspace_c (hd ?l)" using wf by (simp_all add: wf_request_def)
  moreover have "fgets (?l @ rest) = Some (?l, rest)" using wf len digits_text(2) by (intro fgets_request) simp_all
  moreover have "scan_word ?l = Some (u, args_text m ('' think='' @ digits 10 n) s)"
    using wf digits_text(1) by (intro scan_word_request) simp_all
  ultimately show ?thesis
    using parse_line [OF _ _ _ room] parse_args_full [OF wf_request_contents [OF wf len]]
    by (simp add: add_request_def set_last_def the_request_def)
qed

lemma parse_next_line:
  assumes wf: "wf_request (m, u, s)" and len: "length (request_line [TAB] [] (m, u, s)) < line_size"
  shows "parse_lines think (request_line [TAB] [] (m, u, s) @ rest) ts (bs @ [b])
    = parse_lines think rest ts (bs @ [b\<lparr>req_list := req_list b @ [the_request (m, u, s)]\<rparr>])"
proof -
  let ?l = "request_line [TAB] [] (m, u, s)"
  have "hd ?l \<noteq> CHR ''#''" "isspace_c (hd ?l)" by (simp_all add: request_line_def)
  moreover have "fgets (?l @ rest) = Some (?l, rest)" using wf len by (intro fgets_request) simp_all
  moreover have "scan_word ?l = Some (u, args_text m [] s)" using wf by (intro scan_word_request) simp_all
  ultimately show ?thesis
    using parse_line [of "?l @ rest" ?l rest u "args_text m [] s" "bs @ [b]"]
      parse_args_plain [OF wf_request_contents [OF wf len]]
    by (cases b) (simp add: add_request_def set_last_def the_request_def)
qed

lemma parse_next_lines:
  assumes "\<forall>r \<in> set rs. wf_request r \<and> length (request_line [TAB] [] r) < line_size"
  shows "parse_lines think (concat (map (request_line [TAB] []) rs) @ rest) ts (bs @ [b])
    = parse_lines think rest ts (bs @ [b\<lparr>req_list := req_list b @ map the_request rs\<rparr>])"
  using assms
proof (induction rs arbitrary: b)
  case (Cons r rs)
  obtain m u s where r: "r = (m, u, s)" by (cases r) auto
  show ?case using Cons.prems parse_next_line [of m u s think "concat (map (request_line [TAB] []) rs) @ rest" ts bs b]
    by (simp add: r Cons.IH)
qed simp

lemma parse_burst:
  assumes "snd b \<noteq> []" "length (burst_text b) < line_size" "\<forall>r \<in> set (snd b). wf_request r"
    and "bs \<noteq> [] \<or> length ts < max_session_templates"
  shows "parse_lines think (burst_text b @ rest) ts bs = parse_lines think rest ts (bs @ [the_burst b])"
proof -
  obtain n m u s rs where b: "b = (n, (m, u, s) # rs)" using assms(1) by (cases b; cases "snd b") auto
  let ?l = "request_line [] ('' think='' @ digits 10 n) (m, u, s)"
  let ?t = "concat (map (request_line [TAB] []) rs)"
  have tx: "burst_text b = ?l @ ?t" by (simp add: b burst_text_def)
  then have "length ?l < line_size" "length ?t < line_size" using assms(2) by simp_all
  moreover have "length (request_line [TAB] [] r) \<le> length ?t" if "r \<in> set rs" for r
    using split_list [OF that] by auto
  ultimately have "\<forall>r \<in> set rs. wf_request r \<and> length (request_line [TAB] [] r) < line_size"
    using assms(3) by (fastforce simp: b)
  then show ?thesis
    using parse_first_line [of m u s n bs ts think "?t @ rest"] assms(3,4) \<open>length ?l < line_size\<close>
    by (simp add: tx [unfolded b] parse_next_lines the_burst_def b)
qed

lemma parse_bursts:
  assumes "\<forall>b \<in> set s. snd b \<noteq> [] \<and> length (burst_text b) < line_size \<and> (\<forall>r \<in> set (snd b). wf_request r)"
    and "bs \<noteq> [] \<or> length ts < max_session_templates"
  shows "parse_lines think (concat (map burst_text s) @ rest) ts bs = parse_lines think rest ts (bs @ map the_burst s)"
  using assms
proof (induction s arbitrary: bs)
  case (Cons b s)
  then show ?case using parse_burst [of b bs ts think "concat (map burst_text s) @ rest"] by simp
qed simp

lemma parse_empty_line: "parse_lines think (LF # rest) ts bs = parse_lines think rest (close_session bs ts) []"
proof -
  have "fgets (LF # rest) = Some ([LF], rest)" using fgets_line [of "[]" rest] by (simp add: line_size_def)
  moreover have "scan_word [LF] = None" by (simp add: scan_word_def cstr_def)
  ultimately show ?thesis by (subst parse_lines.simps) simp
qed

lemma close_session_template:
  "s \<noteq> [] \<Longrightarrow> close_session (map the_burst s) ts = ts @ [the_template s]"
  by (simp add: close_session_def the_template_def the_burst_def length_concat o_def split_def)

lemma parse_sessions:
  assumes "list_all wf_session ss" "length ts + length ss \<le> max_session_templates"
  shows "parse_lines think (config_text ss) ts [] = Inr (ts @ map the_template ss)"
  using assms
proof (induction ss arbitrary: ts)
  case Nil
  then show ?case by (subst parse_lines.simps) (simp add: config_text_def fgets_def close_session_def)
next
  case (Cons s ss)
  have "parse_lines think (config_text (s # ss)) ts []
      = parse_lines think (LF # config_text ss) ts (map the_burst s)"
    using parse_bursts [of s "[]" ts think "LF # config_text ss"] Cons.prems
    by (simp add: config_text_def wf_session_def)
  also have "\<dots> = parse_lines think (config_text ss) (ts @ [the_template s]) []"
    using Cons.prems by (simp add: parse_empty_line close_session_template wf_session_def)
  finally show ?case using Cons.IH [of "ts @ [the_template s]"] Cons.prems by simp
qed

section \<open>Property\<close>

text \<open>
  C23: The session file round trip of \<open>parse_config\<close>.  Write down any sessions of bursts of
  requests in the documented format, with every method, any URI that is a word and any
  contents whatever, quoted, with newlines, quotes and backslashes escaped: reading the file
  gives exactly these sessions as templates, with the think time, the method, the contents
  and the \<open>Content-length\<close> header of each request, and the number of requests of each
  session, as long as there are at most \<open>MAX_SESSION_TEMPLATES\<close> sessions and a burst fits
  the line buffer.
\<close>

theorem session_file_roundtrip:
  assumes "list_all wf_session ss" "length ss \<le> max_session_templates"
    and "wsesslog_file (param S) = Some name" "files S name = Some (config_text ss)"
  shows "parse_config S = Inr (S\<lparr>templates := map the_template ss\<rparr>)"
  using parse_sessions [of ss "[]"] assms by (simp add: parse_config_def)


definition sample_session :: session_text where
  "sample_session = [(2, [(0, ''/a'', []), (3, ''/b'', [CHR 0x22, LF])])]"

lemma sample_session: "wf_session sample_session"
proof -
  have b: "list_all (\<lambda>b. snd b \<noteq> [] \<and> length (burst_text b) = 60 \<and> list_all wf_request (snd b)) sample_session"
    by code_simp
  have "sample_session \<noteq> []" by (simp add: sample_session_def)
  then show ?thesis using b unfolding wf_session_def list_all_iff line_size_def by simp
qed

theorem session_file_roundtrip_witness:
  "let S = initial_prog\<lparr>files := [''s'' \<mapsto> config_text [sample_session]],
                        param := param initial_prog\<lparr>wsesslog_file := Some ''s''\<rparr>\<rparr>
   in parse_config S = Inr (S\<lparr>templates := [the_template sample_session]\<rparr>)"
  using session_file_roundtrip [of "[sample_session]" "initial_prog\<lparr>files := [''s'' \<mapsto> config_text [sample_session]],
       param := param initial_prog\<lparr>wsesslog_file := Some ''s''\<rparr>\<rparr>" "''s''"] sample_session
  by (simp add: max_session_templates_def Let_def)

end
