(* ===== verification/Gen_Wsesspage.thy ===== *)
theory Gen_Wsesspage
  imports Gen_Wsess
begin

text \<open>
  \<^verbatim>\<open>src/src/gen/wsesspage.c\<close>: sessions that fetch an HTML page and then the objects that
  it embeds.  A scanner looks at the data of the page as it arrives, piece by piece, with
  its state and a buffer of 1024 characters in the call.  The memory for the list of URIs
  is taken to suffice; the debug output is left out.
\<close>

section \<open>Issuing calls\<close>

abbreviation pg_of :: "nat \<Rightarrow> prog \<Rightarrow> pg_sess" where
  "pg_of x S \<equiv> pg_sess (sess_priv S x)"

abbreviation page_of :: "nat \<Rightarrow> prog \<Rightarrow> pg_call" where
  "page_of c S \<equiv> pg_call (call_priv S c)"

definition upd_pg :: "nat \<Rightarrow> (pg_sess \<Rightarrow> pg_sess) \<Rightarrow> prog \<Rightarrow> prog" where
  "upd_pg x f = upd_sess_priv x (\<lambda>p. p\<lparr>pg_sess := f (pg_sess p)\<rparr>)"

definition upd_page :: "nat \<Rightarrow> (pg_call \<Rightarrow> pg_call) \<Rightarrow> prog \<Rightarrow> prog" where
  "upd_page c f = upd_call_priv c (\<lambda>p. p\<lparr>pg_call := f (pg_call p)\<rparr>)"

text \<open>The first element of the list of URIs goes to the call, which frees it when it is destroyed.\<close>

definition take_uri :: "nat \<Rightarrow> nat \<Rightarrow> prog \<Rightarrow> prog" where
  "take_uri x c S =
     (let u = hd (pg_uri_list (pg_of x S)) in
      upd_call c (call_set_uri u (length u))
        (upd_page c (\<lambda>p. p\<lparr>to_free := Some u\<rparr>)
          (upd_pg x (\<lambda>p. p\<lparr>pg_uri_list := tl (pg_uri_list p)\<rparr>) S)))"

text \<open>The loop of \<open>issue_calls\<close>, with at most \<open>k\<close> calls left to make.\<close>

fun page_issue :: "nat \<Rightarrow> bool \<Rightarrow> nat \<Rightarrow> psignal \<Rightarrow> nat \<Rightarrow> prog \<Rightarrow> prog result" where
  "page_issue 0 embedded n sig x S = Inr S"
| "page_issue (Suc k) embedded n sig x S =
     (if embedded \<and> pg_uri_list (pg_of x S) = [] then Inr S
      else
        ebind (object_new sig OBJ_CALL (upd_pg x (\<lambda>p. p\<lparr>pg_num_created := pg_num_created p + 1\<rparr>) S)) (\<lambda>(c, S).
        case c of
          None \<Rightarrow> sess_failure sig x S
        | Some c \<Rightarrow>
            ebind (session_issue_call n sig x c (if embedded then take_uri x c S else S)) (\<lambda>S.
            ebind (object_dec_ref sig c S) (page_issue k embedded n sig x))))"

definition page_issue_calls :: "nat \<Rightarrow> psignal \<Rightarrow> nat \<Rightarrow> prog \<Rightarrow> prog result" where
  "page_issue_calls n sig x S =
     (if 0 < pg_num_created (pg_of x S)
      then page_issue (nat (to_int (session_max_qlen S - session_current_qlen x S))) True n sig x S
      else page_issue 1 False n sig x S)"

section \<open>URIs\<close>

text \<open>
  What \<open>fetch_uri\<close> makes of a URI: an absolute one must name the server and loses that
  part; a relative one gets the prefix of the page in front.
\<close>

definition resolve_uri :: "string \<Rightarrow> prog \<Rightarrow> string option" where
  "resolve_uri u S =
     (let serv = server (param S); n = 7 + length serv in
      case (if strchr u (CHR '':'') = None then Some u
            else if strncmp_eq u ''http://'' 7 \<and> strncmp_eq (drop 7 u) serv (length serv)
                    \<and> n < length u \<and> u ! n = CHR ''/'' then Some (drop n u)
            else None) of
        None \<Rightarrow> None
      | Some u \<Rightarrow> Some (if u \<noteq> [] \<and> hd u = CHR ''/'' then u else page_prefix S @ u))"

definition fetch_uri :: "nat \<Rightarrow> psignal \<Rightarrow> nat option \<Rightarrow> string \<Rightarrow> prog \<Rightarrow> prog result" where
  "fetch_uri n sig x u S =
     (case resolve_uri u S of
        None \<Rightarrow> Inr S
      | Some u \<Rightarrow>
          ebind (deref x) (\<lambda>x.
            page_issue_calls n sig x (upd_pg x (\<lambda>p. p\<lparr>pg_uri_list := u # pg_uri_list p\<rparr>) S)))"

definition page_think_time_expired :: "nat \<Rightarrow> psignal \<Rightarrow> nat \<Rightarrow> prog \<Rightarrow> prog result" where
  "page_think_time_expired n sig x S =
     page_issue_calls n sig x (upd_pg x (\<lambda>p. p\<lparr>pg_timer := None\<rparr>) S)"

definition page_call_recv_hdr :: "nat \<Rightarrow> psignal \<Rightarrow> nat \<Rightarrow> string \<Rightarrow> prog \<Rightarrow> prog result" where
  "page_call_recv_hdr n sig c hdr S =
     (let x = session_get_sess_from_call c S; ch = (if hdr = [] then NUL else tolower_c (hd hdr)) in
      if ch = CHR ''c'' then
        Inr (if 23 \<le> length hdr \<and> strncasecmp_eq (drop 1 hdr) ''ontent-type: text/html'' 22
             then upd_page c (\<lambda>p. p\<lparr>html_state := P_HTML\<rparr>) S else S)
      else if ch = CHR ''l'' then
        if 10 < length hdr \<and> strncasecmp_eq (drop 1 hdr) ''ocation: '' 9
        then fetch_uri n sig x (drop 10 hdr) S else Inr S
      else Inr S)"

section \<open>The scanner\<close>

text \<open>A character into the buffer: \<open>cpriv->buf[cpriv->buf_len++] = ch\<close>.\<close>

definition store_char :: "char \<Rightarrow> pg_call \<Rightarrow> pg_call result" where
  "store_char ch p =
     ebind (update_c (html_buf p) (html_len p) ch) (\<lambda>b. Inr (p\<lparr>html_buf := b, html_len := html_len p + 1\<rparr>))"

text \<open>
  A command is complete.  The buffer is not terminated: \<open>strcmp\<close> and \<open>strncasecmp\<close>
  look at the characters that an earlier command left there, so that \<open>!--\<close> is recognised
  only if a NUL follows in the buffer, and \<open>data\<close>, with its length of six, only if one of
  the characters is NUL.
\<close>

definition html_command :: "pg_call \<Rightarrow> html_state" where
  "html_command p =
     (if html_len p = 3 \<and> strcmp_eq (html_buf p) ''!--'' then P_DASH_ONE
      else if html_len p = 5 \<and> strncasecmp_eq (html_buf p) ''frame'' 5 then P_SRC
      else if html_len p = 6 \<and> strncasecmp_eq (html_buf p) ''iframe'' 6 then P_SRC
      else if html_len p = 6 \<and> strncasecmp_eq (html_buf p) ''data'' 6 then P_DATA
      else if html_len p = 3 \<and> strncasecmp_eq (html_buf p) ''img'' 3 then P_SRC
      else html_state p)"

text \<open>Looking for \<open>src=\<close> or \<open>data=\<close>: the buffer holds the last characters (\<open>memcpy\<close> of overlapping areas).\<close>

definition html_find :: "string \<Rightarrow> char \<Rightarrow> pg_call \<Rightarrow> pg_call result" where
  "html_find w ch p =
     (if ch = CHR ''>'' then Inr (p\<lparr>html_state := P_HTML\<rparr>)
      else
        ebind (store_char ch p) (\<lambda>p.
          Inr (if html_len p = length w then
                 if strncasecmp_eq (html_buf p) w (length w)
                 then p\<lparr>html_state := P_LQUOTE, html_len := 0\<rparr>
                 else p\<lparr>html_buf := take (length w - 1) (drop 1 (html_buf p)) @ drop (length w - 1) (html_buf p),
                        html_len := length w - 1\<rparr>
               else p)))"

text \<open>All transitions but the one at the end of a URI.\<close>

definition html_step :: "char \<Rightarrow> pg_call \<Rightarrow> pg_call result" where
  "html_step ch p =
     (case html_state p of
        P_INITIAL \<Rightarrow> Inr p
      | P_HTML \<Rightarrow> Inr (p\<lparr>html_len := 0, html_state := (if ch = CHR ''<'' then P_CMD else P_HTML)\<rparr>)
      | P_CMD \<Rightarrow>
          if isspace_c ch \<or> ch = CHR ''='' then
            Inr (if 0 < html_len p then p\<lparr>html_state := html_command p, html_len := 0\<rparr>
                 else p\<lparr>html_state := P_HTML\<rparr>)
          else if ch = CHR ''>'' then Inr (p\<lparr>html_state := P_HTML\<rparr>)
          else if html_len p < html_buf_size then store_char ch p
          else Inr p
      | P_DASH_ONE \<Rightarrow> Inr (if ch = CHR ''-'' then p\<lparr>html_state := P_DASH_TWO\<rparr> else p)
      | P_DASH_TWO \<Rightarrow> Inr (p\<lparr>html_state := (if ch = CHR ''-'' then P_RANGLE else P_DASH_ONE)\<rparr>)
      | P_RANGLE \<Rightarrow> Inr (if ch = CHR ''>'' then p\<lparr>html_state := P_HTML\<rparr> else p)
      | P_SRC \<Rightarrow> html_find ''src='' ch p
      | P_DATA \<Rightarrow> html_find ''data='' ch p
      | P_LQUOTE \<Rightarrow>
          if ch = CHR 0x22 then Inr (p\<lparr>html_state := P_QUOTED_URI\<rparr>)
          else if \<not> isspace_c ch then store_char ch (p\<lparr>html_state := P_NAKED_URI\<rparr>)
          else Inr p
      | _ \<Rightarrow> if html_len p < html_buf_size - 1 then store_char ch p else Inr p)"

definition uri_complete :: "char \<Rightarrow> pg_call \<Rightarrow> bool" where
  "uri_complete ch p \<longleftrightarrow>
     html_state p = P_QUOTED_URI \<and> ch = CHR 0x22 \<or> html_state p = P_NAKED_URI \<and> isspace_c ch"

definition html_char :: "nat \<Rightarrow> psignal \<Rightarrow> nat option \<Rightarrow> nat \<Rightarrow> char \<Rightarrow> prog \<Rightarrow> prog result" where
  "html_char n sig x c ch S =
     (let p = page_of c S in
      if uri_complete ch p then
        ebind (update_c (html_buf p) (html_len p) NUL) (\<lambda>b.
        ebind (fetch_uri n sig x (take (html_len p) b) (upd_page c (\<lambda>p. p\<lparr>html_buf := b\<rparr>) S)) (\<lambda>S.
          Inr (upd_page c (\<lambda>p. p\<lparr>html_state := P_HTML, html_len := 0\<rparr>) S)))
      else ebind (html_step ch p) (\<lambda>p. Inr (upd_page c (\<lambda>_. p) S)))"

definition page_call_recv_data :: "nat \<Rightarrow> psignal \<Rightarrow> nat \<Rightarrow> string \<Rightarrow> prog \<Rightarrow> prog result" where
  "page_call_recv_data n sig c ds S =
     (let x = session_get_sess_from_call c S in
      if html_state (page_of c S) = P_INITIAL then Inr S else efold (html_char n sig x c) ds S)"

section \<open>Sessions\<close>

text \<open>A new burst resets \<open>num_created\<close> but not \<open>num_destroyed\<close>.\<close>

definition page_call_destroyed :: "nat \<Rightarrow> psignal \<Rightarrow> nat \<Rightarrow> prog \<Rightarrow> prog result" where
  "page_call_destroyed n sig c S =
     (let S = upd_page c (\<lambda>p. p\<lparr>to_free := None\<rparr>) S in
      ebind (deref (session_get_sess_from_call c S)) (\<lambda>x.
      let S = upd_pg x (\<lambda>p. p\<lparr>pg_num_destroyed := pg_num_destroyed p + 1\<rparr>) S; p = pg_of x S in
      if failed (sesss S x) then Inr S
      else if pg_uri_list p \<noteq> [] then page_issue_calls n sig x S
      else if pg_num_created p \<le> pg_num_destroyed p then
        let S = upd_pg x (\<lambda>p. p\<lparr>pg_num_reqs_completed := pg_num_reqs_completed p + 1\<rparr>) S in
        if wsesspage_num_reqs (param S) \<le> pg_num_reqs_completed (pg_of x S) then object_dec_ref sig x S
        else
          let S = upd_pg x (\<lambda>p. p\<lparr>pg_num_created := 0\<rparr>) S in
          ebind (c_assert (pg_timer (pg_of x S) = None) S) (\<lambda>S.
            let (w, S) = timer_schedule Wsesspage_think_time_expired x (wsesspage_think_time (param S)) S
            in Inr (upd_pg x (\<lambda>p. p\<lparr>pg_timer := w\<rparr>) S))
      else Inr S))"

definition page_sess_create :: "nat \<Rightarrow> psignal \<Rightarrow> prog \<Rightarrow> (int \<times> prog) result" where
  "page_sess_create n sig S =
     (let k = wsesspage_generated S; S = S\<lparr>wsesspage_generated := k + 1\<rparr> in
      if wsesspage_num_sessions (param S) \<le> as_uint k then Inr (- 1, S)
      else
        ebind (object_new sig OBJ_SESS S) (\<lambda>(x, S).
        case x of
          None \<Rightarrow> Inr (1, S)
        | Some x \<Rightarrow> ebind (page_issue_calls n sig x S) (\<lambda>S. Inr (0, S))))"

definition page_sess_destroyed :: "nat \<Rightarrow> prog \<Rightarrow> prog result" where
  "page_sess_destroyed x S =
     ebind (case pg_timer (pg_of x S) of
              None \<Rightarrow> Inr S
            | Some w \<Rightarrow> ebind (timer_cancel w S) (\<lambda>S. Inr (upd_pg x (\<lambda>p. p\<lparr>pg_timer := None\<rparr>) S))) (\<lambda>S.
     let k = wsesspage_destroyed S + 1; S = S\<lparr>wsesspage_destroyed := k\<rparr> in
     Inr (if wsesspage_num_sessions (param S) \<le> as_uint k then core_exit S else S))"

text \<open>\<open>prefix\<close> is the URI of the page up to its last slash; the sizes are those of the x86-64 ABI.\<close>

definition page_init :: "prog \<Rightarrow> prog result" where
  "page_init S =
     (let u = cstr (uri (param S)) in
      if CHR ''/'' \<notin> set u then Inl (Exit 1)
      else
        ebind (session_init (S\<lparr>page_prefix := rev (dropWhile (\<lambda>d. d \<noteq> CHR ''/'') (rev u))\<rparr>)) (\<lambda>S.
        let S = snd (object_expand OBJ_SESS 32 (snd (object_expand OBJ_CALL 1040 S)));
            S = upd_rg rg_wsesspage (\<lambda>r. r\<lparr>rg_tick := Wsesspage_sess_create\<rparr>) S
        in ebind (event_register_handler EV_CALL_RECV_HDR Wsesspage_call_recv_hdr (Lng 0) S) (\<lambda>S.
           ebind (event_register_handler EV_CALL_RECV_DATA Wsesspage_call_recv_data (Lng 0) S) (\<lambda>S.
           ebind (event_register_handler EV_SESS_DESTROYED Wsesspage_sess_destroyed (Lng 0) S)
             (event_register_handler EV_CALL_DESTROYED Wsesspage_call_destroyed (Lng 0))))))"

definition page_start :: "tick_semantics \<Rightarrow> prog \<Rightarrow> prog result" where
  "page_start run_tick S = rate_generator_start run_tick rg_wsesspage EV_SESS_DESTROYED S"

section \<open>The buffer of the scanner\<close>

definition page_ok :: "pg_call \<Rightarrow> bool" where
  "page_ok p \<longleftrightarrow> length (html_buf p) = html_buf_size \<and>
     html_len p \<le> (case html_state p of P_SRC \<Rightarrow> 3 | P_DATA \<Rightarrow> 4 | P_LQUOTE \<Rightarrow> 0
                     | P_NAKED_URI \<Rightarrow> html_buf_size - 1 | P_QUOTED_URI \<Rightarrow> html_buf_size - 1 | _ \<Rightarrow> html_buf_size)"

lemma page_ok_zero: "page_ok (pg_call zero_call_private)"
  by (simp add: page_ok_def zero_call_private_def)

lemma page_initial: "page_of c initial_prog = pg_call zero_call_private"
  by (simp add: initial_prog_def initial_state_def core.defs)

lemma store_char_ok:
  assumes "length (html_buf p) = html_buf_size" "html_len p < html_buf_size"
  shows "store_char ch p = Inr (p\<lparr>html_buf := (html_buf p)[html_len p := ch], html_len := html_len p + 1\<rparr>)"
  using assms by (simp add: store_char_def update_c_def)

lemma html_command_state:
  "html_command p \<in> {P_DASH_ONE, P_SRC, P_DATA, html_state p}"
  by (simp add: html_command_def)

lemma html_find_ok:
  assumes "length (html_buf p) = html_buf_size" "html_len p < length w" "length w \<le> 5"
    and "\<And>q. length (html_buf q) = html_buf_size \<Longrightarrow> html_len q < length w \<Longrightarrow> html_state q = html_state p \<Longrightarrow> page_ok q"
  shows "\<exists>q. html_find w ch p = Inr q \<and> page_ok q"
proof (cases "ch = CHR ''>''")
  case True
  then show ?thesis using assms(1-3) by (simp add: html_find_def page_ok_def)
next
  case False
  let ?p = "p\<lparr>html_buf := (html_buf p)[html_len p := ch], html_len := html_len p + 1\<rparr>"
  have "html_len p < html_buf_size" using assms(2,3) by simp
  then have s: "store_char ch p = Inr ?p" using store_char_ok [OF assms(1)] by blast
  consider (more) "html_len ?p \<noteq> length w"
    | (found) "html_len ?p = length w" "strncasecmp_eq (html_buf ?p) w (length w)"
    | (shift) "html_len ?p = length w" "\<not> strncasecmp_eq (html_buf ?p) w (length w)"
    by blast
  then show ?thesis
  proof cases
    case more
    then have "html_find w ch p = Inr ?p" using False s by (simp add: html_find_def)
    moreover have "page_ok ?p" using more assms(1,2) by (intro assms(4)) simp_all
    ultimately show ?thesis by blast
  next
    case found
    then show ?thesis using False s assms(1) by (simp add: html_find_def page_ok_def)
  next
    case shift
    let ?q = "?p\<lparr>html_buf := take (length w - 1) (drop 1 (html_buf ?p)) @ drop (length w - 1) (html_buf ?p),
      html_len := length w - 1\<rparr>"
    have "html_find w ch p = Inr ?q" using shift False s by (simp add: html_find_def)
    moreover have "page_ok ?q" using shift assms(1-3) by (intro assms(4)) (simp_all, linarith?)
    ultimately show ?thesis by blast
  qed
qed

lemma html_step_ok:
  assumes "page_ok p" "\<not> uri_complete ch p"
  shows "\<exists>q. html_step ch p = Inr q \<and> page_ok q"
proof -
  have l: "length (html_buf p) = html_buf_size" using assms(1) by (simp add: page_ok_def)
  show ?thesis
  proof (cases "html_state p")
    case P_CMD
    then show ?thesis using assms(1) html_command_state [of p]
      by (auto simp: html_step_def store_char_ok page_ok_def)
  next
    case P_SRC
    then show ?thesis using assms(1) html_find_ok [OF l, of "''src=''" ch]
      by (auto simp: html_step_def page_ok_def)
  next
    case P_DATA
    then show ?thesis using assms(1) html_find_ok [OF l, of "''data=''" ch]
      by (auto simp: html_step_def page_ok_def)
  next
    case P_LQUOTE
    then show ?thesis using assms(1) by (auto simp: html_step_def store_char_ok page_ok_def)
  qed (use assms(1) in \<open>auto simp: html_step_def store_char_ok page_ok_def\<close>)
qed


section \<open>Scanning a page\<close>

lemma page_of_upd [simp]: "page_of c (upd_page c f S) = f (page_of c S)"
  by (simp add: upd_page_def upd_call_priv_def)

lemma upd_page_upd [simp]: "upd_page c f (upd_page c g S) = upd_page c (\<lambda>p. f (g p)) S"
  by (simp add: upd_page_def upd_call_priv_def)

lemma upd_page_same: "upd_page c (\<lambda>_. page_of c S) S = S"
  by (simp add: upd_page_def upd_call_priv_def)

lemma sess_from_call_upd [simp]: "session_get_sess_from_call c (upd_page d f S) = session_get_sess_from_call c S"
  by (simp add: session_get_sess_from_call_def upd_page_def upd_call_priv_def)

text \<open>Scanning without completing a URI, on the private data alone.\<close>

fun html_run :: "string \<Rightarrow> pg_call \<Rightarrow> pg_call option" where
  "html_run [] p = Some p"
| "html_run (ch # t) p =
     (if uri_complete ch p then None else case html_step ch p of Inl _ \<Rightarrow> None | Inr q \<Rightarrow> html_run t q)"

lemma html_run_append: "html_run (s @ t) p = Option.bind (html_run s p) (html_run t)"
  by (induction s arbitrary: p) (auto split: sum.splits)

lemma html_chars_run:
  "html_run t (page_of c S) = Some q \<Longrightarrow> efold (html_char n sig x c) t S = Inr (upd_page c (\<lambda>_. q) S)"
proof (induction t arbitrary: S)
  case Nil
  then show ?case by (auto simp: upd_page_same)
next
  case (Cons ch t)
  then obtain r where r: "\<not> uri_complete ch (page_of c S)" "html_step ch (page_of c S) = Inr r" "html_run t r = Some q"
    by (auto split: if_splits sum.splits)
  have "efold (html_char n sig x c) t (upd_page c (\<lambda>_. r) S) = Inr (upd_page c (\<lambda>_. q) (upd_page c (\<lambda>_. r) S))"
    using r(3) by (intro Cons.IH) simp
  moreover have "html_char n sig x c ch S = Inr (upd_page c (\<lambda>_. r) S)" using r by (simp add: html_char_def)
  ultimately show ?case by simp
qed

lemma html_step_started:
  assumes "html_state p \<noteq> P_INITIAL" "html_step ch p = Inr q"
  shows "html_state q \<noteq> P_INITIAL"
proof -
  have store: "html_state r = html_state p'" if "store_char ch p' = Inr r" for p' r
    using that by (auto simp: store_char_def update_c_def split: if_splits)
  have find: "html_state q \<noteq> P_INITIAL" if "html_find w ch p = Inr q" for w
    using that assms(1) by (auto simp: html_find_def ebind_def dest!: store split: if_splits sum.splits)
  show ?thesis
    using assms html_command_state [of p]
    by (cases "html_state p") (auto simp: html_step_def dest: store find split: if_splits)
qed

lemma html_run_started: "html_run t p = Some q \<Longrightarrow> html_state p \<noteq> P_INITIAL \<Longrightarrow> html_state q \<noteq> P_INITIAL"
  by (induction t arbitrary: p) (auto dest: html_step_started split: if_splits sum.splits)

text \<open>The pieces in which the data arrives do not matter.\<close>

lemma recv_run:
  assumes "html_run t (page_of c S) = Some q" "html_state (page_of c S) \<noteq> P_INITIAL"
  shows "page_call_recv_data n sig c t S = Inr (upd_page c (\<lambda>_. q) S)"
  using assms html_chars_run by (simp add: page_call_recv_data_def)

lemma recv_nothing: "page_call_recv_data n sig c [] S = Inr S"
  by (simp add: page_call_recv_data_def)

lemma recv_nothings: "concat ds = [] \<Longrightarrow> efold (page_call_recv_data n sig c) ds S = Inr S"
  by (induction ds arbitrary: S) (simp_all add: recv_nothing)

lemma recv_pieces:
  assumes "concat ds = t @ [ch]" "html_run t (page_of c S) = Some q" "html_state (page_of c S) \<noteq> P_INITIAL"
  shows "efold (page_call_recv_data n sig c) ds S
    = html_char n sig (session_get_sess_from_call c S) c ch (upd_page c (\<lambda>_. q) S)"
  using assms
proof (induction ds arbitrary: t S)
  case (Cons d ds)
  show ?case
  proof (cases "concat ds = []")
    case True
    then have d: "d = t @ [ch]" using Cons.prems(1) by (simp only: concat.simps append_Nil2)
    have "page_call_recv_data n sig c d S
        = html_char n sig (session_get_sess_from_call c S) c ch (upd_page c (\<lambda>_. q) S)"
      using html_chars_run [OF Cons.prems(2), of n sig "session_get_sess_from_call c S"] Cons.prems(3)
      by (cases "html_char n sig (session_get_sess_from_call c S) c ch (upd_page c (\<lambda>_. q) S)")
        (simp_all add: page_call_recv_data_def d efold_append Let_def)
    moreover have "efold (page_call_recv_data n sig c) ds = Inr" using recv_nothings [OF True] by (intro ext) simp
    moreover have "ebind r Inr = r" for r :: "prog result" by (cases r) simp_all
    ultimately show ?thesis by simp
  next
    case False
    obtain u where u: "concat ds = u @ [ch]" "t = d @ u"
      using False Cons.prems(1) by (metis append_butlast_last_id append_is_Nil_conv butlast_append concat.simps(2) last_appendR last_snoc butlast_snoc)
    then obtain r where r: "html_run d (page_of c S) = Some r" "html_run u r = Some q"
      using Cons.prems(2) by (auto simp: html_run_append bind_eq_Some_conv)
    let ?S = "upd_page c (\<lambda>_. r) S"
    have "efold (page_call_recv_data n sig c) ds ?S
        = html_char n sig (session_get_sess_from_call c ?S) c ch (upd_page c (\<lambda>_. q) ?S)"
      using r html_run_started [OF r(1) Cons.prems(3)] by (intro Cons.IH [OF u(1)]) simp_all
    then show ?thesis using recv_run [OF r(1) Cons.prems(3)] by simp
  qed
qed simp

text \<open>The characters of a URI.\<close>

lemma html_run_uri:
  assumes "html_state p = P_QUOTED_URI" "CHR 0x22 \<notin> set u" "length (html_buf p) = html_buf_size"
    and "html_len p + length u < html_buf_size"
  shows "\<exists>b. length b = html_buf_size \<and> take (html_len p + length u) b = take (html_len p) (html_buf p) @ u
    \<and> html_run u p = Some (p\<lparr>html_len := html_len p + length u, html_buf := b\<rparr>)"
  using assms
proof (induction u arbitrary: p)
  case Nil
  then show ?case by (intro exI [of _ "html_buf p"]) simp
next
  case (Cons ch u)
  let ?q = "p\<lparr>html_buf := (html_buf p)[html_len p := ch], html_len := html_len p + 1\<rparr>"
  have "\<exists>b. length b = html_buf_size \<and> take (html_len ?q + length u) b = take (html_len ?q) (html_buf ?q) @ u
    \<and> html_run u ?q = Some (?q\<lparr>html_len := html_len ?q + length u, html_buf := b\<rparr>)"
    by (rule Cons.IH) (use Cons.prems in simp_all)
  then obtain b where b: "length b = html_buf_size"
      "take (html_len p + length (ch # u)) b = take (html_len p) (html_buf p) @ ch # u"
      "html_run u ?q = Some (p\<lparr>html_len := html_len p + length (ch # u), html_buf := b\<rparr>)"
    using Cons.prems by (auto simp: take_Suc_conv_app_nth)
  have "\<not> uri_complete ch p" using Cons.prems by (auto simp: uri_complete_def)
  moreover have "html_step ch p = Inr ?q" using Cons.prems by (simp add: html_step_def store_char_ok)
  ultimately have "html_run (ch # u) p = Some (p\<lparr>html_len := html_len p + length (ch # u), html_buf := b\<rparr>)"
    using b(3) by simp
  with b(1,2) show ?case by blast
qed

definition img_tag :: string where
  "img_tag = ''<img src='' @ [CHR 0x22]"

lemma img_chars [simp]:
  "\<not> isspace_c (CHR ''i'')" "\<not> isspace_c (CHR ''g'')" "isspace_c (CHR '' '')" "\<not> isspace_c (CHR ''s'')"
  "\<not> isspace_c (CHR ''r'')" "\<not> isspace_c (CHR ''m'')"
  by code_simp+

lemma html_run_img:
  assumes "html_state p = P_HTML" "length (html_buf p) = html_buf_size"
  shows "\<exists>b. length b = html_buf_size
    \<and> html_run img_tag p = Some (p\<lparr>html_state := P_QUOTED_URI, html_len := 0, html_buf := b\<rparr>)"
proof -
  have "4 \<le> length (html_buf p)" using assms(2) by simp
  then obtain b0 b1 b2 b3 t where b: "html_buf p = b0 # b1 # b2 # b3 # t"
    by (auto simp: Suc_le_length_iff eval_nat_numeral)
  have l: "length t = 1020" using assms(2) b by simp
  obtain k f where p: "p = \<lparr>html_state = P_HTML, html_len = k, html_buf = b0 # b1 # b2 # b3 # t, to_free = f\<rparr>"
    using assms(1) b by (cases p) auto
  have "html_run img_tag p
      = Some \<lparr>html_state = P_QUOTED_URI, html_len = 0, html_buf = ''src='' @ t, to_free = f\<rparr>"
    by (simp add: img_tag_def p uri_complete_def html_step_def store_char_def update_c_def html_command_def
         html_find_def strcmp_eq_def strncasecmp_eq_def cstr_def)
  then show ?thesis using l by (intro exI [of _ "''src='' @ t"]) (simp add: p)
qed


section \<open>Properties\<close>

text \<open>
  C25: No character of a page makes the scanner of \<open>wsesspage.c\<close> write outside its buffer,
  although the states that look for \<open>src=\<close>, \<open>data=\<close> and the start of a URI store characters
  without a test.  If the lengths that belong to the states hold, every character either
  completes a URI, whose terminator still fits and which is then fetched, or leads to
  a state where they hold again.
\<close>

theorem page_scan_in_bounds:
  assumes "page_ok (page_of c S)"
  shows "(uri_complete ch (page_of c S)
      \<and> html_char n sig x c ch S
        = ebind (fetch_uri n sig x (take (html_len (page_of c S)) (html_buf (page_of c S)))
              (upd_page c (\<lambda>p. p\<lparr>html_buf := (html_buf p)[html_len p := NUL]\<rparr>) S))
            (\<lambda>S. Inr (upd_page c (\<lambda>p. p\<lparr>html_state := P_HTML, html_len := 0\<rparr>) S)))
    \<or> (\<exists>p. html_char n sig x c ch S = Inr (upd_page c (\<lambda>_. p) S) \<and> page_ok p)"
proof (cases "uri_complete ch (page_of c S)")
  case True
  then have "html_len (page_of c S) < length (html_buf (page_of c S))"
    using assms by (auto simp: page_ok_def uri_complete_def)
  moreover have "upd_page c (\<lambda>p. p\<lparr>html_buf := (html_buf (page_of c S))[html_len (page_of c S) := NUL]\<rparr>) S
      = upd_page c (\<lambda>p. p\<lparr>html_buf := (html_buf p)[html_len p := NUL]\<rparr>) S"
    by (simp add: upd_page_def upd_call_priv_def)
  ultimately show ?thesis using True by (simp add: html_char_def update_c_def Let_def)
next
  case False
  then obtain p where "html_step ch (page_of c S) = Inr p" "page_ok p" using html_step_ok assms by blast
  then show ?thesis using False by (auto simp: html_char_def)
qed

theorem page_scan_in_bounds_witness:
  "\<exists>p. html_char 0 (\<lambda>_ _ _. Inr) None 0 (CHR ''<'') initial_prog = Inr (upd_page 0 (\<lambda>_. p) initial_prog) \<and> page_ok p"
  using page_scan_in_bounds [of initial_prog 0 "CHR ''<''" 0 "\<lambda>_ _ _. Inr" None] page_ok_zero
  by (auto simp: page_initial uri_complete_def zero_call_private_def)

text \<open>
  C24: A page's image is found, however the page arrives.  If the scanner is outside of a tag and
  the characters \<open><img src="u"\<close> arrive in any pieces, exactly \<open>u\<close> is fetched, for every \<open>u\<close>
  without a quote that fits the buffer, and the scanner goes on outside of a tag.
\<close>

theorem image_is_fetched:
  assumes "page_ok (page_of c S)" "html_state (page_of c S) = P_HTML"
    and "CHR 0x22 \<notin> set u" "length u < html_buf_size" "concat ds = img_tag @ u @ [CHR 0x22]"
  shows "\<exists>b. efold (page_call_recv_data n sig c) ds S
    = ebind (fetch_uri n sig (session_get_sess_from_call c S) u
          (upd_page c (\<lambda>p. p\<lparr>html_state := P_QUOTED_URI, html_len := length u, html_buf := b\<rparr>) S))
        (\<lambda>S. Inr (upd_page c (\<lambda>p. p\<lparr>html_state := P_HTML, html_len := 0\<rparr>) S))"
proof -
  let ?p = "page_of c S" and ?ch = "CHR 0x22"
  have "length (html_buf ?p) = html_buf_size" using assms(1) by (simp add: page_ok_def)
  from html_run_img [OF assms(2) this] obtain b1 where b1: "length b1 = html_buf_size"
      "html_run img_tag ?p = Some (?p\<lparr>html_state := P_QUOTED_URI, html_len := 0, html_buf := b1\<rparr>)" (is "_ = Some ?q")
    by blast
  from html_run_uri [of ?q u] obtain b2 where b2: "length b2 = html_buf_size" "take (length u) b2 = u"
      "html_run u ?q = Some (?q\<lparr>html_len := length u, html_buf := b2\<rparr>)" (is "_ = Some ?r")
    using assms(3,4) b1(1) by auto
  have run: "html_run (img_tag @ u) ?p = Some ?r" using b1(2) b2(3) by (simp add: html_run_append)
  have cpl: "uri_complete ?ch ?r" by (simp add: uri_complete_def)
  have "efold (page_call_recv_data n sig c) ds S
      = html_char n sig (session_get_sess_from_call c S) c ?ch (upd_page c (\<lambda>_. ?r) S)"
    using assms(2,5) by (intro recv_pieces [OF _ run]) simp_all
  also have "\<dots> = ebind (fetch_uri n sig (session_get_sess_from_call c S) u
        (upd_page c (\<lambda>_. ?r\<lparr>html_buf := b2[length u := NUL]\<rparr>) S))
      (\<lambda>S. Inr (upd_page c (\<lambda>p. p\<lparr>html_state := P_HTML, html_len := 0\<rparr>) S))"
    using cpl b2(1,2) assms(4) by (simp add: html_char_def update_c_def)
  also have "upd_page c (\<lambda>_. ?r\<lparr>html_buf := b2[length u := NUL]\<rparr>) S
      = upd_page c (\<lambda>p. p\<lparr>html_state := P_QUOTED_URI, html_len := length u, html_buf := b2[length u := NUL]\<rparr>) S"
    by (simp add: upd_page_def upd_call_priv_def)
  finally show ?thesis by blast
qed

theorem image_is_fetched_witness:
  "let S = upd_page 0 (\<lambda>p. p\<lparr>html_state := P_HTML\<rparr>) initial_prog in
   \<exists>b. efold (page_call_recv_data 0 (\<lambda>_ _ _. Inr) 0) [take 3 img_tag, drop 3 img_tag @ ''a.gif'', [CHR 0x22]] S
    = ebind (fetch_uri 0 (\<lambda>_ _ _. Inr) (session_get_sess_from_call 0 S) ''a.gif''
          (upd_page 0 (\<lambda>p. p\<lparr>html_state := P_QUOTED_URI, html_len := length ''a.gif'', html_buf := b\<rparr>) S))
        (\<lambda>S. Inr (upd_page 0 (\<lambda>p. p\<lparr>html_state := P_HTML, html_len := 0\<rparr>) S))"
  unfolding Let_def
  by (rule image_is_fetched)
    (simp_all only: page_of_upd page_initial, simp_all add: page_ok_def zero_call_private_def img_tag_def)


section \<open>The second page of a session\<close>

lemma schedule_some:
  assumes "passive_timers S \<noteq> []"
  shows "\<exists>w T. timer_schedule f x d S = (Some w, T) \<and> sess_priv T = sess_priv S \<and> call_priv T = call_priv S
    \<and> sesss T = sesss S \<and> param T = param S"
proof (cases "passive_timers S")
  case (Cons t ts)
  then show ?thesis
    by (auto simp: timer_schedule_def timer_now_def timer_now_forced_def push_timer_def malloc_def Let_def
        split: list.splits if_splits option.splits prod.splits)
qed (use assms in simp)

lemma pg_of_upd [simp]: "pg_of x (upd_pg x f S) = f (pg_of x S)" "pg_of x (upd_page c g S) = pg_of x S"
  "param (upd_pg x f S) = param S" "param (upd_page c g S) = param S"
  "sesss (upd_pg x f S) = sesss S" "sesss (upd_page c g S) = sesss S"
  "passive_timers (upd_pg x f S) = passive_timers S" "passive_timers (upd_page c g S) = passive_timers S"
  "session_get_sess_from_call c (upd_pg x f S) = session_get_sess_from_call c S"
  by (simp_all add: upd_pg_def upd_page_def upd_priv_defs session_get_sess_from_call_def)

text \<open>A call whose destruction ends the burst, and one that ends it a second time.\<close>

lemma page_call_ends_burst:
  assumes "session_get_sess_from_call c S = Some x" "\<not> failed (sesss S x)" "pg_uri_list (pg_of x S) = []"
    and "pg_num_created (pg_of x S) \<le> pg_num_destroyed (pg_of x S) + 1"
    and "pg_num_reqs_completed (pg_of x S) + 1 < wsesspage_num_reqs (param S)"
    and "pg_timer (pg_of x S) = None" "passive_timers S \<noteq> []"
  shows "\<exists>w T. page_call_destroyed n sig c S = Inr T
    \<and> pg_of x T = (pg_of x S)\<lparr>pg_num_destroyed := pg_num_destroyed (pg_of x S) + 1, pg_num_created := 0,
        pg_num_reqs_completed := pg_num_reqs_completed (pg_of x S) + 1, pg_timer := Some w\<rparr>
    \<and> sesss T = sesss S \<and> param T = param S
    \<and> (\<forall>d. session_get_sess_from_call d T = session_get_sess_from_call d S)"
proof -
  let ?S = "upd_pg x (\<lambda>p. p\<lparr>pg_num_created := 0\<rparr>) (upd_pg x (\<lambda>p. p\<lparr>pg_num_reqs_completed := pg_num_reqs_completed p + 1\<rparr>)
    (upd_pg x (\<lambda>p. p\<lparr>pg_num_destroyed := pg_num_destroyed p + 1\<rparr>) (upd_page c (\<lambda>p. p\<lparr>to_free := None\<rparr>) S)))"
  have "passive_timers ?S \<noteq> []" using assms(7) by simp
  from schedule_some [OF this, of Wsesspage_think_time_expired x "wsesspage_think_time (param S)"]
  obtain w T where T: "timer_schedule Wsesspage_think_time_expired x (wsesspage_think_time (param S)) ?S = (Some w, T)"
      "sess_priv T = sess_priv ?S" "call_priv T = call_priv ?S" "sesss T = sesss ?S" "param T = param ?S"
    by blast
  have "page_call_destroyed n sig c S = Inr (upd_pg x (\<lambda>p. p\<lparr>pg_timer := Some w\<rparr>) T)"
    using assms(1-4,6) T(1) assms(5) [folded not_le] by (simp add: page_call_destroyed_def c_assert_def Let_def)
  moreover have "pg_of x T = pg_of x ?S" by (simp only: T(2))
  moreover have "session_get_sess_from_call d T = session_get_sess_from_call d S" for d
    using T(3) by (simp add: session_get_sess_from_call_def upd_pg_def upd_page_def upd_priv_defs)
  ultimately show ?thesis using T(4,5)
    by (intro exI [of _ w] exI [of _ "upd_pg x (\<lambda>p. p\<lparr>pg_timer := Some w\<rparr>) T"]) simp
qed

lemma page_call_ends_twice:
  assumes "session_get_sess_from_call c S = Some x" "\<not> failed (sesss S x)" "pg_uri_list (pg_of x S) = []"
    and "pg_num_created (pg_of x S) \<le> pg_num_destroyed (pg_of x S) + 1"
    and "pg_num_reqs_completed (pg_of x S) + 1 < wsesspage_num_reqs (param S)"
    and "pg_timer (pg_of x S) = Some w"
  shows "page_call_destroyed n sig c S = Inl Assertion"
  using assms(1-4,6) assms(5) [folded not_le] by (simp add: page_call_destroyed_def c_assert_def Let_def)



text \<open>
  A page's URIs are resolved as they should be: an absolute URI that names the server loses
  scheme and server, a path stays what it is, and any other URI without a colon is relative to
  the directory of the page.
\<close>

theorem page_uri_resolved:
  assumes "NUL \<notin> set (server (param S))" "CHR '':'' \<notin> set u"
  shows "resolve_uri (''http://'' @ server (param S) @ CHR ''/'' # v) S = Some (CHR ''/'' # v)
    \<and> resolve_uri (CHR ''/'' # u) S = Some (CHR ''/'' # u)
    \<and> (take 1 u \<noteq> ''/'' \<longrightarrow> resolve_uri u S = Some (page_prefix S @ u))"
proof -
  have "strchr w (CHR '':'') = None" if "CHR '':'' \<notin> set w" for w
  proof -
    have "takeWhile (\<lambda>d. d \<noteq> CHR '':'') (cstr w) = cstr w"
      using that by (auto simp: takeWhile_eq_all_conv cstr_def dest: set_takeWhileD)
    then show ?thesis unfolding strchr_def Let_def by (simp only: less_irrefl if_False)
  qed
  then have plain: "strchr u (CHR '':'') = None" "strchr (CHR ''/'' # u) (CHR '':'') = None"
    using assms(2) by simp_all
  let ?s = "server (param S)"
  let ?h = "''http://'' @ ?s @ CHR ''/'' # v"
  have "strchr ?h (CHR '':'') \<noteq> None" by (simp add: strchr_def cstr_def Let_def)
  moreover have "strncmp_eq ?h ''http://'' 7" by (simp add: strncmp_eq_def cstr_def)
  moreover have d: "drop 7 ?h = ?s @ CHR ''/'' # v" by simp
  moreover have "strncmp_eq (?s @ CHR ''/'' # v) ?s (length ?s)"
    using assms(1) by (simp add: strncmp_eq_def cstr_append cstr_no_NUL)
  moreover have n: "drop (7 + length ?s) ?h = CHR ''/'' # v"
    using arg_cong [OF d, of "drop (length ?s)"] by (simp only: drop_drop add.commute drop_append) simp
  moreover have "7 + length ?s < length ?h" "?h ! (7 + length ?s) = CHR ''/''"
    using n by (simp, metis hd_drop_conv_nth list.sel(1) length_drop length_greater_0_conv list.distinct(1) zero_less_diff)
  ultimately have "resolve_uri ?h S = Some (CHR ''/'' # v)" by (simp only: resolve_uri_def Let_def) simp
  then show ?thesis using plain by (cases u) (simp_all add: resolve_uri_def Let_def)
qed

theorem page_uri_resolved_witness:
  "resolve_uri ''b.html'' (initial_prog\<lparr>page_prefix := ''/a/''\<rparr>) = Some ''/a/b.html''"
  using page_uri_resolved [of "initial_prog\<lparr>page_prefix := ''/a/''\<rparr>" "''b.html''"]
  by (simp add: initial_prog_def initial_state_def core.defs default_params_def)

end
