(* ===== verification/Stat_Basic.thy ===== *)
theory Stat_Basic
  imports Gen_Rate
begin

text \<open>
  \<^verbatim>\<open>src/src/stat/basic.c\<close>: the counters, sums and the histogram of connection lifetimes that
  the handlers of the basic statistics maintain, and the numbers of the final report.
  \<open>double\<close> values are reals; \<open>DBL_MAX\<close> is the largest finite one.  The texts around the
  numbers and the messages of verbose runs are left out.
\<close>

section \<open>The handlers\<close>

definition dbl_max :: real where
  "dbl_max = (2 - 1 / 2 ^ 52) * 2 ^ 1023"

definition upd_basic :: "(basic_stats \<Rightarrow> basic_stats) \<Rightarrow> prog \<Rightarrow> prog" where
  "upd_basic f S = S\<lparr>basic := f (basic S)\<rparr>"

abbreviation real_of :: "'w::len word \<Rightarrow> real" where
  "real_of w \<equiv> real (unat w)"

definition basic_perf_sample :: "real \<Rightarrow> prog \<Rightarrow> prog" where
  "basic_perf_sample weight =
     upd_basic (\<lambda>b. let r = weight * real_of (num_interval_replies b) in
       b\<lparr>reply_rate_sum := reply_rate_sum b + r, reply_rate_sum2 := reply_rate_sum2 b + r * r,
         reply_rate_min := min (reply_rate_min b) r, reply_rate_max := max (reply_rate_max b) r,
         num_reply_rates := num_reply_rates b + 1, num_interval_replies := 0\<rparr>)"

definition basic_conn_timeout :: "prog \<Rightarrow> prog" where
  "basic_conn_timeout = upd_basic (\<lambda>b. b\<lparr>num_client_timeouts := num_client_timeouts b + 1\<rparr>)"

text \<open>The error numbers are those of Linux: EINVAL and EMFILE, ENFILE, ECONNREFUSED, ETIMEDOUT, EPIPE and ECONNRESET.\<close>

definition basic_conn_fail :: "int \<Rightarrow> prog \<Rightarrow> prog" where
  "basic_conn_fail err =
     upd_basic (\<lambda>b.
       if err = 22 \<or> err = 24 then b\<lparr>num_sock_fdunavail := num_sock_fdunavail b + 1\<rparr>
       else if err = 23 then b\<lparr>num_sock_ftabfull := num_sock_ftabfull b + 1\<rparr>
       else if err = 111 then b\<lparr>num_sock_refused := num_sock_refused b + 1\<rparr>
       else if err = 110 then b\<lparr>num_sock_timeouts := num_sock_timeouts b + 1\<rparr>
       else if err = 32 \<or> err = ECONNRESET then b\<lparr>num_sock_reset := num_sock_reset b + 1\<rparr>
       else b\<lparr>num_other_errors := num_other_errors b + 1\<rparr>)"

definition basic_conn_created :: "prog \<Rightarrow> prog" where
  "basic_conn_created =
     upd_basic (\<lambda>b. let k = num_active_conns b + 1 in
       b\<lparr>num_active_conns := k, max_concurrent := (if max_concurrent b < k then k else max_concurrent b)\<rparr>)"

definition basic_conn_connecting :: "nat \<Rightarrow> prog \<Rightarrow> prog" where
  "basic_conn_connecting a S =
     (let (t, S) = timer_now S in
      upd_basic (\<lambda>b. b\<lparr>num_conns_issued := num_conns_issued b + 1\<rparr>)
        (upd_conn a (\<lambda>s. s\<lparr>time_connect_start := t\<rparr>) S))"

definition basic_conn_connected :: "nat \<Rightarrow> prog \<Rightarrow> prog" where
  "basic_conn_connected a S =
     (let (t, S) = timer_now S in
      upd_basic (\<lambda>b. b\<lparr>conn_connect_sum := conn_connect_sum b + (t - time_connect_start (conns S a)),
                       num_connects := num_connects b + 1\<rparr>) S)"

text \<open>
  The bin of a lifetime.  The conversion to \<open>u_int\<close> truncates; it is undefined for values
  that do not fit.  The last bin is \<open>NUM_BINS\<close>, one behind the end of the histogram.
\<close>

definition lifetime_bin :: "real \<Rightarrow> nat result" where
  "lifetime_bin t =
     (let x = t * real num_bins / 100 in
      if x \<le> - 1 \<or> 2 ^ 32 \<le> x then Inl Undefined
      else let bin = nat \<lfloor>x\<rfloor> in Inr (if num_bins \<le> bin then num_bins else bin))"

definition count_lifetime :: "real \<Rightarrow> basic_stats \<Rightarrow> basic_stats result" where
  "count_lifetime t b =
     ebind (lifetime_bin t) (\<lambda>bin.
     ebind (nth_c (conn_lifetime_hist b) bin) (\<lambda>k.
     ebind (update_c (conn_lifetime_hist b) bin (k + 1)) (\<lambda>hist.
       Inr (b\<lparr>conn_lifetime_sum := conn_lifetime_sum b + t, conn_lifetime_sum2 := conn_lifetime_sum2 b + t * t,
              conn_lifetime_min := min (conn_lifetime_min b) t, conn_lifetime_max := max (conn_lifetime_max b) t,
              num_lifetimes := num_lifetimes b + 1, conn_lifetime_hist := hist\<rparr>))))"

definition basic_conn_destroyed :: "nat \<Rightarrow> prog \<Rightarrow> prog result" where
  "basic_conn_destroyed a S =
     ebind (c_assert (0 < num_active_conns (basic S)) S) (\<lambda>S.
     ebind (if 0 < num_calls_completed (conns S a) then
              let (n, S) = timer_now S in
              ebind (count_lifetime (n - time_connect_start (conns S a)) (basic S)) (\<lambda>b. Inr (S\<lparr>basic := b\<rparr>))
            else Inr S) (\<lambda>S.
       Inr (upd_basic (\<lambda>b. b\<lparr>num_active_conns := num_active_conns b - 1\<rparr>) S)))"

definition basic_send_start :: "nat \<Rightarrow> prog \<Rightarrow> prog" where
  "basic_send_start c S = (let (t, S) = timer_now S in upd_call c (\<lambda>q. q\<lparr>time_send_start := t\<rparr>) S)"

definition basic_send_stop :: "nat \<Rightarrow> prog \<Rightarrow> prog" where
  "basic_send_stop c S =
     upd_basic (\<lambda>b. b\<lparr>req_bytes_sent := req_bytes_sent b + req_size (calls S c),
                      num_requests_sent := num_requests_sent b + 1\<rparr>) S"

definition basic_recv_start :: "nat \<Rightarrow> prog \<Rightarrow> prog" where
  "basic_recv_start c S =
     (let (t, S) = timer_now S;
          S = upd_basic (\<lambda>b. b\<lparr>call_response_sum := call_response_sum b + (t - time_send_start (calls S c))\<rparr>) S;
          S = upd_call c (\<lambda>q. q\<lparr>time_recv_start := t\<rparr>) S;
          S = upd_basic (\<lambda>b. b\<lparr>num_responses := num_responses b + 1\<rparr>) S
      in if periodic_stats S \<noteq> 0 then
           upd_basic (\<lambda>b. b\<lparr>num_200 := num_200 b + of_bool (reply_status (calls S c) = 200),
                            num_302 := num_302 b + of_bool (reply_status (calls S c) = 302)\<rparr>) S
         else S)"

text \<open>A reply counts in the class of its status: the first of three digits.\<close>

definition count_reply :: "call \<Rightarrow> real \<Rightarrow> basic_stats \<Rightarrow> basic_stats result" where
  "count_reply q t b =
     (let b = b\<lparr>call_xfer_sum := call_xfer_sum b + t,
                hdr_bytes_received := hdr_bytes_received b + header_bytes q,
                reply_bytes_received := reply_bytes_received b + content_bytes q,
                footer_bytes_received := footer_bytes_received b + footer_bytes q\<rparr>;
          index = (if reply_status q < 0 then - (- reply_status q div 100) else reply_status q div 100)
      in if 0 \<le> index \<and> index < int (length (num_replies_by_class b)) then
           Inr (b\<lparr>num_replies_by_class := (num_replies_by_class b)[nat index := num_replies_by_class b ! nat index + 1],
                  num_interval_replies := num_interval_replies b + 1\<rparr>)
         else Inl Assertion)"

definition basic_recv_stop :: "nat \<Rightarrow> prog \<Rightarrow> prog result" where
  "basic_recv_stop c S =
     ebind (c_assert (0 < time_recv_start (calls S c)) S) (\<lambda>S.
     let (t, S) = timer_now S in
     ebind (count_reply (calls S c) (t - time_recv_start (calls S c)) (basic S)) (\<lambda>b.
     ebind (deref (call_conn (calls S c))) (\<lambda>a.
       Inr (upd_conn a (\<lambda>s. s\<lparr>num_calls_completed := num_calls_completed s + 1\<rparr>) (S\<lparr>basic := b\<rparr>)))))"

definition basic_one_second_timer :: "prog \<Rightarrow> prog" where
  "basic_one_second_timer S =
     (let (t, S) = timer_now S;
          S = upd_basic (\<lambda>b. b\<lparr>prev200 := num_200 b, prev302 := num_302 b\<rparr>) S
      in snd (timer_schedule One_second_timer 0 1 S))"

definition basic_handlers :: "(event_type \<times> handler \<times> any_type) list" where
  "basic_handlers = [(EV_PERF_SAMPLE, Basic_perf_sample, Lng 0), (EV_CONN_FAILED, Basic_conn_fail, Lng 0),
     (EV_CONN_TIMEOUT, Basic_conn_timeout, Lng 0), (EV_CONN_NEW, Basic_conn_created, Lng 0),
     (EV_CONN_CONNECTING, Basic_conn_connecting, Lng 0), (EV_CONN_CONNECTED, Basic_conn_connected, Lng 0),
     (EV_CONN_DESTROYED, Basic_conn_destroyed, Lng 0), (EV_CALL_SEND_START, Basic_send_start, Lng 0),
     (EV_CALL_SEND_STOP, Basic_send_stop, Lng 0), (EV_CALL_RECV_START, Basic_recv_start, Lng 0),
     (EV_CALL_RECV_STOP, Basic_recv_stop, Lng 0)]"

definition basic_init :: "prog \<Rightarrow> prog result" where
  "basic_init S =
     ebind (register_all basic_handlers
             (upd_basic (\<lambda>b. b\<lparr>conn_lifetime_min := dbl_max, reply_rate_min := dbl_max\<rparr>) S)) (\<lambda>S.
       Inr (if periodic_stats S \<noteq> 0 then snd (timer_schedule One_second_timer 0 1 S) else S))"

section \<open>The report\<close>

text \<open>
  The numbers that \<open>dump\<close> prints, in its order and units.  \<open>user\<close> and \<open>system\<close> are the CPU
  times that \<open>getrusage\<close> measured.  Quotients of counters are computed in integers.
  Where the code divides by the duration of the test, it is taken not to be zero.
\<close>

record basic_report =
  total_connections :: u64
  total_requests :: u64
  total_replies :: u64
  test_duration :: real
  connection_rate :: real
  connection_period_ms :: real
  concurrent_conns :: u64
  lifetime_min_ms :: real
  lifetime_avg_ms :: real
  lifetime_max_ms :: real
  lifetime_median_ms :: real
  lifetime_stddev_ms :: real
  connect_time_ms :: real
  connection_length :: real
  request_rate :: real
  request_period_ms :: real
  request_size :: real
  rep_rate_min :: real
  rep_rate_avg :: real
  rep_rate_max :: real
  rep_rate_stddev :: real
  rep_rate_samples :: u64
  response_time_ms :: real
  transfer_time_ms :: real
  header_size :: real
  content_size :: real
  footer_size :: real
  status_classes :: "u64 list"
  user_time :: real
  system_time :: real
  net_kbytes_per_s :: real
  total_errors :: u64

definition variance :: "real \<Rightarrow> real \<Rightarrow> u64 \<Rightarrow> real" where
  "variance s s2 n = (if n < 2 then 0 else (s2 - s * s / real_of n) / real_of (n - 1))"

definition stddev :: "real \<Rightarrow> real \<Rightarrow> u64 \<Rightarrow> real" where
  "stddev s s2 n = (if n < 2 then 0 else sqrt (variance s s2 n))"

text \<open>The loop that looks for the bin of the median: \<open>n\<close> counts lifetimes, \<open>i\<close> bins.\<close>

fun median_loop :: "u64 \<Rightarrow> u32 list \<Rightarrow> u32 \<Rightarrow> nat \<Rightarrow> real" where
  "median_loop lifetimes [] n i = 0"
| "median_loop lifetimes (h # hs) n i =
     (if 1 / 2 * real_of lifetimes \<le> real_of (n + h) then (real i + 1 / 2) / 1000
      else median_loop lifetimes hs (n + h) (i + 1))"

definition basic_dump :: "real \<Rightarrow> real \<Rightarrow> prog \<Rightarrow> basic_report" where
  "basic_dump user sys S =
     (let b = basic S;
          replies = sum_list (tl (num_replies_by_class b));
          delta = test_time_stop S - test_time_start S;
          per = (\<lambda>x (n :: u64). if 0 < n then x / real_of n else 0);
          iper = (\<lambda>x (n :: u64). if 0 < n then real_of (x div n) else 0);
          net = real_of (req_bytes_sent b + hdr_bytes_received b + reply_bytes_received b)
      in \<lparr>total_connections = num_conns_issued b, total_requests = num_requests_sent b, total_replies = replies,
          test_duration = delta,
          connection_rate = real_of (num_conns_issued b) / delta,
          connection_period_ms = 1000 * per delta (num_conns_issued b),
          concurrent_conns = max_concurrent b,
          lifetime_min_ms = (if 0 < num_lifetimes b then 1000 * conn_lifetime_min b else 0),
          lifetime_avg_ms = 1000 * per (conn_lifetime_sum b) (num_lifetimes b),
          lifetime_max_ms = 1000 * conn_lifetime_max b,
          lifetime_median_ms = 1000 * (if 0 < num_lifetimes b
             then median_loop (num_lifetimes b) (conn_lifetime_hist b) 0 0 else 0),
          lifetime_stddev_ms = 1000 * stddev (conn_lifetime_sum b) (conn_lifetime_sum2 b) (num_lifetimes b),
          connect_time_ms = 1000 * per (conn_connect_sum b) (num_connects b),
          connection_length = per (real_of replies) (num_lifetimes b),
          request_rate = real_of (num_requests_sent b) / delta,
          request_period_ms = 1000 * per delta (num_requests_sent b),
          request_size = iper (req_bytes_sent b) (num_requests_sent b),
          rep_rate_min = (if 0 < num_reply_rates b then reply_rate_min b else 0),
          rep_rate_avg = per (reply_rate_sum b) (num_reply_rates b),
          rep_rate_max = reply_rate_max b,
          rep_rate_stddev = stddev (reply_rate_sum b) (reply_rate_sum2 b) (num_reply_rates b),
          rep_rate_samples = num_reply_rates b,
          response_time_ms = 1000 * per (call_response_sum b) (num_responses b),
          transfer_time_ms = 1000 * per (call_xfer_sum b) replies,
          header_size = iper (hdr_bytes_received b) replies,
          content_size = iper (reply_bytes_received b) replies,
          footer_size = iper (footer_bytes_received b) replies,
          status_classes = tl (num_replies_by_class b),
          user_time = user, system_time = sys,
          net_kbytes_per_s = net / delta / 1024,
          total_errors = num_client_timeouts b + num_sock_timeouts b + num_sock_fdunavail b + num_sock_ftabfull b
            + num_sock_refused b + num_sock_reset b + num_sock_addrunavail b + num_other_errors b\<rparr>)"


section \<open>What the counters mean\<close>

lemma basic_upd [simp]: "basic (upd_basic f S) = f (basic S)"
  by (simp add: upd_basic_def)

lemma basic_core [simp]:
  "basic (upd_conn a g S) = basic S" "basic (upd_call c h S) = basic S"
  by (simp_all add: upd_defs)

lemma basic_now: "timer_now S = (t, T) \<Longrightarrow> basic T = basic S"
  by (auto simp: timer_now_def timer_now_forced_def split: if_splits)

lemma basic_schedule: "basic (snd (timer_schedule f x d S)) = basic S"
  by (auto simp: timer_schedule_def malloc_def timer_now_def timer_now_forced_def push_timer_def Let_def
      split: list.splits if_splits option.splits prod.splits)

text \<open>One call of a handler of this module.\<close>

inductive basic_event :: "prog \<Rightarrow> prog \<Rightarrow> bool" where
  "basic_event S (basic_perf_sample w S)"
| "basic_event S (basic_conn_timeout S)"
| "basic_event S (basic_conn_fail e S)"
| "basic_event S (basic_conn_created S)"
| "basic_event S (basic_conn_connecting a S)"
| "basic_event S (basic_conn_connected a S)"
| "basic_conn_destroyed a S = Inr T \<Longrightarrow> basic_event S T"
| "basic_event S (basic_send_start c S)"
| "basic_event S (basic_send_stop c S)"
| "basic_event S (basic_recv_start c S)"
| "basic_recv_stop c S = Inr T \<Longrightarrow> basic_event S T"
| "basic_event S (basic_one_second_timer S)"

definition basic_inv :: "basic_stats \<Rightarrow> bool" where
  "basic_inv b \<longleftrightarrow> length (conn_lifetime_hist b) = num_bins \<and> length (num_replies_by_class b) = 6
     \<and> sum_list (conn_lifetime_hist b) = ucast (num_lifetimes b) \<and> num_active_conns b \<le> max_concurrent b"

lemma basic_inv_zero: "basic_inv zero_basic"
  by (simp add: basic_inv_def zero_basic_def sum_list_replicate)

lemma sum_list_update_word: "i < length xs \<Longrightarrow> sum_list (xs[i := xs ! i + k]) = sum_list xs + (k :: 'w::len word)"
  by (induction xs arbitrary: i) (auto simp: nth_Cons algebra_simps split: nat.split)

lemma ucast_plus_one: "(ucast (k + 1 :: u64) :: u32) = ucast k + 1"
proof -
  have "(ucast (k + 1 :: u64) :: u32) = word_of_nat (unat (k + 1))" by simp
  also have "unat (k + 1) = (unat k + 1) mod 2 ^ 64" by (simp add: unat_word_ariths)
  also have "(word_of_nat ((unat k + 1) mod 2 ^ 64) :: u32) = word_of_nat (unat k + 1)"
    by (simp only: word_of_nat_eq_iff take_bit_nat_eq) (simp add: take_bit_eq_mod mod_mod_cancel)
  finally show ?thesis by simp
qed

lemma count_lifetime_inv: "basic_inv b \<Longrightarrow> count_lifetime t b = Inr c \<Longrightarrow> basic_inv c \<and> num_active_conns c = num_active_conns b"
  by (auto simp: count_lifetime_def basic_inv_def Inr_iff update_c_def nth_c_def sum_list_update_word
      ucast_plus_one split: if_splits)


lemma basic_event_inv:
  assumes "basic_event S T" "basic_inv (basic S)"
  shows "basic_inv (basic T)"
  using assms
proof cases
  case (4)
  then show ?thesis using assms(2) by (auto simp: basic_conn_created_def basic_inv_def Let_def)
next
  case (5 a)
  then show ?thesis using assms(2)
    by (auto simp: basic_conn_connecting_def basic_inv_def split: prod.split dest: basic_now)
next
  case (6 a)
  then show ?thesis using assms(2)
    by (auto simp: basic_conn_connected_def basic_inv_def split: prod.split dest: basic_now)
next
  case (7 a)
  have less: "k - 1 \<le> m" if "0 < k" "k \<le> m" for k m :: u64
  proof -
    have "1 \<le> k" using that(1) by (simp add: word_le_nat_alt word_less_nat_alt)
    then show ?thesis using that(2) unat_sub [of 1 k] by (simp add: word_le_nat_alt)
  qed
  have leave: "basic_inv (b\<lparr>num_active_conns := num_active_conns b - 1\<rparr>)" if "basic_inv b" "0 < num_active_conns b" for b
    using that less by (simp add: basic_inv_def)
  have pos: "0 < num_active_conns (basic S)" using 7 by (auto simp: basic_conn_destroyed_def c_assert_def split: if_splits)
  obtain U where "basic_inv (basic U)" "0 < num_active_conns (basic U)"
      "T = upd_basic (\<lambda>b. b\<lparr>num_active_conns := num_active_conns b - 1\<rparr>) U"
  proof (cases "0 < num_calls_completed (conns S a)")
    case True
    obtain n U where U: "timer_now S = (n, U)" by fastforce
    then obtain b where b: "count_lifetime (n - time_connect_start (conns U a)) (basic U) = Inr b"
        "T = upd_basic (\<lambda>b. b\<lparr>num_active_conns := num_active_conns b - 1\<rparr>) (U\<lparr>basic := b\<rparr>)"
      using 7 pos True by (auto simp: basic_conn_destroyed_def c_assert_def Inr_iff)
    moreover have "basic_inv b" "num_active_conns b = num_active_conns (basic S)"
      using count_lifetime_inv b(1) assms(2) basic_now [OF U] by metis+
    ultimately show ?thesis using that [of "U\<lparr>basic := b\<rparr>"] pos by simp
  next
    case False
    then show ?thesis using 7 pos that [of S] assms(2) by (simp add: basic_conn_destroyed_def c_assert_def)
  qed
  then show ?thesis using leave by simp
next
  case (8 c)
  then show ?thesis using assms(2) by (auto simp: basic_send_start_def split: prod.split dest: basic_now)
next
  case (10 c)
  then show ?thesis using assms(2)
    by (auto simp: basic_recv_start_def basic_inv_def Let_def split: prod.split dest: basic_now)
next
  case (11 c)
  then show ?thesis using assms(2)
    by (auto simp: basic_recv_stop_def count_reply_def Inr_iff c_assert_def basic_inv_def Let_def
        split: if_splits prod.splits dest!: basic_now)
next
  case 12
  then show ?thesis using assms(2)
    by (auto simp: basic_one_second_timer_def basic_schedule basic_inv_def split: prod.split dest: basic_now)
qed (auto simp: basic_perf_sample_def basic_conn_timeout_def basic_conn_fail_def basic_send_stop_def basic_inv_def Let_def)


text \<open>The loop for the median.\<close>

lemma median_loop_finds:
  assumes "unat n + sum_list (map unat hs) = unat m" "unat m < 2 ^ 32" "2 * unat n < unat m"
  shows "\<exists>k < length hs. median_loop m hs n i = (real (i + k) + 1 / 2) / 1000
     \<and> 2 * (unat n + sum_list (map unat (take k hs))) < unat m
     \<and> unat m \<le> 2 * (unat n + sum_list (map unat (take (Suc k) hs)))"
  using assms
proof (induction hs arbitrary: n i)
  case (Cons h hs)
  have add: "unat (n + h) = unat n + unat h" using Cons.prems(1,2) by (simp add: unat_word_ariths)
  show ?case
  proof (cases "unat m \<le> 2 * unat (n + h)")
    case True
    then have "1 / 2 * real_of m \<le> real_of (n + h)" by linarith
    then show ?thesis using True Cons.prems(3) add by (intro exI [of _ 0]) simp
  next
    case False
    then have "\<not> 1 / 2 * real_of m \<le> real_of (n + h)" by linarith
    then have step: "median_loop m (h # hs) n i = median_loop m hs (n + h) (i + 1)"
      by (simp only: median_loop.simps if_False)
    from False obtain k where "k < length hs" "median_loop m hs (n + h) (i + 1) = (real (i + 1 + k) + 1 / 2) / 1000"
        "2 * (unat (n + h) + sum_list (map unat (take k hs))) < unat m"
        "unat m \<le> 2 * (unat (n + h) + sum_list (map unat (take (Suc k) hs)))"
      using Cons.IH [of "n + h" "i + 1"] Cons.prems add by auto
    then show ?thesis unfolding step using add by (intro exI [of _ "Suc k"]) (simp add: add_divide_distrib)
  qed
qed simp

section \<open>Properties\<close>



text \<open>
  The reported median is a median.  If the histogram holds as many lifetimes as were
  counted, then the median printed is the middle of a bin with fewer than half of the lifetimes
  below it and at least half of them below or in it.
\<close>

theorem reported_median:
  assumes "sum_list (map unat (conn_lifetime_hist (basic S))) = unat (num_lifetimes (basic S))"
    and "0 < num_lifetimes (basic S)" "unat (num_lifetimes (basic S)) < 2 ^ 32"
  shows "\<exists>k < length (conn_lifetime_hist (basic S)). lifetime_median_ms (basic_dump u s S) = real k + 1 / 2
     \<and> 2 * sum_list (map unat (take k (conn_lifetime_hist (basic S)))) < unat (num_lifetimes (basic S))
     \<and> unat (num_lifetimes (basic S)) \<le> 2 * sum_list (map unat (take (Suc k) (conn_lifetime_hist (basic S))))"
proof -
  have "0 < unat (num_lifetimes (basic S))" using assms(2) by (simp add: word_less_nat_alt)
  then show ?thesis
    using median_loop_finds [of 0 "conn_lifetime_hist (basic S)" "num_lifetimes (basic S)" 0] assms
    by (auto simp: basic_dump_def Let_def)
qed

theorem reported_median_witness:
  "\<exists>k < 3. lifetime_median_ms (basic_dump 0 0 (upd_basic (\<lambda>b. b\<lparr>num_lifetimes := 5, conn_lifetime_hist := [2, 2, 1]\<rparr>) initial_prog))
      = real k + 1 / 2"
proof -
  let ?S = "upd_basic (\<lambda>b. b\<lparr>num_lifetimes := 5, conn_lifetime_hist := [2, 2, 1]\<rparr>) initial_prog"
  have "sum_list (map unat (conn_lifetime_hist (basic ?S))) = unat (num_lifetimes (basic ?S))" by simp
  from reported_median [OF this, of 0 0] show ?thesis by fastforce
qed

text \<open>
  A connection's lifetime is counted in the bin of its millisecond; a connection
  that lives for 100 seconds or longer makes the handler write behind the end of the histogram.
\<close>

theorem lifetime_counted_in_bin:
  assumes "length (conn_lifetime_hist b) = num_bins" "0 \<le> t" "t < 40000"
  shows "if t < 100
     then \<exists>k c. count_lifetime t b = Inr c \<and> real k / 1000 \<le> t \<and> t < (real k + 1) / 1000
        \<and> conn_lifetime_hist c = (conn_lifetime_hist b)[k := conn_lifetime_hist b ! k + 1]
        \<and> num_lifetimes c = num_lifetimes b + 1
     else count_lifetime t b = Inl Undefined"
proof -
  let ?x = "t * real num_bins / 100"
  have x: "?x = 1000 * t" by (simp add: num_bins_def)
  then have ok: "\<not> (?x \<le> - 1 \<or> 2 ^ 32 \<le> ?x)" unfolding x using assms(2,3) by simp
  define k where "k = nat \<lfloor>?x\<rfloor>"
  have k: "real k \<le> 1000 * t" "1000 * t < real k + 1" using assms(2) by (simp_all add: k_def x)
  show ?thesis
  proof (cases "t < 100")
    case True
    then have "k < num_bins" using k by (simp add: num_bins_def)
    then show ?thesis using True k ok assms(1)
      by (auto simp: count_lifetime_def lifetime_bin_def Let_def nth_c_def update_c_def simp flip: k_def intro!: exI [of _ k])
  next
    case False
    then have "num_bins \<le> k" using k by (simp add: num_bins_def)
    then show ?thesis using False ok assms(1)
      by (simp add: count_lifetime_def lifetime_bin_def Let_def nth_c_def flip: k_def)
  qed
qed

theorem lifetime_counted_in_bin_witness: "count_lifetime 120 zero_basic = Inl Undefined"
proof -
  have "length (conn_lifetime_hist zero_basic) = num_bins" by (simp add: zero_basic_def)
  from lifetime_counted_in_bin [OF this, of 120] show ?thesis by simp
qed


text \<open>A failed connection adds one to the total of errors, but \<open>addrunavail\<close> is never counted.\<close>

lemma conn_fail_counts_once:
  "total_errors (basic_dump u s (basic_conn_fail e S)) = total_errors (basic_dump u s S) + 1
   \<and> num_sock_addrunavail (basic (basic_conn_fail e S)) = num_sock_addrunavail (basic S)"
  by (simp add: basic_dump_def basic_conn_fail_def Let_def algebra_simps)

end
