(* ===== verification/Stat_Sess.thy ===== *)
theory Stat_Sess
  imports Stat_Basic Gen_Session
begin

text \<open>
  \<^verbatim>\<open>src/src/stat/sess_stat.c\<close>: completed and failed sessions and the histogram of their
  lengths, an array that grows with the longest session.  The theorem is that the array
  is always long enough and counts every session that ended exactly once.
\<close>

section \<open>The handlers\<close>

definition upd_st :: "(session_stats \<Rightarrow> session_stats) \<Rightarrow> prog \<Rightarrow> prog" where
  "upd_st f S = S\<lparr>st := f (st S)\<rparr>"

abbreviation ss_of :: "nat \<Rightarrow> prog \<Rightarrow> ss_sess" where
  "ss_of x S \<equiv> ss_sess (sess_priv S x)"

definition upd_ss :: "nat \<Rightarrow> (ss_sess \<Rightarrow> ss_sess) \<Rightarrow> prog \<Rightarrow> prog" where
  "upd_ss x f = upd_sess_priv x (\<lambda>p. p\<lparr>ss_sess := f (ss_sess p)\<rparr>)"

definition sess_stat_perf_sample :: "real \<Rightarrow> prog \<Rightarrow> prog" where
  "sess_stat_perf_sample weight =
     upd_st (\<lambda>s. let r = weight * real_of (num_completed_since_last_sample s) in
       s\<lparr>num_completed_since_last_sample := 0, num_rate_samples := num_rate_samples s + 1,
         rate_sum := rate_sum s + r, rate_sum2 := rate_sum2 s + r * r,
         rate_min := min (rate_min s) r, rate_max := max (rate_max s) r\<rparr>)"

definition sess_stat_sess_created :: "nat \<Rightarrow> prog \<Rightarrow> prog" where
  "sess_stat_sess_created x S =
     (let (t, S) = timer_now S in upd_ss x (\<lambda>p. p\<lparr>ss_birth_time := t\<rparr>) S)"

definition count_session :: "bool \<Rightarrow> real \<Rightarrow> u32 \<Rightarrow> session_stats \<Rightarrow> session_stats" where
  "count_session fail delta nc s =
     (if fail then s\<lparr>num_failed := num_failed s + 1, failtime_sum := failtime_sum s + delta\<rparr>
      else s\<lparr>num_sess_conns := num_sess_conns s + nc,
             num_completed_since_last_sample := num_completed_since_last_sample s + 1,
             num_completed := num_completed s + 1, lifetime_sum := lifetime_sum s + delta\<rparr>)"

text \<open>
  Making room for a session of \<open>k\<close> calls: \<open>len_hist_alloced\<close> is the length of the list.  If
  the new size wraps around, \<open>memset\<close> gets a negative length.
\<close>

definition grow_hist :: "u32 \<Rightarrow> prog \<Rightarrow> prog result" where
  "grow_hist k S =
     (if longest_session (st S) < k then
        let S = upd_st (\<lambda>s. s\<lparr>longest_session := k\<rparr>) S; old = length (len_hist (st S)); new = unat (k + 16) in
        if old \<le> unat k then
          (case malloc S of
             (None, S) \<Rightarrow> Inl (Exit 1)
           | (Some _, S) \<Rightarrow>
               if new < old then Inl Undefined
               else Inr (upd_st (\<lambda>s. s\<lparr>len_hist := len_hist s @ replicate (new - old) 0\<rparr>) S))
        else Inr S
      else Inr S)"

definition sess_stat_sess_destroyed :: "nat \<Rightarrow> prog \<Rightarrow> prog result" where
  "sess_stat_sess_destroyed x S =
     (let (n, S) = timer_now S; p = ss_of x S; k = ss_calls_completed p in
      ebind (grow_hist k (upd_st (count_session (failed (sesss S x)) (n - ss_birth_time p) (ss_num_conns p)) S)) (\<lambda>S.
      ebind (nth_c (len_hist (st S)) (unat k)) (\<lambda>m.
      ebind (update_c (len_hist (st S)) (unat k) (m + 1)) (\<lambda>h. Inr (upd_st (\<lambda>s. s\<lparr>len_hist := h\<rparr>) S)))))"

definition sess_stat_conn_connected :: "nat \<Rightarrow> prog \<Rightarrow> prog result" where
  "sess_stat_conn_connected a S =
     ebind (deref (session_get_sess_from_conn a S)) (\<lambda>x.
       Inr (upd_ss x (\<lambda>p. p\<lparr>ss_num_conns := ss_num_conns p + 1\<rparr>) S))"

definition sess_stat_call_done :: "nat \<Rightarrow> prog \<Rightarrow> prog result" where
  "sess_stat_call_done c S =
     ebind (deref (session_get_sess_from_call c S)) (\<lambda>x.
       Inr (upd_ss x (\<lambda>p. p\<lparr>ss_calls_completed := ss_calls_completed p + 1\<rparr>) S))"

definition sess_stat_handlers :: "(event_type \<times> handler \<times> any_type) list" where
  "sess_stat_handlers = [(EV_PERF_SAMPLE, Sess_stat_perf_sample, Lng 0), (EV_SESS_NEW, Sess_stat_sess_created, Lng 0),
     (EV_SESS_DESTROYED, Sess_stat_sess_destroyed, Lng 0), (EV_CONN_CONNECTED, Sess_stat_conn_connected, Lng 0),
     (EV_CALL_RECV_STOP, Sess_stat_call_done, Lng 0)]"

text \<open>The array is cleared before the code tests that there is memory for it.\<close>

definition sess_stat_init :: "prog \<Rightarrow> prog result" where
  "sess_stat_init S =
     (case malloc (snd (object_expand OBJ_SESS 16 S)) of
        (None, S) \<Rightarrow> Inl Undefined
      | (Some _, S) \<Rightarrow>
          register_all sess_stat_handlers (upd_st (\<lambda>s. s\<lparr>len_hist := replicate 16 0, rate_min := dbl_max\<rparr>) S))"

section \<open>The report\<close>

record sess_report =
  sess_rate_min :: real
  sess_rate_avg :: real
  sess_rate_max :: real
  sess_rate_stddev :: real
  sess_completed :: u32
  sess_total :: u32
  sess_conns_avg :: real
  sess_lifetime_avg :: real
  sess_failtime_avg :: real
  sess_lengths :: "u32 list"

definition sess_stat_dump :: "prog \<Rightarrow> sess_report" where
  "sess_stat_dump S =
     (let s = st S; delta = test_time_stop S - test_time_start S;
          per = (\<lambda>x (n :: u32). if 0 < n then x / real_of n else 0)
      in \<lparr>sess_rate_min = (if 0 < num_rate_samples s then rate_min s else 0),
          sess_rate_avg = (if 0 < delta then real_of (num_completed s) / delta else 0),
          sess_rate_max = rate_max s,
          sess_rate_stddev = stddev (rate_sum s) (rate_sum2 s) (ucast (num_rate_samples s)),
          sess_completed = num_completed s, sess_total = num_completed s + num_failed s,
          sess_conns_avg = per (real_of (num_sess_conns s)) (num_completed s),
          sess_lifetime_avg = per (lifetime_sum s) (num_completed s),
          sess_failtime_avg = per (failtime_sum s) (num_failed s),
          sess_lengths = take (Suc (unat (longest_session s))) (len_hist s)\<rparr>)"

section \<open>The histogram\<close>

definition hist_inv :: "session_stats \<Rightarrow> bool" where
  "hist_inv s \<longleftrightarrow> unat (longest_session s) < length (len_hist s) \<and> sum_list (len_hist s) = num_completed s + num_failed s"

lemma st_upd [simp]: "st (upd_st f S) = f (st S)" "malloc_ok (upd_st f S) = malloc_ok S" "mallocs (upd_st f S) = mallocs S"
  "sess_priv (upd_st f S) = sess_priv S"
  by (simp_all add: upd_st_def)

lemma grow_hist_room:
  assumes "unat (longest_session (st S)) < length (len_hist (st S))" "unat k < 2 ^ 32 - 16" "\<forall>m. malloc_ok S m"
  shows "\<exists>T. grow_hist k S = Inr T \<and> unat k \<le> unat (longest_session (st T)) \<and> unat (longest_session (st T)) < length (len_hist (st T))
     \<and> sum_list (len_hist (st T)) = sum_list (len_hist (st S))
     \<and> num_completed (st T) = num_completed (st S) \<and> num_failed (st T) = num_failed (st S)
     \<and> sess_priv T = sess_priv S \<and> malloc_ok T = malloc_ok S"
proof (cases "longest_session (st S) < k")
  case True
  have k16: "unat (k + 16) = unat k + 16" using assms(2) by (simp add: unat_word_ariths)
  show ?thesis
  proof (cases "length (len_hist (st S)) \<le> unat k")
    case True
    then show ?thesis using \<open>longest_session (st S) < k\<close> assms(3) k16
      by (simp add: grow_hist_def malloc_def Let_def sum_list_replicate)
  next
    case False
    then show ?thesis using \<open>longest_session (st S) < k\<close> by (simp add: grow_hist_def Let_def)
  qed
next
  case False
  then show ?thesis using assms(1) by (simp add: grow_hist_def word_less_nat_alt)
qed


lemma now_keeps: "timer_now S = (t, T) \<Longrightarrow> st T = st S \<and> sess_priv T = sess_priv S \<and> sesss T = sesss S \<and> malloc_ok T = malloc_ok S"
  by (auto simp: timer_now_def timer_now_forced_def split: if_splits)

lemma count_session_fields:
  "longest_session (count_session f d k s) = longest_session s" "len_hist (count_session f d k s) = len_hist s"
  "num_completed (count_session f d k s) + num_failed (count_session f d k s) = num_completed s + num_failed s + 1"
  by (simp_all add: count_session_def)

lemma sess_stat_init_hist:
  assumes "sess_stat_init S = Inr T" "st S = zero_session_stats"
  shows "hist_inv (st T)"
proof -
  have reg: "st U = st V" if "register_all hs V = Inr U" for hs and U V :: prog
    using that by (induction hs V rule: register_all.induct)
      (auto simp: Inr_iff event_register_handler_def split: if_splits)
  have e: "st (snd (object_expand t k S)) = st S" for t k by (simp add: object_expand_def Let_def)
  obtain p U where m: "malloc (snd (object_expand OBJ_SESS 16 S)) = (p, U)" by fastforce
  then have U: "st U = st S" using e [of OBJ_SESS 16] by (auto simp: malloc_def)
  from assms(1) m have "st T = st (upd_st (\<lambda>s. s\<lparr>len_hist := replicate 16 0, rate_min := dbl_max\<rparr>) U)"
    by (auto simp: sess_stat_init_def dest!: reg split: option.splits)
  then show ?thesis using U assms(2) by (simp add: hist_inv_def zero_session_stats_def sum_list_replicate)
qed

section \<open>Property\<close>

text \<open>
  C32: Every session that ends, completed or failed, is counted exactly once in the
  histogram of session lengths, in the cell of its number of calls; the array grows when it has
  to, so that the access never leaves it and the report shows as many sessions as cells add up to.
  With less than 2^32 - 16 calls and enough memory this always succeeds.
\<close>

theorem session_length_counted:
  assumes inv: "hist_inv (st S)" and k: "unat (ss_calls_completed (ss_of x S)) < 2 ^ 32 - 16"
    and mem: "\<forall>m. malloc_ok S m"
  shows "\<exists>T h. sess_stat_sess_destroyed x S = Inr T \<and> hist_inv (st T)
     \<and> sess_total (sess_stat_dump T) = sess_total (sess_stat_dump S) + 1
     \<and> unat (ss_calls_completed (ss_of x S)) < length h \<and> sum_list h = sum_list (len_hist (st S))
     \<and> len_hist (st T) = h[unat (ss_calls_completed (ss_of x S)) := h ! unat (ss_calls_completed (ss_of x S)) + 1]"
proof -
  obtain n S1 where now: "timer_now S = (n, S1)" by fastforce
  note same = now_keeps [OF now]
  let ?k = "ss_calls_completed (ss_of x S)"
  let ?s = "count_session (failed (sesss S1 x)) (n - ss_birth_time (ss_of x S1)) (ss_num_conns (ss_of x S1))"
  have "unat (longest_session (st (upd_st ?s S1))) < length (len_hist (st (upd_st ?s S1)))"
    using inv same by (simp add: hist_inv_def count_session_fields)
  from grow_hist_room [OF this k] obtain T where T: "grow_hist ?k (upd_st ?s S1) = Inr T"
      "unat ?k \<le> unat (longest_session (st T))" "unat (longest_session (st T)) < length (len_hist (st T))"
      "sum_list (len_hist (st T)) = sum_list (len_hist (st S))"
      "num_completed (st T) + num_failed (st T) = num_completed (st S) + num_failed (st S) + 1"
    using mem same by (auto simp: count_session_fields)
  let ?h = "(len_hist (st T))[unat ?k := len_hist (st T) ! unat ?k + 1]"
  have kl: "unat ?k < length (len_hist (st T))" using T(2,3) by simp
  have "sess_stat_sess_destroyed x S = Inr (upd_st (\<lambda>s. s\<lparr>len_hist := ?h\<rparr>) T)"
    using T(1) kl same by (simp add: sess_stat_sess_destroyed_def now Let_def nth_c_def update_c_def)
  moreover have "hist_inv (st (upd_st (\<lambda>s. s\<lparr>len_hist := ?h\<rparr>) T))"
    using T(3-5) kl inv by (simp add: hist_inv_def sum_list_update_word)
  moreover have "sess_total (sess_stat_dump (upd_st (\<lambda>s. s\<lparr>len_hist := ?h\<rparr>) T)) = sess_total (sess_stat_dump S) + 1"
    using T(5) by (simp add: sess_stat_dump_def Let_def)
  ultimately show ?thesis using kl T(4)
    by (intro exI [of _ "upd_st (\<lambda>s. s\<lparr>len_hist := ?h\<rparr>) T"] exI [of _ "len_hist (st T)"]) simp
qed

theorem session_length_counted_witness:
  "\<exists>T. sess_stat_sess_destroyed 3 (upd_st (\<lambda>s. s\<lparr>len_hist := replicate 16 0\<rparr>) initial_prog) = Inr T \<and> hist_inv (st T)"
proof -
  let ?S = "upd_st (\<lambda>s. s\<lparr>len_hist := replicate 16 0\<rparr>) initial_prog"
  have "hist_inv (st ?S)" "unat (ss_calls_completed (ss_of 3 ?S)) < 2 ^ 32 - 16" "\<forall>m. malloc_ok ?S m"
    by (simp_all add: hist_inv_def initial_prog_def initial_state_def core.defs zero_session_stats_def zero_sess_private_def sum_list_replicate)
  from session_length_counted [OF this] show ?thesis by blast
qed

end
