(* ===== verification/Print_Reply.thy ===== *)
theory Print_Reply
  imports Gen_Rate C_String
begin

text \<open>
  \<^verbatim>\<open>src/src/stat/print_reply.c\<close>: printing requests and replies, every line with a tag and the
  number of the call in front.  A line that is not complete waits in a buffer of the call.
  A piece of text is given with the characters that follow it in memory, since \<open>strchr\<close> and
  \<open>strstr\<close> do not stop at its end.
\<close>

section \<open>Printing lines\<close>

definition print_text :: "string \<Rightarrow> prog \<Rightarrow> prog" where
  "print_text s S = S\<lparr>stdout := stdout S @ s\<rparr>"

abbreviation pr_of :: "nat \<Rightarrow> prog \<Rightarrow> pr_call" where
  "pr_of c S \<equiv> pr_call (call_priv S c)"

definition upd_pr :: "nat \<Rightarrow> (pr_call \<Rightarrow> pr_call) \<Rightarrow> prog \<Rightarrow> prog" where
  "upd_pr c f = upd_call_priv c (\<lambda>p. p\<lparr>pr_call := f (pr_call p)\<rparr>)"

text \<open>\<open>%s%ld:\<close>, the tag and the number of the call.\<close>

definition tag :: "string \<Rightarrow> nat \<Rightarrow> prog \<Rightarrow> string" where
  "tag pre c S = pre @ digits 10 (unat (call_id (calls S c))) @ '':''"

definition flush_print_buf :: "string \<Rightarrow> nat \<Rightarrow> prog \<Rightarrow> prog" where
  "flush_print_buf pre c S =
     (let l = pr_line (pr_of c S);
          S = (if l \<noteq> [] then print_text (tag pre c S @ cstr l @ [LF]) S else S)
      in upd_pr c (\<lambda>p. p\<lparr>pr_line := []\<rparr>) S)"

text \<open>Buffering a partial line; the buffer grows if it has to.\<close>

definition buffer_line :: "nat \<Rightarrow> string \<Rightarrow> prog \<Rightarrow> prog result" where
  "buffer_line c s S =
     (let n = length (pr_line (pr_of c S)) + length s in
      ebind (if pr_size (pr_of c S) < n then
               (case malloc (upd_pr c (\<lambda>p. p\<lparr>pr_size := n\<rparr>) S) of
                  (None, S) \<Rightarrow> Inl (Exit 1)
                | (Some _, S) \<Rightarrow> Inr S)
             else Inr S) (\<lambda>S.
        Inr (upd_pr c (\<lambda>p. p\<lparr>pr_line := pr_line p @ s\<rparr>) S)))"

definition print_line :: "string \<Rightarrow> nat \<Rightarrow> string \<Rightarrow> prog \<Rightarrow> prog" where
  "print_line pre c s S =
     upd_pr c (\<lambda>p. p\<lparr>pr_line := []\<rparr>) (print_text (tag pre c S @ cstr (pr_line (pr_of c S)) @ s @ [LF]) S)"

function print_buf :: "string \<Rightarrow> nat \<Rightarrow> string \<Rightarrow> string \<Rightarrow> prog \<Rightarrow> prog result" where
  "print_buf pre c buf beyond S =
     (if buf = [] then Inr S
      else
        case strchr (buf @ beyond) LF of
          Some k \<Rightarrow> print_buf pre c (drop (Suc k) buf) beyond (print_line pre c (take k (buf @ beyond)) S)
        | None \<Rightarrow> buffer_line c buf S)"
  by pat_completeness auto
termination by (relation "measure (\<lambda>(pre, c, buf, beyond, S). length buf)") auto

declare print_buf.simps [simp del]

section \<open>Requests and reply headers\<close>

text \<open>\<open>PRINT_HEADER\<close> and \<open>PRINT_BODY\<close> are the two lowest bits.\<close>

definition wants_header :: "int \<Rightarrow> bool" where
  "wants_header m \<longleftrightarrow> odd m"

definition wants_body :: "int \<Rightarrow> bool" where
  "wants_body m \<longleftrightarrow> odd (m div 2)"

definition iov_total :: "call \<Rightarrow> nat \<Rightarrow> nat \<Rightarrow> nat" where
  "iov_total q i k = sum_list (map iov_len (take (k - i) (drop i (iov q))))"

definition print_call_request :: "nat \<Rightarrow> prog \<Rightarrow> prog result" where
  "print_call_request c S =
     (let m = print_request (param S);
          first = (if wants_header m then ie_method else ie_content);
          last = (if wants_body m then ie_num else ie_content)
      in ebind (efold (\<lambda>i S.
                 ebind (nth_c (iov (calls S c)) i) (\<lambda>v.
                 if iov_len v = 0 then Inr S
                 else ebind (deref (iov_base v)) (\<lambda>b.
                   print_buf (if i < ie_content then ''SH'' else ''SB'') c (take (iov_len v) b) (drop (iov_len v) b) S)))
               [first..<last] S) (\<lambda>S.
         Inr (print_text (''SS'' @ digits 10 (unat (call_id (calls S c))) @ '': header ''
                @ digits 10 (iov_total (calls S c) ie_method ie_content) @ '' content ''
                @ digits 10 (iov_total (calls S c) ie_content ie_num) @ [LF]) S)))"

definition strstr :: "string \<Rightarrow> string \<Rightarrow> nat option" where
  "strstr s t =
     (case filter (\<lambda>i. take (length t) (drop i (cstr s)) = t) [0..<length (cstr s)] of [] \<Rightarrow> None | i # _ \<Rightarrow> Some i)"

text \<open>Up to the empty line at the end of the header, or all of the text if there is none.\<close>

definition print_reply_hdr :: "nat \<Rightarrow> string \<Rightarrow> string \<Rightarrow> prog \<Rightarrow> prog result" where
  "print_reply_hdr c buf beyond S =
     (if buf = [] \<or> done_with_reply_hdr (pr_of c S) then Inr S
      else
        let mem = buf @ beyond;
            eoh = (case strstr mem [CR, LF, CR, LF] of
                     Some i \<Rightarrow> Some (i + 4)
                   | None \<Rightarrow> (case strstr mem [LF, LF] of Some i \<Rightarrow> Some (i + 2) | None \<Rightarrow> None))
        in case eoh of
             Some e \<Rightarrow> print_buf ''RH'' c (take e mem) (drop e mem) (upd_pr c (\<lambda>p. p\<lparr>done_with_reply_hdr := True\<rparr>) S)
           | None \<Rightarrow> print_buf ''RH'' c buf beyond S)"

section \<open>The handlers\<close>

definition print_call_destroyed :: "nat \<Rightarrow> prog \<Rightarrow> prog" where
  "print_call_destroyed c S = upd_pr c (\<lambda>p. p\<lparr>pr_line := []\<rparr>) S"

definition print_send_raw_data :: "nat \<Rightarrow> prog \<Rightarrow> prog result" where
  "print_send_raw_data c S = print_call_request c S"

text \<open>\<open>beyond\<close> is what follows in the buffer of \<open>do_recv\<close>.\<close>

definition print_recv_raw_data :: "nat \<Rightarrow> string \<Rightarrow> string \<Rightarrow> prog \<Rightarrow> prog result" where
  "print_recv_raw_data c buf beyond S = print_reply_hdr c buf beyond S"

definition print_recv_data :: "nat \<Rightarrow> string \<Rightarrow> string \<Rightarrow> prog \<Rightarrow> prog result" where
  "print_recv_data c buf beyond S = print_buf ''RB'' c buf beyond S"

definition print_recv_stop :: "nat \<Rightarrow> prog \<Rightarrow> prog" where
  "print_recv_stop c S =
     (let S = flush_print_buf ''RB'' c S; q = calls S c in
      print_text (''RS'' @ digits 10 (unat (call_id q)) @ '': header '' @ digits 10 (unat (header_bytes q))
        @ '' content '' @ digits 10 (unat (content_bytes q))
        @ '' footer '' @ digits 10 (unat (footer_bytes q)) @ [LF]) S)"

definition print_handlers :: "params \<Rightarrow> (event_type \<times> handler \<times> any_type) list" where
  "print_handlers p =
     (if wants_header (print_request p) \<or> wants_body (print_request p)
      then [(EV_CALL_SEND_RAW_DATA, Print_send_raw_data, Lng 0)] else [])
     @ (if wants_header (print_reply p) then [(EV_CALL_RECV_RAW_DATA, Print_recv_raw_data, Lng 0)] else [])
     @ (if wants_body (print_reply p) then [(EV_CALL_RECV_DATA, Print_recv_data, Lng 0)] else [])
     @ (if wants_header (print_reply p) \<or> wants_body (print_reply p)
        then [(EV_CALL_RECV_STOP, Print_recv_stop, Lng 0)] else [])
     @ [(EV_CALL_DESTROYED, Print_call_destroyed, Lng 0)]"

definition print_init :: "prog \<Rightarrow> prog result" where
  "print_init S = register_all (print_handlers (param S)) (snd (object_expand OBJ_CALL 32 S))"


section \<open>The lines of a text\<close>

text \<open>Reference: the lines of a text behind an unfinished line, and what is left unfinished.\<close>

fun split_lines :: "string \<Rightarrow> string \<Rightarrow> string list \<times> string" where
  "split_lines acc [] = ([], acc)"
| "split_lines acc (ch # s) =
     (if ch = LF then (acc # fst (split_lines [] s), snd (split_lines [] s)) else split_lines (acc @ [ch]) s)"

definition text_lines :: "string \<Rightarrow> string list" where
  "text_lines s = (let (ls, r) = split_lines [] s in if r = [] then ls else ls @ [r])"

lemma split_lines_append:
  "split_lines acc (s @ t) = (fst (split_lines acc s) @ fst (split_lines (snd (split_lines acc s)) t),
     snd (split_lines (snd (split_lines acc s)) t))"
  by (induction acc s rule: split_lines.induct) auto

lemma split_lines_no_LF: "LF \<notin> set s \<Longrightarrow> split_lines acc s = ([], acc @ s)"
  by (induction s arbitrary: acc) auto

lemma split_lines_no_NUL: "NUL \<notin> set acc \<Longrightarrow> NUL \<notin> set s \<Longrightarrow> NUL \<notin> set (snd (split_lines acc s))"
  by (induction acc s rule: split_lines.induct) auto

lemma strchr_NL:
  assumes "NUL \<notin> set s"
  shows "strchr s LF = None \<longleftrightarrow> LF \<notin> set s"
    "strchr s LF = Some k \<Longrightarrow> \<exists>x y. s = x @ LF # y \<and> length x = k \<and> LF \<notin> set x"
proof -
  let ?x = "takeWhile (\<lambda>d. d \<noteq> LF) s"
  have c: "strchr s LF = (if length ?x < length s then Some (length ?x) else None)"
    by (simp add: strchr_def Let_def cstr_no_NUL [OF assms])
  show "strchr s LF = None \<longleftrightarrow> LF \<notin> set s"
  proof
    assume "LF \<notin> set s"
    then have "?x = s" by (auto simp: takeWhile_eq_all_conv)
    then show "strchr s LF = None" unfolding c by (simp only: less_irrefl if_False)
  next
    assume "strchr s LF = None"
    then have "\<not> length ?x < length s" unfolding c by (simp split: if_splits)
    then have "?x = s" by (metis takeWhile_dropWhile_id append_self_conv length_append less_add_same_cancel1 length_greater_0_conv)
    then show "LF \<notin> set s" by (metis (mono_tags, lifting) set_takeWhileD)
  qed
  assume k: "strchr s LF = Some k"
  then have less: "length ?x < length s" "k = length ?x" unfolding c by (simp_all split: if_splits)
  then have "dropWhile (\<lambda>d. d \<noteq> LF) s \<noteq> []" by (metis takeWhile_dropWhile_id append_Nil2 less_irrefl)
  then obtain d y where y: "dropWhile (\<lambda>d. d \<noteq> LF) s = d # y" by (cases "dropWhile (\<lambda>d. d \<noteq> LF) s") auto
  then have "d = LF" by (metis (mono_tags, lifting) dropWhile_eq_Cons_conv)
  then have "s = ?x @ LF # y" using y by (metis takeWhile_dropWhile_id)
  moreover have "LF \<notin> set ?x" by (auto dest: set_takeWhileD)
  ultimately show "\<exists>x y. s = x @ LF # y \<and> length x = k \<and> LF \<notin> set x" using less(2) by blast
qed

lemma pr_simps [simp]:
  "pr_of c (upd_pr c f S) = f (pr_of c S)" "pr_of c (print_text s S) = pr_of c S"
  "stdout (upd_pr c f S) = stdout S" "stdout (print_text s S) = stdout S @ s"
  "calls (upd_pr c f S) = calls S" "calls (print_text s S) = calls S"
  "malloc_ok (upd_pr c f S) = malloc_ok S" "malloc_ok (print_text s S) = malloc_ok S"
  by (simp_all add: upd_pr_def print_text_def upd_call_priv_def)

lemma buffer_line_ok:
  assumes "\<forall>m. malloc_ok S m"
  shows "\<exists>T. buffer_line c s S = Inr T \<and> stdout T = stdout S \<and> pr_line (pr_of c T) = pr_line (pr_of c S) @ s
    \<and> calls T = calls S \<and> malloc_ok T = malloc_ok S"
proof -
  obtain p T where m: "malloc (upd_pr c (\<lambda>p. p\<lparr>pr_size := length (pr_line (pr_of c S)) + length s\<rparr>) S) = (p, T)" by fastforce
  then have "p \<noteq> None" "stdout T = stdout S" "pr_line (pr_of c T) = pr_line (pr_of c S)" "calls T = calls S"
      "malloc_ok T = malloc_ok S"
    using assms by (auto simp: malloc_def split: if_splits)
  then show ?thesis using m by (auto simp: buffer_line_def Let_def)
qed

lemma print_buf_lines:
  assumes "NUL \<notin> set buf" "NUL \<notin> set (pr_line (pr_of c S))" "\<forall>m. malloc_ok S m"
  shows "\<exists>T. print_buf pre c buf [] S = Inr T
    \<and> stdout T = stdout S @ concat (map (\<lambda>l. tag pre c S @ l @ [LF]) (fst (split_lines (pr_line (pr_of c S)) buf)))
    \<and> pr_line (pr_of c T) = snd (split_lines (pr_line (pr_of c S)) buf)
    \<and> calls T = calls S \<and> malloc_ok T = malloc_ok S"
  using assms
proof (induction "length buf" arbitrary: buf S rule: less_induct)
  case less
  show ?case
  proof (cases "strchr buf LF")
    case None
    then have "LF \<notin> set buf" using strchr_NL(1) [OF less.prems(1)] by blast
    then show ?thesis using None buffer_line_ok [OF less.prems(3), of c buf]
      by (cases "buf = []") (auto simp: print_buf.simps split_lines_no_LF)
  next
    case (Some k)
    then obtain x y where b: "buf = x @ LF # y" "length x = k" "LF \<notin> set x"
      using strchr_NL(2) [OF less.prems(1)] by blast
    let ?S = "print_line pre c x S"
    have "\<exists>T. print_buf pre c y [] ?S = Inr T
      \<and> stdout T = stdout ?S @ concat (map (\<lambda>l. tag pre c ?S @ l @ [LF]) (fst (split_lines (pr_line (pr_of c ?S)) y)))
      \<and> pr_line (pr_of c T) = snd (split_lines (pr_line (pr_of c ?S)) y)
      \<and> calls T = calls ?S \<and> malloc_ok T = malloc_ok ?S"
      by (rule less.hyps) (use less.prems b in \<open>simp_all add: print_line_def\<close>)
    moreover have "print_buf pre c buf [] S = print_buf pre c y [] ?S"
      using b Some by (subst print_buf.simps) simp
    moreover have "stdout ?S = stdout S @ tag pre c S @ (pr_line (pr_of c S) @ x) @ [LF]" "pr_line (pr_of c ?S) = []"
        "tag pre c ?S = tag pre c S" "calls ?S = calls S" "malloc_ok ?S = malloc_ok S"
      using cstr_no_NUL [OF less.prems(2)] by (simp_all add: print_line_def tag_def)
    moreover have "split_lines (pr_line (pr_of c S)) buf
        = ((pr_line (pr_of c S) @ x) # fst (split_lines [] y), snd (split_lines [] y))"
      using b(3) by (simp add: b(1) split_lines_append split_lines_no_LF)
    ultimately show ?thesis by auto
  qed
qed

lemma print_pieces:
  assumes "NUL \<notin> set (concat bs)" "NUL \<notin> set (pr_line (pr_of c S))" "\<forall>m. malloc_ok S m"
  shows "\<exists>T. efold (\<lambda>b. print_buf pre c b []) bs S = Inr T
    \<and> stdout T = stdout S @ concat (map (\<lambda>l. tag pre c S @ l @ [LF]) (fst (split_lines (pr_line (pr_of c S)) (concat bs))))
    \<and> pr_line (pr_of c T) = snd (split_lines (pr_line (pr_of c S)) (concat bs)) \<and> calls T = calls S"
  using assms
proof (induction bs arbitrary: S)
  case (Cons b bs)
  then obtain U where U: "print_buf pre c b [] S = Inr U"
      "stdout U = stdout S @ concat (map (\<lambda>l. tag pre c S @ l @ [LF]) (fst (split_lines (pr_line (pr_of c S)) b)))"
      "pr_line (pr_of c U) = snd (split_lines (pr_line (pr_of c S)) b)" "calls U = calls S" "malloc_ok U = malloc_ok S"
    using print_buf_lines [of b S c pre] by auto
  have "NUL \<notin> set (pr_line (pr_of c U))" using U(3) split_lines_no_NUL Cons.prems by simp
  then obtain T where "efold (\<lambda>b. print_buf pre c b []) bs U = Inr T"
      "stdout T = stdout U @ concat (map (\<lambda>l. tag pre c U @ l @ [LF]) (fst (split_lines (pr_line (pr_of c U)) (concat bs))))"
      "pr_line (pr_of c T) = snd (split_lines (pr_line (pr_of c U)) (concat bs))" "calls T = calls U"
    using Cons.IH [of U] Cons.prems U(5) by auto
  then show ?case using U by (simp add: split_lines_append tag_def)
qed simp

section \<open>Property\<close>



end
