(* ===== verification/Program.thy ===== *)
theory Program
  imports Gen_Uri Gen_Wsesspage Wsesslog_Config Stat_Sess Print_Reply
begin

text \<open>
  The program as a whole.  The modules call each other through the table of event handlers,
  the timers and the rate generators; this theory ties these knots: the meaning of every
  handler, of every function that a rate generator calls and of every timeout callback, and
  the signal that runs the registered handlers.  A handler may signal further events:
  \<open>program_signal n\<close> allows a nesting of depth \<open>n\<close>.
\<close>

section \<open>Handlers of the statistics collectors\<close>

text \<open>The member of the union \<open>Any_Type\<close> that a handler reads must be the one that was stored.\<close>

definition arg_dbl :: "any_type \<Rightarrow> real result" where
  "arg_dbl a = (case a of Dbl w \<Rightarrow> Inr w | _ \<Rightarrow> Inl Undefined)"

definition arg_lng :: "any_type \<Rightarrow> int result" where
  "arg_lng a = (case a of Lng i \<Rightarrow> Inr i | _ \<Rightarrow> Inl Undefined)"

definition arg_ptr :: "any_type \<Rightarrow> nat result" where
  "arg_ptr a = (case a of Ptr p \<Rightarrow> Inr p | _ \<Rightarrow> Inl Undefined)"

definition arg_bytes :: "any_type \<Rightarrow> string result" where
  "arg_bytes a = (case a of Bytes s \<Rightarrow> Inr s | _ \<Rightarrow> Inl Undefined)"

text \<open>Nothing that \<open>strchr\<close> could find follows the bytes that the reply printer is given.\<close>

definition run_collector :: "(callback_id, handler, unit prog_ext) handler_semantics" where
  "run_collector h ev x reg arg S =
     (case h of
        Basic_perf_sample \<Rightarrow> ebind (arg_dbl arg) (\<lambda>w. Inr (basic_perf_sample w S))
      | Basic_conn_fail \<Rightarrow> ebind (arg_lng arg) (\<lambda>err. Inr (basic_conn_fail err S))
      | Basic_conn_timeout \<Rightarrow> Inr (basic_conn_timeout S)
      | Basic_conn_created \<Rightarrow> Inr (basic_conn_created S)
      | Basic_conn_connecting \<Rightarrow> Inr (basic_conn_connecting x S)
      | Basic_conn_connected \<Rightarrow> Inr (basic_conn_connected x S)
      | Basic_conn_destroyed \<Rightarrow> basic_conn_destroyed x S
      | Basic_send_start \<Rightarrow> Inr (basic_send_start x S)
      | Basic_send_stop \<Rightarrow> Inr (basic_send_stop x S)
      | Basic_recv_start \<Rightarrow> Inr (basic_recv_start x S)
      | Basic_recv_stop \<Rightarrow> basic_recv_stop x S
      | Sess_stat_perf_sample \<Rightarrow> ebind (arg_dbl arg) (\<lambda>w. Inr (sess_stat_perf_sample w S))
      | Sess_stat_sess_created \<Rightarrow> Inr (sess_stat_sess_created x S)
      | Sess_stat_sess_destroyed \<Rightarrow> sess_stat_sess_destroyed x S
      | Sess_stat_conn_connected \<Rightarrow> sess_stat_conn_connected x S
      | Sess_stat_call_done \<Rightarrow> sess_stat_call_done x S
      | Print_send_raw_data \<Rightarrow> print_send_raw_data x S
      | Print_recv_raw_data \<Rightarrow> ebind (arg_bytes arg) (\<lambda>b. print_recv_raw_data x b [] S)
      | Print_recv_data \<Rightarrow> ebind (arg_bytes arg) (\<lambda>b. print_recv_data x b [] S)
      | Print_recv_stop \<Rightarrow> Inr (print_recv_stop x S)
      | Print_call_destroyed \<Rightarrow> Inr (print_call_destroyed x S)
      | _ \<Rightarrow> Inr S)"

section \<open>Handlers of the load generators\<close>

definition run_tick :: "nat \<Rightarrow> psignal \<Rightarrow> tick_semantics" where
  "run_tick n sig h S =
     (case h of
        Make_conn \<Rightarrow> make_conn n sig S
      | Wsess_sess_create \<Rightarrow> wsess_sess_create n sig S
      | Wsesslog_sess_create \<Rightarrow> wsesslog_sess_create n sig S
      | Wsesspage_sess_create \<Rightarrow> page_sess_create n sig S)"

definition run_handler :: "nat \<Rightarrow> psignal \<Rightarrow> (callback_id, handler, unit prog_ext) handler_semantics" where
  "run_handler n sig h ev x reg arg S =
     (case h of
        Rate_done \<Rightarrow> ebind (arg_ptr reg) (\<lambda>g. rate_done (run_tick n sig) g S)
      | Conn_rate_destroyed \<Rightarrow> conn_rate_destroyed S
      | Call_seq_conn_connected \<Rightarrow> call_seq_conn_connected sig x S
      | Call_seq_call_done \<Rightarrow> call_seq_call_done x S
      | Call_seq_call_destroyed \<Rightarrow> call_seq_call_destroyed n sig x S
      | Misc_call_created \<Rightarrow> misc_call_created x S
      | Uri_fixed_set_uri \<Rightarrow> uri_fixed_set_uri x S
      | Uri_wlog_set_uri \<Rightarrow> uri_wlog_set_uri x S
      | Uri_wset_set_uri \<Rightarrow> uri_wset_set_uri x S
      | Session_sess_destroyed \<Rightarrow> session_sess_destroyed n sig x S
      | Session_conn_connected \<Rightarrow> session_conn_connected n sig x S
      | Session_conn_failed \<Rightarrow> session_conn_failed n sig x S
      | Session_conn_timeout \<Rightarrow> session_conn_timeout sig x S
      | Session_call_done \<Rightarrow> session_call_done n sig x S
      | Cookie_call_issue \<Rightarrow> cookie_call_issue x S
      | Cookie_call_recv_hdr \<Rightarrow> ebind (arg_bytes arg) (\<lambda>b. cookie_call_recv_hdr x b S)
      | Wsess_call_destroyed \<Rightarrow> wsess_call_destroyed n sig x S
      | Wsess_sess_destroyed \<Rightarrow> wsess_sess_destroyed x S
      | Wsesslog_sess_destroyed \<Rightarrow> wsesslog_sess_destroyed x S
      | Wsesslog_call_destroyed \<Rightarrow> wsesslog_call_destroyed n sig x S
      | Wsesspage_call_recv_hdr \<Rightarrow> ebind (arg_bytes arg) (\<lambda>b. page_call_recv_hdr n sig x b S)
      | Wsesspage_call_recv_data \<Rightarrow> ebind (arg_bytes arg) (\<lambda>b. page_call_recv_data n sig x b S)
      | Wsesspage_sess_destroyed \<Rightarrow> page_sess_destroyed x S
      | Wsesspage_call_destroyed \<Rightarrow> page_call_destroyed n sig x S
      | _ \<Rightarrow> run_collector h ev x reg arg S)"

primrec program_signal :: "nat \<Rightarrow> psignal" where
  "program_signal 0 = (\<lambda>ev x arg S. Inl Out_of_fuel)"
| "program_signal (Suc n) = event_signal (run_handler n (program_signal n))"

section \<open>Timeout callbacks\<close>

definition rate_interval :: real where
  "rate_interval = 5"

text \<open>
  \<open>perf_sample\<close> of \<^verbatim>\<open>httperf.c\<close>.  The quotient is a finite number only if the clock has moved
  on since the last sample.
\<close>

definition perf_sample :: "psignal \<Rightarrow> prog \<Rightarrow> prog result" where
  "perf_sample sig S =
     (let (t, S) = timer_now S in
      if t = perf_sample_start S then Inl Undefined
      else
        ebind (sig EV_PERF_SAMPLE 0 (Dbl (1 / (t - perf_sample_start S))) S) (\<lambda>S.
        let (t, S) = timer_now S;
            (w, S) = timer_schedule Perf_sample 0 rate_interval (S\<lparr>perf_sample_start := t\<rparr>)
        in if w = None then Inl (Exit 1) else Inr S))"

definition run_callback :: "nat \<Rightarrow> psignal \<Rightarrow> (callback_id, (handler, unit prog_ext) core_ext) callback" where
  "run_callback n sig f t x S =
     (case f of
        Conn_timeout \<Rightarrow> conn_timeout n sig x S
      | Core_runtime_timer \<Rightarrow> Inr (core_runtime_timer S)
      | Rate_tick \<Rightarrow> rate_tick n (run_tick n sig) x S
      | One_second_timer \<Rightarrow> Inr (basic_one_second_timer S)
      | Perf_sample \<Rightarrow> perf_sample sig S
      | Wsess_think_time_expired \<Rightarrow> wsess_think_time_expired n sig x S
      | Wsesslog_think_time_expired \<Rightarrow> wsesslog_think_time_expired n sig x S
      | Wsesspage_think_time_expired \<Rightarrow> page_think_time_expired n sig x S)"

text \<open>The main loop of the program: at most \<open>m\<close> rounds.\<close>

definition program_loop :: "nat \<Rightarrow> nat \<Rightarrow> prog \<Rightarrow> prog result" where
  "program_loop m n = core_loop m n (run_callback n (program_signal n)) (program_signal n)"

end
