(* ===== verification/Program_Frame.thy ===== *)
theory Program_Frame
  imports Program Engine_Frame
begin

text \<open>
  What the modules leave alone.  A handler changes the data of the core through the functions
  of the engine, its own variables and private areas, and the rings of the sessions through
  \<open>ring_put\<close> and \<open>ring_take\<close>; never the table of handlers, and the timers only through
  \<^verbatim>\<open>timer.c\<close>.  The locale \<open>module_inv\<close> proves once, for every function of the generators
  and collectors, that it keeps an invariant with these closure properties; induction on the
  nesting depth then gives it for the signal of the whole program.
\<close>

section \<open>Steps inside a module\<close>

definition quiet :: "prog \<Rightarrow> prog \<Rightarrow> bool" where
  "quiet S S' \<longleftrightarrow>
     tmr S' = tmr S \<and> passive_timers S' = passive_timers S \<and> active_timers S' = active_timers S
     \<and> persistent_timers S' = persistent_timers S \<and> now S' = now S \<and> use_timer_cache S' = use_timer_cache S
     \<and> mallocs S \<le> mallocs S' \<and> action S' = action S
     \<and> (\<forall>x. sn_sess (sess_priv S' x) = sn_sess (sess_priv S x))
     \<and> (param S' = param S \<or> param S' = (param S)\<lparr>num_conns := 0\<rparr>)"

named_theorems quiet_intro

lemma internal_quiet: "internal S T \<Longrightarrow> quiet S T"
  by (simp add: internal_def quiet_def)

lemma quiet_priv [quiet_intro]:
  "quiet S (upd_conn_priv a f S)" "quiet S (upd_call_priv c g S)"
  "quiet S (upd_sess_priv x (\<lambda>p. p\<lparr>ck_sess := ck p\<rparr>) S)"
  "quiet S (upd_cs a h1 S)" "quiet S (upd_ws x h2 S)" "quiet S (upd_wl x h3 S)" "quiet S (upd_pg x h4 S)"
  "quiet S (upd_page c h5 S)" "quiet S (upd_pr c h6 S)" "quiet S (upd_ss x h7 S)"
  by (simp_all add: quiet_def upd_cs_def upd_ws_def upd_wl_def upd_pg_def upd_page_def upd_pr_def upd_ss_def upd_priv_defs)

lemma quiet_vars [quiet_intro]:
  "quiet S (upd_rg g f S)" "quiet S (upd_basic f1 S)" "quiet S (upd_st f2 S)" "quiet S (print_text s S)"
  "quiet S (core_exit S)" "quiet S (core_runtime_timer S)" "quiet S (wlog_rewind S)" "quiet S (wset_next_file S)"
  by (simp_all add: quiet_def upd_rg_def upd_basic_def upd_st_def print_text_def core_exit_def core_runtime_timer_def
      wlog_rewind_def wset_next_file_def Let_def)

lemma quiet_fields [quiet_intro]:
  "quiet S (S\<lparr>num_conns_generated := a\<rparr>)" "quiet S (S\<lparr>num_conns_destroyed := a\<rparr>)" "quiet S (S\<lparr>num_conns_open := a\<rparr>)"
  "quiet S (S\<lparr>num_conns_generated := a, num_conns_destroyed := b, paused := p\<rparr>)"
  "quiet S (S\<lparr>num_conns_open := a, paused := p\<rparr>)"
  "quiet S (S\<lparr>wsess_generated := a\<rparr>)" "quiet S (S\<lparr>wsess_destroyed := a\<rparr>)"
  "quiet S (S\<lparr>wsesslog_generated := a\<rparr>)" "quiet S (S\<lparr>wsesslog_destroyed := a\<rparr>)"
  "quiet S (S\<lparr>wsesspage_generated := a\<rparr>)" "quiet S (S\<lparr>wsesspage_destroyed := a\<rparr>)"
  "quiet S (S\<lparr>next_session_template := m\<rparr>)" "quiet S (S\<lparr>basic := bs\<rparr>)" "quiet S (S\<lparr>perf_sample_start := t\<rparr>)"
  "quiet S (S\<lparr>wlog_current := m\<rparr>)" "quiet S (S\<lparr>current_rate := m\<rparr>)" "quiet S (S\<lparr>duration_in_current_rate := t\<rparr>)"
  by (simp_all add: quiet_def)

lemma internal_append_header [internal_intro]: "internal S (snd (call_append_request_header c h k S))"
  by (simp add: call_append_request_header_def Let_def internal_refl internal_upd)

text \<open>The two operations of a ring keep its invariant.\<close>

lemma ring_put_inv: "ring_put m c ci = Inr (b, ci') \<Longrightarrow> ring_inv m ci \<Longrightarrow> ring_inv m ci'"
  using ring_put_room [of m ci c] ring_put_full [of m ci c] by (force simp: ring_inv_def)

lemma ring_take_inv: "ring_take ci = Inr (d, ci') \<Longrightarrow> ring_inv m ci \<Longrightarrow> ring_inv m ci'"
proof -
  assume run: "ring_take ci = Inr (d, ci')" and inv: "ring_inv m ci"
  have "0 < unat (num_pending ci)" using run by (auto simp: ring_take_def Inr_iff word_less_nat_alt split: if_splits)
  then obtain c cs where "pending_calls ci = c # cs" by (metis pending_calls_length length_greater_0_conv neq_Nil_conv)
  then show "ring_inv m ci'" using ring_take_first [OF inv] run by fastforce
qed

section \<open>Invariants of the modules\<close>

locale quiet_inv = engine_inv sig I for sig :: psignal and I :: "prog \<Rightarrow> bool" +
  assumes I_quiet: "I S \<Longrightarrow> quiet S T \<Longrightarrow> I T"
begin

lemmas I_step = quiet_intro [THEN I_quiet [rotated]]

lemma I_module_simps [simp]:
  "I S \<Longrightarrow> I (upd_conn_priv a f S)" "I S \<Longrightarrow> I (upd_call_priv c g S)"
  "I S \<Longrightarrow> I (upd_sess_priv x (\<lambda>p. p\<lparr>ck_sess := ck p\<rparr>) S)"
  "I S \<Longrightarrow> I (upd_cs a h1 S)" "I S \<Longrightarrow> I (upd_ws x h2 S)" "I S \<Longrightarrow> I (upd_wl x h3 S)" "I S \<Longrightarrow> I (upd_pg x h4 S)"
  "I S \<Longrightarrow> I (upd_page c h5 S)" "I S \<Longrightarrow> I (upd_pr c h6 S)" "I S \<Longrightarrow> I (upd_ss x h7 S)"
  "I S \<Longrightarrow> I (upd_rg g0 f0 S)" "I S \<Longrightarrow> I (upd_basic f1 S)" "I S \<Longrightarrow> I (upd_st f2 S)" "I S \<Longrightarrow> I (print_text s S)"
  "I S \<Longrightarrow> I (core_exit S)" "I S \<Longrightarrow> I (core_runtime_timer S)" "I S \<Longrightarrow> I (wlog_rewind S)" "I S \<Longrightarrow> I (wset_next_file S)"
  "I S \<Longrightarrow> I (S\<lparr>num_conns_generated := na\<rparr>)" "I S \<Longrightarrow> I (S\<lparr>num_conns_destroyed := na\<rparr>)" "I S \<Longrightarrow> I (S\<lparr>num_conns_open := na\<rparr>)"
  "I S \<Longrightarrow> I (S\<lparr>num_conns_generated := na, num_conns_destroyed := nb, paused := pa\<rparr>)"
  "I S \<Longrightarrow> I (S\<lparr>num_conns_open := na, paused := pa\<rparr>)"
  "I S \<Longrightarrow> I (S\<lparr>wsess_generated := na\<rparr>)" "I S \<Longrightarrow> I (S\<lparr>wsess_destroyed := na\<rparr>)"
  "I S \<Longrightarrow> I (S\<lparr>wsesslog_generated := na\<rparr>)" "I S \<Longrightarrow> I (S\<lparr>wsesslog_destroyed := na\<rparr>)"
  "I S \<Longrightarrow> I (S\<lparr>wsesspage_generated := na\<rparr>)" "I S \<Longrightarrow> I (S\<lparr>wsesspage_destroyed := na\<rparr>)"
  "I S \<Longrightarrow> I (S\<lparr>next_session_template := m\<rparr>)" "I S \<Longrightarrow> I (S\<lparr>basic := bs\<rparr>)" "I S \<Longrightarrow> I (S\<lparr>perf_sample_start := t\<rparr>)"
  "I S \<Longrightarrow> I (S\<lparr>wlog_current := m\<rparr>)" "I S \<Longrightarrow> I (S\<lparr>current_rate := m\<rparr>)" "I S \<Longrightarrow> I (S\<lparr>duration_in_current_rate := t\<rparr>)"
  by (erule I_quiet; rule quiet_intro)+

lemma I_append_header [simp]: "I S \<Longrightarrow> I (snd (call_append_request_header c h k S))"
  by (erule I_internal) (rule internal_append_header)

lemma efold_k:
  "I S \<Longrightarrow> (\<And>x T. x \<in> set xs \<Longrightarrow> I T \<Longrightarrow> returns I (f x T)) \<Longrightarrow> (\<And>T. I T \<Longrightarrow> K T) \<Longrightarrow> returns K (efold f xs S)"
  by (rule returns_weaken [where Q = I]) (auto intro!: returns_efold)

lemma update_k [intro!]: "(\<And>ys. K ys) \<Longrightarrow> returns K (update_c xs i x)"
  by (simp add: update_c_def)

subsection \<open>Collectors\<close>

lemma schedule_snd: "I S \<Longrightarrow> I (snd (timer_schedule f x d S))"
  by (cases "timer_schedule f x d S") (auto dest: I_results)

lemma basic_I [simp]:
  "I S \<Longrightarrow> I (basic_perf_sample w S)" "I S \<Longrightarrow> I (basic_conn_fail err S)" "I S \<Longrightarrow> I (basic_conn_timeout S)"
  "I S \<Longrightarrow> I (basic_conn_created S)" "I S \<Longrightarrow> I (basic_conn_connecting a S)" "I S \<Longrightarrow> I (basic_conn_connected a S)"
  "I S \<Longrightarrow> I (basic_send_start c S)" "I S \<Longrightarrow> I (basic_send_stop c S)" "I S \<Longrightarrow> I (basic_recv_start c S)"
  by (auto simp: basic_perf_sample_def basic_conn_fail_def basic_conn_timeout_def basic_conn_created_def
      basic_conn_connecting_def basic_conn_connected_def basic_send_start_def basic_send_stop_def basic_recv_start_def
      Let_def split: prod.split dest: I_results)

lemma one_second_I [simp]: "I S \<Longrightarrow> I (basic_one_second_timer S)"
proof -
  assume "I S"
  then have "I (snd (timer_now S))" by (cases "timer_now S") (auto dest: I_results)
  then show ?thesis by (simp add: basic_one_second_timer_def split_def Let_def schedule_snd)
qed

lemma basic_k [intro!]:
  "I S \<Longrightarrow> (\<And>T. I T \<Longrightarrow> K T) \<Longrightarrow> returns K (basic_conn_destroyed a S)"
  "I S \<Longrightarrow> (\<And>T. I T \<Longrightarrow> K T) \<Longrightarrow> returns K (basic_recv_stop c S)"
  by (auto simp: basic_conn_destroyed_def basic_recv_stop_def Let_def split: prod.split dest: I_results
      intro!: any_k [where m = "count_lifetime t b" for t b] any_k [where m = "count_reply q t b" for q t b])

lemma grow_hist_k [intro!]: "I S \<Longrightarrow> (\<And>T. I T \<Longrightarrow> K T) \<Longrightarrow> returns K (grow_hist k S)"
  by (auto simp: grow_hist_def Let_def split: prod.split option.split dest: I_results(6))

lemma sess_stat_I [simp]: "I S \<Longrightarrow> I (sess_stat_perf_sample w S)" "I S \<Longrightarrow> I (sess_stat_sess_created x S)"
  by (auto simp: sess_stat_perf_sample_def sess_stat_sess_created_def split: prod.split dest: I_results)

lemma sess_stat_k [intro!]:
  "I S \<Longrightarrow> (\<And>T. I T \<Longrightarrow> K T) \<Longrightarrow> returns K (sess_stat_sess_destroyed x S)"
  "I S \<Longrightarrow> (\<And>T. I T \<Longrightarrow> K T) \<Longrightarrow> returns K (sess_stat_conn_connected a S)"
  "I S \<Longrightarrow> (\<And>T. I T \<Longrightarrow> K T) \<Longrightarrow> returns K (sess_stat_call_done c S)"
  by (auto simp: sess_stat_sess_destroyed_def sess_stat_conn_connected_def sess_stat_call_done_def Let_def
      split: prod.split dest: I_results)

lemma buffer_line_k [intro!]: "I S \<Longrightarrow> (\<And>T. I T \<Longrightarrow> K T) \<Longrightarrow> returns K (buffer_line c s S)"
  by (auto simp: buffer_line_def Let_def split: prod.split option.split dest: I_results(6))

lemma print_buf_k [intro!]: "I S \<Longrightarrow> (\<And>T. I T \<Longrightarrow> K T) \<Longrightarrow> returns K (print_buf pre c buf beyond S)"
proof (induction pre c buf beyond S rule: print_buf.induct)
  case (1 pre c buf beyond S)
  then show ?case by (subst print_buf.simps) (auto simp: print_line_def split: option.split)
qed

lemma print_I [simp]: "I S \<Longrightarrow> I (flush_print_buf pre c S)" "I S \<Longrightarrow> I (print_recv_stop c S)" "I S \<Longrightarrow> I (print_call_destroyed c S)"
  by (auto simp: flush_print_buf_def print_recv_stop_def print_call_destroyed_def Let_def)

lemma print_k [intro!]:
  "I S \<Longrightarrow> (\<And>T. I T \<Longrightarrow> K T) \<Longrightarrow> returns K (print_send_raw_data c S)"
  "I S \<Longrightarrow> (\<And>T. I T \<Longrightarrow> K T) \<Longrightarrow> returns K (print_recv_raw_data c b beyond S)"
  "I S \<Longrightarrow> (\<And>T. I T \<Longrightarrow> K T) \<Longrightarrow> returns K (print_recv_data c b beyond S)"
  by (auto simp: print_send_raw_data_def print_call_request_def print_recv_raw_data_def print_recv_data_def
      print_reply_hdr_def Let_def intro!: efold_k split: option.split)

lemma arg_k [intro!]:
  "(\<And>x. K1 x) \<Longrightarrow> returns K1 (arg_dbl a)" "(\<And>x. K2 x) \<Longrightarrow> returns K2 (arg_lng a)"
  "(\<And>x. K3 x) \<Longrightarrow> returns K3 (arg_ptr a)" "(\<And>x. K4 x) \<Longrightarrow> returns K4 (arg_bytes a)"
  by (simp_all add: arg_dbl_def arg_lng_def arg_ptr_def arg_bytes_def split: any_type.split)

lemma run_collector_k [intro!]: "I S \<Longrightarrow> (\<And>T. I T \<Longrightarrow> K T) \<Longrightarrow> returns K (run_collector h ev x reg arg S)"
  by (cases h) (auto simp: run_collector_def)

end

locale module_inv = quiet_inv sig I + object_inv sig I for sig :: psignal and I :: "prog \<Rightarrow> bool" +
  assumes I_ring: "I S \<Longrightarrow> (ring_inv (max_piped (param S)) (ci_of x i S) \<Longrightarrow> ring_inv (max_piped (param S)) (f (ci_of x i S)))
      \<Longrightarrow> I (upd_ci x i f S)"
begin

text \<open>Updates of a ring that do not touch its cells and indices.\<close>

lemma I_ci_simps [simp]:
  "I S \<Longrightarrow> I (upd_ci x i (\<lambda>ci. ci\<lparr>ci_conn := p\<rparr>) S)"
  "I S \<Longrightarrow> I (upd_ci x i (\<lambda>ci. ci\<lparr>is_connected := b\<rparr>) S)"
  "I S \<Longrightarrow> I (upd_ci x i (\<lambda>ci. ci\<lparr>is_successful := b\<rparr>) S)"
  "I S \<Longrightarrow> I (upd_ci x i (\<lambda>ci. ci\<lparr>num_sent := num_sent ci + 1\<rparr>) S)"
  "I S \<Longrightarrow> I (upd_ci x i (\<lambda>ci. ci\<lparr>is_connected := b, is_successful := b', num_sent := k\<rparr>) S)"
  by (erule I_ring; simp add: ring_inv_def)+

end
section \<open>Functions of the modules\<close>

context module_inv
begin

lemma issue_call_k [intro!]: "I S \<Longrightarrow> (\<And>T. I T \<Longrightarrow> K T) \<Longrightarrow> returns K (issue_call sig a S)"
  by (auto simp: issue_call_def Let_def split: option.split)

lemma issue_calls_k [intro!]: "I S \<Longrightarrow> (\<And>T. I T \<Longrightarrow> K T) \<Longrightarrow> returns K (issue_calls sig a S)"
  unfolding issue_calls_def by (rule efold_k) auto

lemma call_seq_k [intro!]:
  "I S \<Longrightarrow> (\<And>T. I T \<Longrightarrow> K T) \<Longrightarrow> returns K (call_seq_conn_connected sig a S)"
  "I S \<Longrightarrow> (\<And>T. I T \<Longrightarrow> K T) \<Longrightarrow> returns K (call_seq_call_done c S)"
  "I S \<Longrightarrow> (\<And>T. I T \<Longrightarrow> K T) \<Longrightarrow> returns K (call_seq_call_destroyed n sig c S)"
  by (auto simp: call_seq_conn_connected_def call_seq_call_done_def call_seq_call_destroyed_def Let_def split: option.split)

subsection \<open>Sessions\<close>

lemma create_conn_k [intro!]: "I S \<Longrightarrow> (\<And>T. I T \<Longrightarrow> K T) \<Longrightarrow> returns K (create_conn n sig x i S)"
  by (auto simp: create_conn_def Let_def split: option.split)

lemma send_loop_k [intro!]: "I S \<Longrightarrow> (\<And>T. I T \<Longrightarrow> K T) \<Longrightarrow> returns K (send_loop n sig x i k rd S)"
  by (induction n arbitrary: k rd S) auto

lemma send_calls_k [intro!]: "I S \<Longrightarrow> (\<And>T. I T \<Longrightarrow> K T) \<Longrightarrow> returns K (send_calls n sig x i S)"
  by (auto simp: send_calls_def Let_def)

lemma put_call_k [intro!]: "I S \<Longrightarrow> (\<And>i T. I T \<Longrightarrow> K (i, T)) \<Longrightarrow> returns K (put_call x is c S)"
proof (induction "is" arbitrary: S)
  case (Cons i "is")
  have "I (upd_ci x i (\<lambda>_. ci) S)" if "ring_put (max_piped (param S)) c (ci_of x i S) = Inr (b, ci)" for b ci
    by (rule I_ring [OF Cons.prems(1)]) (rule ring_put_inv [OF that])
  then show ?case using Cons by (auto intro!: any_k [where m = "ring_put m c ci" for m ci])
qed simp

lemma session_issue_call_k [intro!]: "I S \<Longrightarrow> (\<And>T. I T \<Longrightarrow> K T) \<Longrightarrow> returns K (session_issue_call n sig x c S)"
  by (auto simp: session_issue_call_def Let_def)

lemma drop_pending_k [intro!]: "I S \<Longrightarrow> (\<And>T. I T \<Longrightarrow> K T) \<Longrightarrow> returns K (drop_pending n sig x i j rd S)"
  by (induction n arbitrary: j rd S) auto

lemma take_call_k [intro!]: "I S \<Longrightarrow> (\<And>T. I T \<Longrightarrow> K T) \<Longrightarrow> returns K (take_call x i c S)"
proof -
  assume S: "I S" and K: "\<And>T. I T \<Longrightarrow> K T"
  have "I (upd_ci x i (\<lambda>_. ci\<lparr>num_sent := k\<rparr>) S)" if "ring_take (ci_of x i S) = Inr (d, ci)" for d ci k
    by (rule I_ring [OF S]) (simp add: ring_take_inv [OF that])
  then show ?thesis using K by (auto simp: take_call_def intro!: any_k [where m = "ring_take ci" for ci])
qed

lemma session_k [intro!]:
  "I S \<Longrightarrow> (\<And>T. I T \<Longrightarrow> K T) \<Longrightarrow> returns K (session_sess_destroyed n sig x S)"
  "I S \<Longrightarrow> (\<And>T. I T \<Longrightarrow> K T) \<Longrightarrow> returns K (session_conn_connected n sig a S)"
  "I S \<Longrightarrow> (\<And>T. I T \<Longrightarrow> K T) \<Longrightarrow> returns K (session_conn_failed n sig a S)"
  "I S \<Longrightarrow> (\<And>T. I T \<Longrightarrow> K T) \<Longrightarrow> returns K (session_conn_timeout sig a S)"
  "I S \<Longrightarrow> (\<And>T. I T \<Longrightarrow> K T) \<Longrightarrow> returns K (session_call_done n sig c S)"
  by (auto simp: session_sess_destroyed_def session_conn_connected_def session_conn_failed_def session_conn_timeout_def
      session_call_done_def intro!: efold_k split: option.split)

lemma cookie_k [intro!]:
  "I S \<Longrightarrow> (\<And>T. I T \<Longrightarrow> K T) \<Longrightarrow> returns K (cookie_call_issue c S)"
  "I S \<Longrightarrow> (\<And>T. I T \<Longrightarrow> K T) \<Longrightarrow> returns K (cookie_call_recv_hdr c h S)"
  by (auto simp: cookie_call_issue_def cookie_call_recv_hdr_def Let_def)

end

context module_inv
begin

subsection \<open>Arrival processes\<close>

lemma next_interarrival_k [intro!]:
  "I S \<Longrightarrow> (\<And>t T. I T \<Longrightarrow> K (t, T)) \<Longrightarrow> returns K (next_interarrival d g S)"
  by (auto simp: next_interarrival_def next_arrival_time_det_def next_arrival_time_uniform_def next_arrival_time_exp_def
      next_arrival_time_variable_def erand48_def Let_def split: dist_type.split)

lemma make_conn_k [intro!]: "I S \<Longrightarrow> (\<And>r T. I T \<Longrightarrow> K (r, T)) \<Longrightarrow> returns K (make_conn n sig S)"
  by (auto simp: make_conn_def Let_def split: option.split)

lemma conn_rate_destroyed_k [intro!]: "I S \<Longrightarrow> (\<And>T. I T \<Longrightarrow> K T) \<Longrightarrow> returns K (conn_rate_destroyed S)"
  by (auto simp: conn_rate_destroyed_def Let_def)

subsection \<open>Header lines and URIs\<close>

lemma misc_k [intro!]: "I S \<Longrightarrow> (\<And>T. I T \<Longrightarrow> K T) \<Longrightarrow> returns K (misc_call_created c S)"
  by (auto simp: misc_call_created_def Let_def)

lemma wlog_loop_k [intro!]: "I S \<Longrightarrow> (\<And>T. I T \<Longrightarrow> K T) \<Longrightarrow> returns K (wlog_loop c w S)"
proof (induction c w S rule: wlog_loop.induct)
  case (1 c w S)
  then show ?case
    by (subst wlog_loop.simps) (auto simp: Let_def split: sum.split)
qed

lemma uri_k [intro!]:
  "I S \<Longrightarrow> (\<And>T. I T \<Longrightarrow> K T) \<Longrightarrow> returns K (uri_fixed_set_uri c S)"
  "I S \<Longrightarrow> (\<And>T. I T \<Longrightarrow> K T) \<Longrightarrow> returns K (uri_wlog_set_uri c S)"
  "I S \<Longrightarrow> (\<And>T. I T \<Longrightarrow> K T) \<Longrightarrow> returns K (uri_wset_set_uri c S)"
  by (auto simp: uri_fixed_set_uri_def uri_wlog_set_uri_def uri_wset_set_uri_def Let_def
      intro!: any_k [where m = "wset_path r k j l acc" for r k j l acc])

subsection \<open>Session workloads\<close>

lemma wsess_issue_k [intro!]: "I S \<Longrightarrow> (\<And>T. I T \<Longrightarrow> K T) \<Longrightarrow> returns K (wsess_issue k n sig x S)"
  by (induction k arbitrary: S) (auto split: option.split)

lemma wsess_k [intro!]:
  "I S \<Longrightarrow> (\<And>T. I T \<Longrightarrow> K T) \<Longrightarrow> returns K (wsess_issue_calls n sig x S)"
  "I S \<Longrightarrow> (\<And>T. I T \<Longrightarrow> K T) \<Longrightarrow> returns K (wsess_sess_destroyed x S)"
  by (auto simp: wsess_issue_calls_def wsess_sess_destroyed_def Let_def split: option.split)

lemma wsess_calls_k [intro!]:
  "I S \<Longrightarrow> (\<And>T. I T \<Longrightarrow> K T) \<Longrightarrow> returns K (wsess_think_time_expired n sig x S)"
  "I S \<Longrightarrow> (\<And>T. I T \<Longrightarrow> K T) \<Longrightarrow> returns K (wsess_call_destroyed n sig c S)"
  "I S \<Longrightarrow> (\<And>r T. I T \<Longrightarrow> R (r, T)) \<Longrightarrow> returns R (wsess_sess_create n sig S)"
  by (auto simp: wsess_think_time_expired_def wsess_call_destroyed_def wsess_sess_create_def Let_def
      split: option.split prod.split dest: I_results)

lemma fill_request_k [intro!]: "I S \<Longrightarrow> (\<And>T. I T \<Longrightarrow> K T) \<Longrightarrow> returns K (fill_request r c S)"
  by (auto simp: fill_request_def Let_def)

lemma wsesslog_issue_k [intro!]: "I S \<Longrightarrow> (\<And>T. I T \<Longrightarrow> K T) \<Longrightarrow> returns K (wsesslog_issue k n sig x S)"
  by (induction k arbitrary: S) (auto split: option.split list.split)

lemma wsesslog_k [intro!]:
  "I S \<Longrightarrow> (\<And>T. I T \<Longrightarrow> K T) \<Longrightarrow> returns K (wsesslog_issue_calls n sig x S)"
  "I S \<Longrightarrow> (\<And>T. I T \<Longrightarrow> K T) \<Longrightarrow> returns K (wsesslog_sess_destroyed x S)"
  "I S \<Longrightarrow> (\<And>T. I T \<Longrightarrow> K T) \<Longrightarrow> returns K (prepare_for_next_burst x S)"
  by (auto simp: wsesslog_issue_calls_def wsesslog_sess_destroyed_def prepare_for_next_burst_def Let_def
      split: option.split list.split prod.split dest: I_results intro!: any_k [where m = "wsesslog_to_create y U" for y U])

lemma wsesslog_calls_k [intro!]:
  "I S \<Longrightarrow> (\<And>T. I T \<Longrightarrow> K T) \<Longrightarrow> returns K (wsesslog_think_time_expired n sig x S)"
  "I S \<Longrightarrow> (\<And>T. I T \<Longrightarrow> K T) \<Longrightarrow> returns K (wsesslog_call_destroyed n sig c S)"
  "I S \<Longrightarrow> (\<And>r T. I T \<Longrightarrow> R (r, T)) \<Longrightarrow> returns R (wsesslog_sess_create n sig S)"
  by (auto simp: wsesslog_think_time_expired_def wsesslog_call_destroyed_def wsesslog_sess_create_def Let_def
      split: option.split list.split)

lemma take_uri_I [simp]: "I S \<Longrightarrow> I (take_uri x c S)"
  by (simp add: take_uri_def Let_def)

lemma page_issue_k [intro!]: "I S \<Longrightarrow> (\<And>T. I T \<Longrightarrow> K T) \<Longrightarrow> returns K (page_issue k e n sig x S)"
  by (induction k arbitrary: S) (auto split: option.split)

lemma page_issue_calls_k [intro!]: "I S \<Longrightarrow> (\<And>T. I T \<Longrightarrow> K T) \<Longrightarrow> returns K (page_issue_calls n sig x S)"
  by (auto simp: page_issue_calls_def simp del: page_issue.simps)

lemma fetch_uri_k [intro!]: "I S \<Longrightarrow> (\<And>T. I T \<Longrightarrow> K T) \<Longrightarrow> returns K (fetch_uri n sig x u S)"
  by (auto simp: fetch_uri_def split: option.split)

lemma html_char_k [intro!]: "I S \<Longrightarrow> (\<And>T. I T \<Longrightarrow> K T) \<Longrightarrow> returns K (html_char n sig x c ch S)"
  by (auto simp: html_char_def Let_def intro!: any_k [where m = "html_step h p" for h p])

lemma page_k [intro!]:
  "I S \<Longrightarrow> (\<And>T. I T \<Longrightarrow> K T) \<Longrightarrow> returns K (page_call_recv_hdr n sig c h S)"
  "I S \<Longrightarrow> (\<And>T. I T \<Longrightarrow> K T) \<Longrightarrow> returns K (page_call_recv_data n sig c ds S)"
  "I S \<Longrightarrow> (\<And>T. I T \<Longrightarrow> K T) \<Longrightarrow> returns K (page_think_time_expired n sig x S)"
  "I S \<Longrightarrow> (\<And>T. I T \<Longrightarrow> K T) \<Longrightarrow> returns K (page_call_destroyed n sig c S)"
  "I S \<Longrightarrow> (\<And>T. I T \<Longrightarrow> K T) \<Longrightarrow> returns K (page_sess_destroyed x S)"
  "I S \<Longrightarrow> (\<And>r T. I T \<Longrightarrow> R (r, T)) \<Longrightarrow> returns R (page_sess_create n sig S)"
  by (auto simp: page_call_recv_hdr_def page_call_recv_data_def page_think_time_expired_def page_call_destroyed_def
      page_sess_destroyed_def page_sess_create_def Let_def intro!: efold_k split: option.split prod.split dest: I_results)

end

context module_inv
begin

subsection \<open>The program\<close>

lemma run_tick_k [intro!]: "I S \<Longrightarrow> (\<And>r T. I T \<Longrightarrow> K (r, T)) \<Longrightarrow> returns K (run_tick n sig h S)"
  by (auto simp: run_tick_def split: tick_id.split)

lemma call_tick_k [intro!]: "I S \<Longrightarrow> (\<And>T. I T \<Longrightarrow> K T) \<Longrightarrow> returns K (call_tick (run_tick n sig) g S)"
  by (auto simp: call_tick_def)

lemma tick_loop_k [intro!]: "I S \<Longrightarrow> (\<And>T. I T \<Longrightarrow> K T) \<Longrightarrow> returns K (tick_loop k (run_tick n sig) g t S)"
  by (induction k arbitrary: S) (auto simp: Let_def split: prod.split dest: I_results)

lemma rate_k [intro!]:
  "I S \<Longrightarrow> (\<And>T. I T \<Longrightarrow> K T) \<Longrightarrow> returns K (rate_tick k (run_tick n sig) g S)"
  "I S \<Longrightarrow> (\<And>T. I T \<Longrightarrow> K T) \<Longrightarrow> returns K (rate_done (run_tick n sig) g S)"
  by (auto simp: rate_tick_def rate_done_def Let_def split: prod.split dest: I_results)

lemma run_handler_k [intro!]: "I S \<Longrightarrow> (\<And>T. I T \<Longrightarrow> K T) \<Longrightarrow> returns K (run_handler n sig h ev x reg arg S)"
  by (cases h) (auto simp: run_handler_def)

lemma perf_sample_k [intro!]: "I S \<Longrightarrow> (\<And>T. I T \<Longrightarrow> K T) \<Longrightarrow> returns K (perf_sample sig S)"
proof -
  assume S: "I S" and K: "\<And>T. I T \<Longrightarrow> K T"
  have again: "returns K (case timer_now T of (t, T) \<Rightarrow> case timer_schedule Perf_sample 0 rate_interval (T\<lparr>perf_sample_start := t\<rparr>) of
      (w, T) \<Rightarrow> if w = None then Inl (Exit 1) else Inr T)" if "I T" for T
    by (rule now_k [OF that], unfold prod.case, rule schedule_k) (simp_all add: K)
  show ?thesis
    unfolding perf_sample_def Let_def
    by (rule now_k [OF S], unfold prod.case, rule returns_if) (simp, subst returns_bind, rule sig_k, assumption, erule again)
qed

lemma run_callback_k [intro!]: "I S \<Longrightarrow> (\<And>T. I T \<Longrightarrow> K T) \<Longrightarrow> returns K (run_callback n sig f t x S)"
  by (cases f) (auto simp: run_callback_def)

end

end
