(* ===== verification/Program_Inv.thy ===== *)
theory Program_Inv
  imports Program_Frame
begin

text \<open>
  Invariants of the whole program.  A property that survives the steps inside the core and the
  modules, the timer functions, the creation of objects and the ring operations survives every
  handler at every nesting depth (locale \<open>closed_inv\<close>).  Three of them are followed through
  the main loop: the table of event handlers never changes, the timer pool stays well-formed,
  and the ring buffers of all session connections stay bounded queues.
\<close>

section \<open>Invariants of the signal\<close>

locale closed_inv =
  fixes I :: "prog \<Rightarrow> bool"
  assumes C_internal: "I S \<Longrightarrow> internal S T \<Longrightarrow> I T"
    and C_schedule: "I S \<Longrightarrow> timer_schedule f x d S = (w, T) \<Longrightarrow> I T"
    and C_cancel: "I S \<Longrightarrow> timer_cancel tm S = Inr T \<Longrightarrow> I T"
    and C_clear: "I S \<Longrightarrow> I (clear_object t a S)"
    and C_quiet: "I S \<Longrightarrow> quiet S T \<Longrightarrow> I T"
    and C_ring: "I S \<Longrightarrow> (ring_inv (max_piped (param S)) (ci_of x i S) \<Longrightarrow> ring_inv (max_piped (param S)) (g (ci_of x i S)))
      \<Longrightarrow> I (upd_ci x i g S)"
begin

lemma closed_module: "(\<And>S T ev x arg. I S \<Longrightarrow> sig ev x arg S = Inr T \<Longrightarrow> I T) \<Longrightarrow> module_inv sig I"
  by unfold_locales (blast intro: C_internal C_schedule C_cancel C_clear C_quiet C_ring)+

lemma event_signal_keeps:
  assumes "module_inv sig I" "I S" "event_signal (run_handler n sig) ev x arg S = Inr T"
  shows "I T"
proof -
  have "returns I (event_signal (run_handler n sig) ev x arg S)"
    unfolding event_signal_def
    by (rule returns_efold) (use assms(2) in \<open>auto simp: nth_c_def split: prod.split intro!: module_inv.run_handler_k [OF assms(1)]\<close>)
  then show ?thesis using assms(3) by (simp add: returns_def)
qed

lemma program_signal_keeps: "I S \<Longrightarrow> program_signal n ev x arg S = Inr T \<Longrightarrow> I T"
proof (induction n arbitrary: ev x arg S T)
  case (Suc n)
  have "module_inv (program_signal n) I" by (rule closed_module) (rule Suc.IH)
  then show ?case using event_signal_keeps Suc.prems by simp
qed simp

end

sublocale closed_inv \<subseteq> program: module_inv "program_signal n" I for n
  by (rule closed_module) (rule program_signal_keeps)

text \<open>Invariants that do not speak of the timers survive the main loop, too.\<close>

locale closed_loop_inv = closed_inv +
  assumes C_timers: "I S \<Longrightarrow> tstate.more T = tstate.more S \<Longrightarrow> I T"

sublocale closed_loop_inv \<subseteq> main: loop_inv "program_signal n" I "run_callback n (program_signal n)" for n
proof
  show "I S \<Longrightarrow> tstate.more T = tstate.more S \<Longrightarrow> I T" for S T by (rule C_timers)
  show "I S \<Longrightarrow> run_callback n (program_signal n) f t x S = Inr T \<Longrightarrow> I T" for f t x S T
    by (rule returnsD [OF program.run_callback_k])
qed

context closed_loop_inv
begin

lemma program_loop_keeps: "I S \<Longrightarrow> program_loop m n S = Inr T \<Longrightarrow> I T"
  using main.core_loop_k [of S I m n] by (simp add: program_loop_def returns_def)

end

section \<open>The table of handlers\<close>

lemma schedule_fields:
  "timer_schedule f x d S = (w, T) \<Longrightarrow> tstate.more T = tstate.more S"
  by (auto simp: timer_schedule_def malloc_def timer_now_def timer_now_forced_def push_timer_def Let_def
      split: list.splits if_splits option.splits prod.splits)

lemma cancel_fields: "timer_cancel w S = Inr T \<Longrightarrow> tstate.more T = tstate.more S"
  by (auto simp: timer_cancel_def Inr_iff)

lemma more_fields:
  "tstate.more T = tstate.more S \<Longrightarrow> action T = action S \<and> param T = param S \<and> sess_priv T = sess_priv S"
  by (cases S; cases T) simp

lemma clear_object_fields [simp]:
  "action (clear_object t a S) = action S" "param (clear_object t a S) = param S"
  by (cases t; simp add: clear_object_def upd_defs upd_priv_defs)+

lemma upd_ci_action [simp]: "action (upd_ci x i g S) = action S"
  by (simp add: upd_ci_def upd_sess_priv_def)

interpretation table: closed_loop_inv "\<lambda>S. action S = tab" for tab
proof
  fix S T :: prog and f x d w tm
  assume I: "action S = tab"
  show "internal S T \<Longrightarrow> action T = tab" "quiet S T \<Longrightarrow> action T = tab"
    using I by (simp_all add: internal_def quiet_def)
  show more: "tstate.more T = tstate.more S \<Longrightarrow> action T = tab" using I more_fields by metis
  show "timer_schedule f x d S = (w, T) \<Longrightarrow> action T = tab" using more schedule_fields by metis
  show "timer_cancel tm S = Inr T \<Longrightarrow> action T = tab" using more cancel_fields by metis
qed simp_all

interpretation handlers: handler_table "run_handler n (program_signal n)" for n
proof
  fix h et x a arg s s' e
  assume "run_handler n (program_signal n) h et x a arg s = Inr s'"
  then have "action s' = action s"
    using table.program.run_handler_k [of s "action s" "\<lambda>T. action T = action s"] by (simp add: returns_def)
  then show "prefix (action s e) (action s' e)" by simp
qed

section \<open>The timers\<close>

lemma clear_object_timers [simp]:
  "tmr (clear_object t a S) = tmr S" "active_timers (clear_object t a S) = active_timers S"
  "passive_timers (clear_object t a S) = passive_timers S" "persistent_timers (clear_object t a S) = persistent_timers S"
  "now (clear_object t a S) = now S" "use_timer_cache (clear_object t a S) = use_timer_cache S"
  by (cases t; simp add: clear_object_def upd_defs upd_priv_defs)+

lemma timers_cong:
  assumes "tmr T = tmr S" "passive_timers T = passive_timers S" "active_timers T = active_timers S"
    "persistent_timers T = persistent_timers S" "mallocs S \<le> mallocs T" "now T = now S" "use_timer_cache T = use_timer_cache S"
  shows "timers_inv S \<Longrightarrow> timers_inv T" "grows S T"
  using assms unfolding timers_inv_def grows_def by (auto intro: less_le_trans)

interpretation timers: closed_inv "\<lambda>S. timers_inv S \<and> grows S0 S" for S0
proof
  fix S T :: prog and f x d w tm t a i g
  assume I: "timers_inv S \<and> grows S0 S"
  have same: "timers_inv U \<and> grows S0 U" if "tmr U = tmr S" "passive_timers U = passive_timers S" "active_timers U = active_timers S"
    "persistent_timers U = persistent_timers S" "mallocs S \<le> mallocs U" "now U = now S" "use_timer_cache U = use_timer_cache S" for U
    using timers_cong [OF that] I grows_trans [of S0 S U] by blast
  show "internal S T \<Longrightarrow> timers_inv T \<and> grows S0 T" by (rule same) (simp_all add: internal_def)
  show "quiet S T \<Longrightarrow> timers_inv T \<and> grows S0 T" by (rule same) (simp_all add: quiet_def)
  show "timer_schedule f x d S = (w, T) \<Longrightarrow> timers_inv T \<and> grows S0 T"
    using timer_schedule_inv [of S f x d w T] I grows_trans [of S0 S T] by blast
  show "timer_cancel tm S = Inr T \<Longrightarrow> timers_inv T \<and> grows S0 T"
    using timer_cancel_inv [of S tm T] I grows_trans [of S0 S T] by blast
  show "timers_inv (clear_object t a S) \<and> grows S0 (clear_object t a S)" by (rule same) simp_all
  show "timers_inv (upd_ci x i g S) \<and> grows S0 (upd_ci x i g S)"
    by (rule same) (simp_all add: upd_ci_def upd_sess_priv_def)
qed

interpretation callbacks: timer_callbacks "run_callback n (program_signal n)" for n
proof
  fix s :: prog and f t x s'
  assume "timers_inv s" "run_callback n (program_signal n) f t x s = Inr s'"
  then show "timers_inv s' \<and> grows s s'"
    using timers.program.run_callback_k [of s s "\<lambda>T. timers_inv T \<and> grows s T"] by (simp add: returns_def)
qed
section \<open>The rings of the sessions\<close>

definition rings_ok :: "u64 \<Rightarrow> prog \<Rightarrow> bool" where
  "rings_ok m S \<longleftrightarrow> max_piped (param S) = m \<and> unat m \<le> max_piped_calls
     \<and> (\<forall>x. length (conn_infos (sn_sess (sess_priv S x))) = max_conn
          \<and> (\<forall>ci \<in> set (conn_infos (sn_sess (sess_priv S x))). ring_inv m ci))"

lemma rings_ok_cong:
  assumes "rings_ok m S" "max_piped (param T) = max_piped (param S)" "\<And>x. sn_sess (sess_priv T x) = sn_sess (sess_priv S x)"
  shows "rings_ok m T"
  using assms by (simp add: rings_ok_def)

lemma rings_okD: "rings_ok m S \<Longrightarrow> i < max_conn \<Longrightarrow> ring_inv m (ci_of x i S)"
  unfolding rings_ok_def ci_of_def by (metis nth_mem)

lemma rings_ok_clear:
  assumes "rings_ok m S"
  shows "rings_ok m (clear_object t a S)"
proof (cases "t = OBJ_SESS")
  case True
  then have "sess_priv (clear_object t a S) = (sess_priv S)(a := zero_sess_private)"
    by (simp add: clear_object_def upd_defs upd_priv_defs)
  moreover have "conn_infos (sn_sess zero_sess_private) = replicate max_conn zero_conn_info"
    by (simp add: zero_sess_private_def)
  ultimately show ?thesis using assms ring_inv_zero [of m] by (auto simp: rings_ok_def)
next
  case False
  have "sess_priv (clear_object t a S) = sess_priv S"
    using False by (cases t) (simp_all add: clear_object_def upd_defs upd_priv_defs)
  then show ?thesis by (intro rings_ok_cong [OF assms]) simp_all
qed

lemma rings_ok_upd:
  assumes "rings_ok m S" "ring_inv m (ci_of x i S) \<Longrightarrow> ring_inv m (g (ci_of x i S))"
  shows "rings_ok m (upd_ci x i g S)"
proof -
  let ?cs = "conn_infos (sn_sess (sess_priv S x))"
  have "ring_inv m ci" if "ci \<in> set (?cs[i := g (?cs ! i)])" for ci
  proof (cases "i < length ?cs")
    case True
    then have "ring_inv m (g (?cs ! i))"
      using assms(2) rings_okD [OF assms(1), of i x] assms(1) by (simp add: rings_ok_def ci_of_def)
    then show ?thesis using that assms(1) set_update_subset_insert [of ?cs i] by (auto simp: rings_ok_def)
  next
    case False
    then have "?cs[i := g (?cs ! i)] = ?cs" by (intro list_update_beyond) simp
    then show ?thesis using that assms(1) unfolding rings_ok_def by metis
  qed
  then show ?thesis using assms(1) by (simp add: rings_ok_def upd_ci_def upd_sess_priv_def)
qed

interpretation ring_buffers: closed_loop_inv "rings_ok m" for m
proof
  fix S T :: prog and f x d w tm t a i g
  assume I: "rings_ok m S"
  show "internal S T \<Longrightarrow> rings_ok m T" by (rule rings_ok_cong [OF I]) (simp_all add: internal_def)
  show "quiet S T \<Longrightarrow> rings_ok m T" by (rule rings_ok_cong [OF I]) (auto simp: quiet_def)
  have more: "rings_ok m T" if "tstate.more T = tstate.more S" for T
    by (rule rings_ok_cong [OF I]) (simp_all add: more_fields [OF that])
  show "tstate.more T = tstate.more S \<Longrightarrow> rings_ok m T" by (rule more)
  show "timer_schedule f x d S = (w, T) \<Longrightarrow> rings_ok m T" by (rule more [OF schedule_fields])
  show "timer_cancel tm S = Inr T \<Longrightarrow> rings_ok m T" by (rule more [OF cancel_fields])
  show "rings_ok m (clear_object t a S)" by (rule rings_ok_clear [OF I])
  have "max_piped (param S) = m" using I by (simp add: rings_ok_def)
  then show "(ring_inv (max_piped (param S)) (ci_of x i S) \<Longrightarrow> ring_inv (max_piped (param S)) (g (ci_of x i S)))
      \<Longrightarrow> rings_ok m (upd_ci x i g S)"
    using rings_ok_upd [OF I] by simp
qed

lemma session_init_rings:
  assumes "session_init S = Inr T" "\<And>x. sn_sess (sess_priv S x) = sn_sess zero_sess_private"
  shows "rings_ok (max_piped (param T)) T"
proof -
  have reg: "action s e = action s e \<and> sess_priv s' = sess_priv s \<and> param s' = param s"
    if "event_register_handler et h a s = Inr s'" for et h a and s s' :: prog and e
    using that by (auto simp: event_register_handler_def split: if_splits)
  have "sess_priv T = sess_priv S \<and> max_piped (param T) \<le> 32"
    using assms(1) reg unfolding session_init_def Let_def
    by (auto simp: Inr_iff object_expand_def Let_def not_less split: if_splits)
  then have "sess_priv T = sess_priv S" "unat (max_piped (param T)) \<le> 32" by (simp_all add: word_le_nat_alt)
  then show ?thesis using assms(2) ring_inv_zero by (simp add: rings_ok_def zero_sess_private_def)
qed

section \<open>The main loop\<close>

lemma core_step_timers:
  assumes "timers_inv S" "core_step n (run_callback n (program_signal n)) (program_signal n) S = Inr T"
  shows "timers_inv T"
proof -
  obtain U where U: "timer_tick (run_callback n (program_signal n)) (S\<lparr>iteration := iteration S + 1\<rparr>) = Inr U"
    using assms(2) by (auto simp: core_step_def Inr_iff)
  have "timers_inv (S\<lparr>iteration := iteration S + 1\<rparr>)" using assms(1) by (simp add: timers_inv_def)
  then have tick: "timers_inv U" using callbacks.timer_tick_inv(1) [OF _ U] by blast
  let ?U = "U\<lparr>waits_done := Suc (waits_done U)\<rparr>"
  show ?thesis
  proof (cases "waits U (waits_done U)")
    case (Wait_error e)
    then have "T = U\<lparr>waits_done := Suc (waits_done U), errno := e\<rparr>" using assms(2) U by (simp add: core_step_def Let_def)
    then show ?thesis using tick by (simp add: timers_inv_def)
  next
    case (Ready rs)
    have I: "timers_inv ?U \<and> grows ?U ?U" using tick by (simp add: timers_inv_def)
    have "returns (\<lambda>T. timers_inv T \<and> grows ?U T) (efold (handle_ready n (program_signal n)) rs ?U)"
      by (rule returns_efold [where I = "\<lambda>T. timers_inv T \<and> grows ?U T", OF I]) (rule timers.program.handle_ready_k, assumption+)
    then show ?thesis using assms(2) U Ready by (simp add: core_step_def Let_def returns_def)
  qed
qed

lemma program_loop_timers: "timers_inv S \<Longrightarrow> program_loop m n S = Inr T \<Longrightarrow> timers_inv T"
  unfolding program_loop_def
  by (induction m arbitrary: S) (auto simp: Inr_iff split: if_splits dest: core_step_timers)

section \<open>Properties\<close>

text \<open>A run: the timer of \<open>--runtime\<close> goes off in the first round and ends the main loop.\<close>

definition last_second :: prog where
  "last_second = initial_prog\<lparr>mallocs := 2, active_timers := [0], clock := (\<lambda>_. 5), use_timer_cache := True,
     tmr := [0 \<mapsto> zero_timer\<lparr>timeout_callback := Some Core_runtime_timer, timeout_delay := 1\<rparr>]\<rparr>"

lemma last_second_run:
  assumes "S = last_second\<lparr>param := p, type_size := ts, max_qlen := k, action := act\<rparr>"
  shows "\<exists>T. program_loop 1 n S = Inr T"
  unfolding assms
  by (simp add: program_loop_def core_step_def last_second_def initial_prog_def initial_state_def core.defs timer_tick_def
      timer_now_forced_def timer_now_def timer_has_expired_def zero_timer_def run_callback_def core_runtime_timer_def core_exit_def
      timer_deactivate_def push_timer_eq Let_def)



text \<open>
  The ring buffers of session connections never overflow: from the state that
  \<open>session_init\<close> leaves, whatever the main loop and the handlers of all modules do, at most
  \<open>max_piped\<close> calls, and so at most 32, are pending on every connection of every session,
  and the cells between the read and the write index are exactly those calls.
\<close>

theorem program_rings_bounded:
  assumes "\<And>x. sn_sess (sess_priv S x) = sn_sess zero_sess_private" "session_init S = Inr S1"
    and "program_loop m n S1 = Inr T" "i < max_conn"
  shows "ring_inv (max_piped (param S1)) (ci_of x i T)
     \<and> length (pending_calls (ci_of x i T)) \<le> unat (max_piped (param S1)) \<and> unat (max_piped (param S1)) \<le> 32"
proof -
  have "rings_ok (max_piped (param S1)) T"
    by (rule ring_buffers.program_loop_keeps [OF session_init_rings [OF assms(2,1)] assms(3)])
  then have "ring_inv (max_piped (param S1)) (ci_of x i T)"
    using assms(4) by (rule rings_okD)
  then show ?thesis by (simp add: ring_inv_def)
qed

theorem program_rings_bounded_witness:
  "\<exists>S1 T. session_init last_second = Inr S1 \<and> program_loop 1 0 S1 = Inr T \<and> ring_inv 32 (ci_of 3 0 T)"
proof -
  obtain S1 p ts k act where S1: "session_init last_second = Inr S1"
      "S1 = last_second\<lparr>param := p, type_size := ts, max_qlen := k, action := act\<rparr>" "max_piped p = 32"
    by (force simp: session_init_def event_register_handler_def max_num_ops_def object_expand_def Let_def
        last_second_def initial_prog_def initial_state_def core.defs default_params_def)
  obtain T where T: "program_loop 1 0 S1 = Inr T" using last_second_run [OF S1(2)] by blast
  have fresh: "sn_sess (sess_priv last_second x) = sn_sess zero_sess_private" for x
    by (simp add: last_second_def initial_prog_def initial_state_def core.defs)
  show ?thesis using program_rings_bounded [OF fresh S1(1) T, of 0 3] S1 T by fastforce
qed



end
