(* ===== verification/Collectors.thy ===== *)
theory Collectors
  imports Program_Frame Engine_Send Engine_Close
begin

text \<open>
  The statistics collectors only watch.  Their handlers change time stamps and counters that
  nothing else reads, their private areas and their variables: this is the law that the
  theorems on sending, closing and on the life of objects ask of the handlers.  The
  interpretations at the end give these theorems for runs in which the registered handlers
  are those of \<^verbatim>\<open>src/src/stat\<close>.
\<close>

section \<open>What a collector may change\<close>

lemma unobserved_upd:
  "unobserved (upd_conn a (\<lambda>s. s\<lparr>time_connect_start := t\<rparr>) S) = unobserved S"
  "unobserved (upd_conn a (\<lambda>s. s\<lparr>num_calls_completed := k s\<rparr>) S) = unobserved S"
  "unobserved (upd_call c (\<lambda>q. q\<lparr>time_send_start := t\<rparr>) S) = unobserved S"
  "unobserved (upd_call c (\<lambda>q. q\<lparr>time_recv_start := t\<rparr>) S) = unobserved S"
proof -
  have "(\<lambda>b. (((conns S)(a := (conns S a)\<lparr>time_connect_start := t\<rparr>)) b)\<lparr>time_connect_start := 0, num_calls_completed := 0\<rparr>)
      = (\<lambda>b. (conns S b)\<lparr>time_connect_start := 0, num_calls_completed := 0\<rparr>)" by (rule ext) simp
  then show "unobserved (upd_conn a (\<lambda>s. s\<lparr>time_connect_start := t\<rparr>) S) = unobserved S"
    by (simp add: unobserved_def upd_conn_def del: fun_upd_apply)
  have "(\<lambda>b. (((conns S)(a := (conns S a)\<lparr>num_calls_completed := k (conns S a)\<rparr>)) b)\<lparr>time_connect_start := 0, num_calls_completed := 0\<rparr>)
      = (\<lambda>b. (conns S b)\<lparr>time_connect_start := 0, num_calls_completed := 0\<rparr>)" by (rule ext) simp
  then show "unobserved (upd_conn a (\<lambda>s. s\<lparr>num_calls_completed := k s\<rparr>) S) = unobserved S"
    by (simp add: unobserved_def upd_conn_def del: fun_upd_apply)
  have "(\<lambda>b. (((calls S)(c := (calls S c)\<lparr>time_send_start := t\<rparr>)) b)\<lparr>time_send_start := 0, time_recv_start := 0\<rparr>)
      = (\<lambda>b. (calls S b)\<lparr>time_send_start := 0, time_recv_start := 0\<rparr>)" by (rule ext) simp
  then show "unobserved (upd_call c (\<lambda>q. q\<lparr>time_send_start := t\<rparr>) S) = unobserved S"
    by (simp add: unobserved_def upd_call_def del: fun_upd_apply)
  have "(\<lambda>b. (((calls S)(c := (calls S c)\<lparr>time_recv_start := t\<rparr>)) b)\<lparr>time_send_start := 0, time_recv_start := 0\<rparr>)
      = (\<lambda>b. (calls S b)\<lparr>time_send_start := 0, time_recv_start := 0\<rparr>)" by (rule ext) simp
  then show "unobserved (upd_call c (\<lambda>q. q\<lparr>time_recv_start := t\<rparr>) S) = unobserved S"
    by (simp add: unobserved_def upd_call_def del: fun_upd_apply)
qed

lemma observes_upd [simp]:
  "observes R (upd_conn a (\<lambda>s. s\<lparr>time_connect_start := t\<rparr>) S) \<longleftrightarrow> observes R S"
  "observes R (upd_conn a (\<lambda>s. s\<lparr>num_calls_completed := num_calls_completed s + 1\<rparr>) S) \<longleftrightarrow> observes R S"
  "observes R (upd_call c (\<lambda>q. q\<lparr>time_send_start := t\<rparr>) S) \<longleftrightarrow> observes R S"
  "observes R (upd_call c (\<lambda>q. q\<lparr>time_recv_start := t\<rparr>) S) \<longleftrightarrow> observes R S"
  by (simp_all add: observes_def unobserved_upd) (simp_all add: upd_defs)

lemma unobserved_vars:
  "unobserved (S\<lparr>basic := b\<rparr>) = unobserved S" "unobserved (S\<lparr>st := s\<rparr>) = unobserved S"
  "unobserved (S\<lparr>stdout := t\<rparr>) = unobserved S" for S :: prog
  by (cases S; simp add: unobserved_def)+

lemma observes_modules [simp]:
  "observes R (upd_basic f S) \<longleftrightarrow> observes R S" "observes R (upd_st g S) \<longleftrightarrow> observes R S"
  "observes R (print_text s S) \<longleftrightarrow> observes R S" "observes R (S\<lparr>basic := b\<rparr>) \<longleftrightarrow> observes R S"
  "observes R (upd_pr c h S) \<longleftrightarrow> observes R S" "observes R (upd_ss x k S) \<longleftrightarrow> observes R S"
  by (simp_all add: observes_def upd_basic_def upd_st_def print_text_def unobserved_vars)
    (simp_all add: unobserved_def upd_pr_def upd_ss_def upd_priv_defs)

lemma observes_now: "timer_now S = (t, T) \<Longrightarrow> observes R S \<Longrightarrow> observes R T"
  by (cases rule: timer_now_cases [of S]) (auto simp: observes_def unobserved_def)

lemma observes_malloc: "malloc S = (p, T) \<Longrightarrow> observes R S \<Longrightarrow> observes R T"
  by (auto simp: malloc_def observes_def unobserved_def)

lemmas observes_results = observes_now observes_malloc

section \<open>The handlers\<close>

text \<open>Rules with a continuation, as in theory \<open>Engine_Frame\<close>.\<close>

lemma any_result: "(\<And>x. K x) \<Longrightarrow> returns K m"
  by (simp add: returns_def)

lemma basic_observes [simp]:
  "observes R S \<Longrightarrow> observes R (basic_perf_sample w S)" "observes R S \<Longrightarrow> observes R (basic_conn_fail err S)"
  "observes R S \<Longrightarrow> observes R (basic_conn_timeout S)" "observes R S \<Longrightarrow> observes R (basic_conn_created S)"
  "observes R S \<Longrightarrow> observes R (basic_conn_connecting a S)" "observes R S \<Longrightarrow> observes R (basic_conn_connected a S)"
  "observes R S \<Longrightarrow> observes R (basic_send_start c S)" "observes R S \<Longrightarrow> observes R (basic_send_stop c S)"
  "observes R S \<Longrightarrow> observes R (basic_recv_start c S)"
  by (auto simp: basic_perf_sample_def basic_conn_fail_def basic_conn_timeout_def basic_conn_created_def
      basic_conn_connecting_def basic_conn_connected_def basic_send_start_def basic_send_stop_def basic_recv_start_def
      Let_def split: prod.split dest: observes_results)

lemma basic_observes_k [intro!]:
  "observes R S \<Longrightarrow> returns (observes R) (basic_conn_destroyed a S)"
  "observes R S \<Longrightarrow> returns (observes R) (basic_recv_stop c S)"
  by (auto simp: basic_conn_destroyed_def basic_recv_stop_def Let_def returns_ebind split: prod.split dest: observes_results
      intro!: any_result [where m = "count_lifetime t b" for t b] any_result [where m = "count_reply q t b" for q t b]
        any_result [where m = "deref p" for p] returns_c_assert)

lemma grow_hist_observes:
  "observes R S \<Longrightarrow> (\<And>T. observes R T \<Longrightarrow> K T) \<Longrightarrow> returns K (grow_hist k S)"
  by (auto simp: grow_hist_def Let_def split: prod.split option.split dest: observes_results(2))

lemma sess_stat_observes [simp]:
  "observes R S \<Longrightarrow> observes R (sess_stat_perf_sample w S)" "observes R S \<Longrightarrow> observes R (sess_stat_sess_created x S)"
  by (auto simp: sess_stat_perf_sample_def sess_stat_sess_created_def split: prod.split dest: observes_results)

lemma sess_stat_observes_k [intro!]:
  "observes R S \<Longrightarrow> returns (observes R) (sess_stat_conn_connected a S)"
  "observes R S \<Longrightarrow> returns (observes R) (sess_stat_call_done c S)"
  by (auto simp: sess_stat_conn_connected_def sess_stat_call_done_def returns_ebind
      intro!: any_result [where m = "deref p" for p])

lemma sess_destroyed_observes [intro!]: "observes R S \<Longrightarrow> returns (observes R) (sess_stat_sess_destroyed x S)"
  by (auto simp: sess_stat_sess_destroyed_def Let_def returns_ebind split: prod.split dest: observes_results
      intro!: grow_hist_observes any_result [where m = "nth_c xs i" for xs i] any_result [where m = "update_c xs i y" for xs i y])

lemma buffer_line_observes: "observes R S \<Longrightarrow> returns (observes R) (buffer_line c s S)"
  by (auto simp: buffer_line_def Let_def returns_ebind split: prod.split option.split dest: observes_results(2))

lemma print_buf_observes: "observes R S \<Longrightarrow> returns (observes R) (print_buf pre c buf beyond S)"
proof (induction pre c buf beyond S rule: print_buf.induct)
  case (1 pre c buf beyond S)
  then show ?case by (subst print_buf.simps) (auto simp: print_line_def buffer_line_observes split: option.split)
qed

lemma print_observes [simp]:
  "observes R S \<Longrightarrow> observes R (print_recv_stop c S)" "observes R S \<Longrightarrow> observes R (print_call_destroyed c S)"
  by (auto simp: flush_print_buf_def print_recv_stop_def print_call_destroyed_def Let_def)

lemma print_observes_k [intro!]:
  "observes R S \<Longrightarrow> returns (observes R) (print_send_raw_data c S)"
  "observes R S \<Longrightarrow> returns (observes R) (print_recv_raw_data c b beyond S)"
  "observes R S \<Longrightarrow> returns (observes R) (print_recv_data c b beyond S)"
proof -
  assume S: "observes R S"
  show "returns (observes R) (print_send_raw_data c S)"
    unfolding print_send_raw_data_def print_call_request_def Let_def returns_ebind
    by (rule returns_weaken [where Q = "observes R"], rule returns_efold)
      (auto simp: S returns_ebind print_buf_observes intro!: any_result [where m = "nth_c xs i" for xs i] any_result [where m = "deref p" for p])
  show "returns (observes R) (print_recv_raw_data c b beyond S)" "returns (observes R) (print_recv_data c b beyond S)"
    using S by (auto simp: print_recv_raw_data_def print_recv_data_def print_reply_hdr_def Let_def print_buf_observes split: option.split)
qed

lemma arg_observes:
  "(\<And>x. K1 x) \<Longrightarrow> returns K1 (arg_dbl a)" "(\<And>x. K2 x) \<Longrightarrow> returns K2 (arg_lng a)" "(\<And>x. K3 x) \<Longrightarrow> returns K3 (arg_bytes a)"
  by (simp_all add: returns_def)

lemma run_collector_observes: "returns (observes S) (run_collector h ev x reg arg S)"
  by (cases h) (auto simp: run_collector_def returns_ebind intro!: arg_observes)

section \<open>They end\<close>

lemma count_in_fuel: "in_fuel (count_lifetime t b)" "in_fuel (count_reply q t b)"
  by (auto simp: count_lifetime_def lifetime_bin_def count_reply_def Let_def intro!: in_fuel_ebind in_fuel_basic)

lemma grow_hist_in_fuel: "in_fuel (grow_hist k S)"
  by (auto simp: grow_hist_def Let_def split: prod.split option.split)

lemma print_buf_in_fuel: "in_fuel (print_buf pre c buf beyond S)"
proof (induction pre c buf beyond S rule: print_buf.induct)
  case (1 pre c buf beyond S)
  then show ?case
    by (subst print_buf.simps) (auto simp: buffer_line_def Let_def split: option.split prod.split intro!: in_fuel_ebind)
qed

lemma in_fuel_efold: "(\<And>x s. in_fuel (f x s)) \<Longrightarrow> in_fuel (efold f xs s)"
  by (induction xs arbitrary: s) (auto intro: in_fuel_ebind)

lemma arg_in_fuel: "in_fuel (arg_dbl a)" "in_fuel (arg_lng a)" "in_fuel (arg_bytes a)"
  by (simp_all add: arg_dbl_def arg_lng_def arg_bytes_def split: any_type.split)

lemma run_collector_in_fuel: "in_fuel (run_collector h ev x reg arg S)"
  by (cases h)
    (auto simp: run_collector_def basic_conn_destroyed_def basic_recv_stop_def sess_stat_sess_destroyed_def
      sess_stat_conn_connected_def sess_stat_call_done_def print_send_raw_data_def print_call_request_def
      print_recv_raw_data_def print_recv_data_def print_reply_hdr_def Let_def split: prod.split option.split
      intro!: in_fuel_ebind in_fuel_basic count_in_fuel grow_hist_in_fuel print_buf_in_fuel in_fuel_efold arg_in_fuel)

section \<open>The signal of the collectors\<close>

definition collector_signal :: psignal where
  "collector_signal = event_signal run_collector"

lemma collector_signal_observes: "collector_signal ev x arg S = Inr T \<Longrightarrow> observes S T"
proof -
  assume run: "collector_signal ev x arg S = Inr T"
  have "returns (observes S) (run_collector h ev x a arg U)" if "observes S U" for h a U
    by (rule returns_weaken [OF run_collector_observes]) (rule observes_trans [OF that])
  then have "returns (observes S) (collector_signal ev x arg S)"
    unfolding collector_signal_def event_signal_def
    by (intro returns_efold) (auto simp: returns_ebind nth_c_def split: prod.split)
  then show ?thesis using run by (simp add: returns_def)
qed

interpretation stats: collectors collector_signal
  by unfold_locales (rule collector_signal_observes)

interpretation stats: engine_collectors collector_signal
  by unfold_locales

interpretation stats: engine_collectors_total collector_signal
  by unfold_locales
    (auto simp: collector_signal_def event_signal_def nth_c_def run_collector_in_fuel split: prod.split
      intro!: in_fuel_efold in_fuel_ebind)

text \<open>The rings of the sessions: no collector touches them, and \<open>observes\<close> covers the parameters.\<close>

interpretation unringed: quiet_inv "\<lambda>_ _ _. Inr" "\<lambda>S. (\<lambda>x. sn_sess (sess_priv S x)) = R" for R
  by unfold_locales (auto simp: quiet_def dest!: internal_rings schedule_rings cancel_rings simp: rings_def)

interpretation stats_rings: keeps_rings collector_signal
proof
  fix ev a arg and S T :: prog
  assume run: "collector_signal ev a arg S = Inr T"
  have "returns (\<lambda>T. (\<lambda>x. sn_sess (sess_priv T x)) = (\<lambda>x. sn_sess (sess_priv S x))) (collector_signal ev a arg S)"
    unfolding collector_signal_def event_signal_def
    by (intro returns_efold) (auto simp: returns_ebind nth_c_def split: prod.split)
  then show "rings T = rings S"
    using run observesD(4) [OF collector_signal_observes [OF run]] by (simp add: returns_def rings_def)
qed

interpretation stats_table: handler_table run_collector
  by unfold_locales (use run_collector_observes in \<open>metis observesD(11) returnsD prefix_order.refl\<close>)

interpretation stats_objects: object_handlers collector_signal
proof
  fix ev a arg b and S S' :: prog
  assume "collector_signal ev a arg S = Inr S'"
  note same = observesD(1,2,18) [OF collector_signal_observes [OF this]]
  show "objects_inv S \<Longrightarrow> objects_inv S'" "objects_inv S \<Longrightarrow> limbo S b \<Longrightarrow> limbo S' b"
    using same by (auto simp: objects_inv_def limbo_def free_objects_def intro: less_le_trans)
qed

section \<open>Property\<close>



end
