(* ===== verification/Options.thy ===== *)
theory Options
  imports Program
begin

text \<open>
  The command line, \<^verbatim>\<open>main\<close> of \<^verbatim>\<open>src/src/httperf.c\<close> up to the start of the program.
  \<open>getopt_long\<close> is a parameter: the model gets the options that it recognised, each with its
  argument.  An argument is a C string without its terminator.  \<open>double\<close> values are reals;
  the build is the one without SSL and \<open>DEBUG\<close>.
\<close>

section \<open>Numbers\<close>

text \<open>
  \<open>strtoul\<close> with base 0 finds the base from the prefix.  The result is the value, the rest of
  the text, and whether there was a number that fits; \<open>n = 0\<close> means that \<open>end == optarg\<close>.
\<close>

definition auto_base :: "string \<Rightarrow> nat" where
  "auto_base str =
     (let s1 = dropWhile isspace_c (cstr str);
          s = (if s1 \<noteq> [] \<and> (hd s1 = CHR ''-'' \<or> hd s1 = CHR ''+'') then tl s1 else s1)
      in if 2 < length s \<and> s ! 0 = CHR ''0'' \<and> tolower_c (s ! 1) = CHR ''x'' \<and> is_digit_c 16 (s ! 2) then 16
         else if s \<noteq> [] \<and> hd s = CHR ''0'' then 8 else 10)"

definition read_ulong :: "nat \<Rightarrow> string \<Rightarrow> (u64 \<times> string) result" where
  "read_ulong base s =
     (let (v, n, range) = strtoul (if base = 0 then auto_base s else base) s in
      if n = 0 \<or> range then Inl (Exit 1) else Inr (v, drop n (cstr s)))"

text \<open>
  \<open>strtod\<close> for decimal numbers (as \<open>%lf\<close> in theory \<open>Wsesslog_Config\<close>): the value and the length
  of the number.  Too large a number sets \<open>errno\<close>; one that is too small is not considered.
\<close>

definition decimal_exponent :: "string \<Rightarrow> int \<times> nat" where
  "decimal_exponent s =
     (let es = (if s \<noteq> [] \<and> tolower_c (hd s) = CHR ''e'' then tl s else []);
          sgn = (if es \<noteq> [] \<and> (hd es = CHR ''-'' \<or> hd es = CHR ''+'') then 1 else 0);
          ds = takeWhile (is_digit_c 10) (drop sgn es)
      in if ds = [] then (0, 0)
         else (if hd es = CHR ''-'' then - int (number 10 ds) else int (number 10 ds), 1 + sgn + length ds))"

definition decimal :: "string \<Rightarrow> real \<times> nat" where
  "decimal s =
     (let ip = takeWhile (is_digit_c 10) s;
          r = drop (length ip) s;
          dot = (r \<noteq> [] \<and> hd r = CHR ''.'');
          fp = (if dot then takeWhile (is_digit_c 10) (tl r) else []);
          (ex, n) = decimal_exponent (if dot then drop (length fp) (tl r) else r)
      in if ip = [] \<and> fp = [] then (0, 0)
         else ((real (number 10 ip) + real (number 10 fp) / 10 ^ length fp) * (if n = 0 then 1 else 10 powr real_of_int ex),
               length ip + (if dot then 1 + length fp else 0) + n))"

definition strtod :: "string \<Rightarrow> real \<times> nat" where
  "strtod str =
     (let ws = takeWhile isspace_c (cstr str);
          s = drop (length ws) (cstr str);
          neg = (s \<noteq> [] \<and> hd s = CHR ''-'');
          sgn = (if s \<noteq> [] \<and> (hd s = CHR ''-'' \<or> hd s = CHR ''+'') then 1 else 0);
          (x, n) = decimal (drop sgn s)
      in if n = 0 then (0, 0) else (if neg then - x else x, length ws + sgn + n))"

definition read_double :: "string \<Rightarrow> (real \<times> string) result" where
  "read_double s =
     (let (x, n) = strtod s in if n = 0 \<or> dbl_max < \<bar>x\<bar> then Inl (Exit 1) else Inr (x, drop n (cstr s)))"

text \<open>The tests \<open>*end\<close> and \<open>*end != ','\<close>.\<close>

definition at_end :: "string \<Rightarrow> unit result" where
  "at_end s = (if s = [] then Inr () else Inl (Exit 1))"

definition after :: "char \<Rightarrow> string \<Rightarrow> string result" where
  "after ch s = (if s \<noteq> [] \<and> hd s = ch then Inr (tl s) else Inl (Exit 1))"

definition whole_ulong :: "string \<Rightarrow> u64 result" where
  "whole_ulong s = ebind (read_ulong 10 s) (\<lambda>(v, r). ebind (at_end r) (\<lambda>_. Inr v))"

definition whole_double :: "string \<Rightarrow> real result" where
  "whole_double s = ebind (read_double s) (\<lambda>(x, r). ebind (at_end r) (\<lambda>_. Inr x))"

section \<open>Options\<close>

datatype load_generator = Uri_fixed | Uri_wlog | Uri_wset | Conn_rate | Call_seq
  | Wsess | Wsesslog | Wsesspage | Sess_cookie | Misc

datatype stat_collector = Stats_basic | Session_stat | Stats_print_reply

datatype opt = Add_header | Add_header_file | Burst_length | Client | Close_with_reset | Debug | Failure_status | Help
  | Hog | Http_version | Max_connections | Max_piped_calls | Method | Myaddr | No_host_hdr | Num_calls | Num_conns
  | Period | Port | Print_reply | Print_request | Rate | Recv_buffer | Retry_on_failure | Runtime | Send_buffer
  | Server | Server_name | Servers | Uri | Session_cookies | Think_timeout | Timeout | Use_timer_cache | Verbose
  | Version | Periodic_stats | Wlog_opt | Wsess_opt | Wsesslog_opt | Wsesspage_opt | Wset_opt | Invalid

definition longopts :: "(string \<times> opt) list" where
  "longopts = [(''add-header'', Add_header), (''add-header-file'', Add_header_file), (''burst-length'', Burst_length),
     (''client'', Client), (''close-with-reset'', Close_with_reset), (''debug'', Debug), (''failure-status'', Failure_status),
     (''help'', Help), (''hog'', Hog), (''http-version'', Http_version), (''max-connections'', Max_connections),
     (''max-piped-calls'', Max_piped_calls), (''method'', Method), (''myaddr'', Myaddr), (''no-host-hdr'', No_host_hdr),
     (''num-calls'', Num_calls), (''num-conns'', Num_conns), (''period'', Period), (''port'', Port), (''print-reply'', Print_reply),
     (''print-request'', Print_request), (''rate'', Rate), (''recv-buffer'', Recv_buffer), (''retry-on-failure'', Retry_on_failure),
     (''runtime'', Runtime), (''send-buffer'', Send_buffer), (''server'', Server), (''server-name'', Server_name),
     (''servers'', Servers), (''uri'', Uri), (''session-cookies'', Session_cookies), (''think-timeout'', Think_timeout),
     (''timeout'', Timeout), (''use-timer-cache'', Use_timer_cache), (''verbose'', Verbose), (''version'', Version),
     (''periodic-stats'', Periodic_stats), (''wlog'', Wlog_opt), (''wsess'', Wsess_opt), (''wsesslog'', Wsesslog_opt),
     (''wsesspage'', Wsesspage_opt), (''wset'', Wset_opt)]"

text \<open>
  The local variables of \<open>main\<close>: the arrays \<open>gen[5]\<close> and \<open>stat[3]\<close> with the number of elements
  in use, \<open>session_workload\<close> and \<open>numRates\<close>; \<open>has_server\<close> tells whether \<open>param.server\<close> is
  other than NULL.
\<close>

record main_vars =
  gen_arr :: "load_generator option list"
  num_gen :: nat
  stat_arr :: "stat_collector option list"
  num_stats :: nat
  session_workload :: bool
  rates_read :: nat
  has_server :: bool

type_synonym main_state = "main_vars \<times> prog"

definition upd_param :: "(params \<Rightarrow> params) \<Rightarrow> main_state \<Rightarrow> main_state" where
  "upd_param f = (\<lambda>(m, S). (m, S\<lparr>param := f (param S)\<rparr>))"

definition add_collector :: "stat_collector \<Rightarrow> main_vars \<Rightarrow> main_vars result" where
  "add_collector c m =
     ebind (update_c (stat_arr m) (num_stats m) (Some c)) (\<lambda>cs. Inr (m\<lparr>stat_arr := cs, num_stats := num_stats m + 1\<rparr>))"

definition add_generator :: "load_generator \<Rightarrow> main_vars \<Rightarrow> main_vars result" where
  "add_generator g m =
     ebind (update_c (gen_arr m) (num_gen m) (Some g)) (\<lambda>gs. Inr (m\<lparr>gen_arr := gs, num_gen := num_gen m + 1\<rparr>))"

definition set_generator :: "nat \<Rightarrow> load_generator \<Rightarrow> main_vars \<Rightarrow> main_vars" where
  "set_generator i g m = m\<lparr>gen_arr := (gen_arr m)[i := Some g]\<rparr>"

text \<open>An option that needs an argument gets one from \<open>getopt_long\<close>.\<close>

definition int_of_ulong :: "u64 \<Rightarrow> int" where
  "int_of_ulong v = sint (ucast v :: u32)"

definition initial_vars :: main_vars where
  "initial_vars = \<lparr>gen_arr = [Some Call_seq, Some Uri_fixed, Some Conn_rate, None, None], num_gen = 3,
     stat_arr = [Some Stats_basic, None, None], num_stats = 1, session_workload = False, rates_read = 0, has_server = False\<rparr>"

section \<open>Arguments with several parts\<close>

definition print_flags :: "string option \<Rightarrow> int" where
  "print_flags a =
     (case a of
        Some (ch # _) \<Rightarrow> if tolower_c ch = CHR ''h'' then 1 else if tolower_c ch = CHR ''b'' then 2 else 3
      | _ \<Rightarrow> 3)"

definition read_version :: "string \<Rightarrow> int result" where
  "read_version s =
     (case scan_u s of
        None \<Rightarrow> Inl (Exit 1)
      | Some (major, r) \<Rightarrow>
          (case scan_lit ''.'' r of
             None \<Rightarrow> Inl (Exit 1)
           | Some r \<Rightarrow>
               (case scan_u r of
                  None \<Rightarrow> Inl (Exit 1)
                | Some (minor, _) \<Rightarrow> Inr (sint (push_bit 16 major OR (minor AND 0xffff))))))"

definition read_client :: "string \<Rightarrow> (u32 \<times> u32) result" where
  "read_client s =
     ebind (read_ulong 0 s) (\<lambda>(i, r).
     ebind (after (CHR ''/'') r) (\<lambda>r.
     ebind (read_ulong 0 r) (\<lambda>(n, _).
       if ucast n \<le> (ucast i :: u32) then Inl (Exit 1) else Inr (ucast i, ucast n))))"

text \<open>\<open>--rate\<close>: the mean interarrival time is the inverse of the rate.\<close>

definition read_rate :: "string \<Rightarrow> rate_info \<Rightarrow> rate_info result" where
  "read_rate s R =
     ebind (whole_double s) (\<lambda>x.
       Inr (R\<lparr>rate_param := x, mean_iat := (if x \<le> 0 then 0 else 1 / x), dist := DETERMINISTIC\<rparr>))"

text \<open>
  \<open>--period\<close>.  The loop over the steps of a schedule starts at \<open>k\<close>, the number of steps of
  earlier \<open>--period\<close> options, and does not ask for the end of the text.
\<close>

definition num_rates :: nat where
  "num_rates = 16"

definition non_negative :: "real \<times> string \<Rightarrow> (real \<times> string) result" where
  "non_negative x = (if fst x < 0 then Inl (Exit 1) else Inr x)"

definition read_time :: "string \<Rightarrow> (real \<times> string) result" where
  "read_time s = ebind (read_double s) non_negative"

function read_rates :: "nat \<Rightarrow> string \<Rightarrow> rate_info \<Rightarrow> (nat \<times> rate_info) result" where
  "read_rates k s R =
     (if num_rates \<le> k then Inl (Exit 1)
      else
        ebind (read_time s) (\<lambda>(v, r).
        ebind (after (CHR '','') r) (\<lambda>r.
        ebind (read_time r) (\<lambda>(d, r).
        let R = R\<lparr>iats := (iats R)[k := v], durations := (durations R)[k := d],
                  mean_iat := (if k = 0 then v else mean_iat R + v)\<rparr>
        in if r \<noteq> [] \<and> hd r = CHR '','' then read_rates (k + 1) (tl r) R
           else Inr (k + 1, R\<lparr>numRates := int (k + 1)\<rparr>)))))"
  by pat_completeness auto
termination by (relation "measure (\<lambda>(k, s, R). num_rates - k)") auto

declare read_rates.simps [simp del]

definition read_dist :: "string \<Rightarrow> (dist_type \<times> string) result" where
  "read_dist s =
     (case s of
        [] \<Rightarrow> Inl (Exit 1)
      | ch # r \<Rightarrow>
          if is_digit_c 10 ch then Inr (DETERMINISTIC, s)
          else if tolower_c ch = CHR ''d'' then Inr (DETERMINISTIC, r)
          else if tolower_c ch = CHR ''u'' then Inr (UNIFORM, r)
          else if tolower_c ch = CHR ''e'' then Inr (EXPONENTIAL, r)
          else if tolower_c ch = CHR ''v'' then Inr (VARIABLE, r)
          else Inl (Exit 1))"

definition read_mean :: "dist_type \<Rightarrow> string \<Rightarrow> nat \<Rightarrow> rate_info \<Rightarrow> (nat \<times> rate_info) result" where
  "read_mean d s k R =
     (case d of
        UNIFORM \<Rightarrow>
          ebind (read_time s) (\<lambda>(lo, r).
          ebind (after (CHR '','') r) (\<lambda>r.
          ebind (read_time r) (\<lambda>(hi, r).
          ebind (at_end r) (\<lambda>_. Inr (k, R\<lparr>min_iat := lo, max_iat := hi, mean_iat := 1 / 2 * (lo + hi)\<rparr>)))))
      | VARIABLE \<Rightarrow>
          ebind (read_rates k s R) (\<lambda>(k, R). Inr (k, R\<lparr>mean_iat := mean_iat R / real k\<rparr>))
      | _ \<Rightarrow>
          ebind (read_time s) (\<lambda>(x, r). ebind (at_end r) (\<lambda>_. Inr (k, R\<lparr>mean_iat := x\<rparr>))))"

definition read_period :: "string \<Rightarrow> nat \<Rightarrow> rate_info \<Rightarrow> (nat \<times> rate_info) result" where
  "read_period s k R =
     ebind (read_dist s) (\<lambda>(d, r).
     ebind (read_mean d r k (R\<lparr>dist := d\<rparr>)) (\<lambda>(k, R).
       Inr (k, R\<lparr>rate_param := (if mean_iat R \<le> 0 then 0 else 1 / mean_iat R)\<rparr>)))"

text \<open>The arguments \<open>N,N,X\<close> of \<open>--wsess\<close> and \<open>--wsesspage\<close>, \<open>N,X,file\<close> of \<open>--wsesslog\<close>, and \<open>N,X\<close> of \<open>--wset\<close>.\<close>

definition read_sessions :: "string \<Rightarrow> (u32 \<times> u32 \<times> real) result" where
  "read_sessions s =
     ebind (read_ulong 0 s) (\<lambda>(n, r).
     ebind (after (CHR '','') r) (\<lambda>r.
     ebind (read_ulong 0 r) (\<lambda>(k, r).
     ebind (after (CHR '','') r) (\<lambda>r.
     ebind (read_time r) (\<lambda>(x, r).
     ebind (at_end r) (\<lambda>_. Inr (ucast n, ucast k, x)))))))"

definition read_session_log :: "string \<Rightarrow> (u32 \<times> real \<times> string) result" where
  "read_session_log s =
     ebind (read_ulong 0 s) (\<lambda>(n, r).
     ebind (after (CHR '','') r) (\<lambda>r.
     ebind (read_time r) (\<lambda>(x, r).
     ebind (after (CHR '','') r) (\<lambda>r.
       case strchr r (CHR '','') of
         None \<Rightarrow> Inr (ucast n, x, r)
       | Some i \<Rightarrow> ebind (at_end (drop (i + 1) r)) (\<lambda>_. Inr (ucast n, x, take i r))))))"

definition read_working_set :: "string \<Rightarrow> (u32 \<times> real) result" where
  "read_working_set s =
     ebind (read_ulong 0 s) (\<lambda>(n, r).
     ebind (after (CHR '','') r) (\<lambda>r.
     ebind (read_time r) (\<lambda>(x, r).
       if 1 < x then Inl (Exit 1) else ebind (at_end r) (\<lambda>_. Inr (ucast n, x)))))"

section \<open>One option\<close>

definition ulong_option :: "(u64 \<Rightarrow> params \<Rightarrow> params) \<Rightarrow> string \<Rightarrow> main_state \<Rightarrow> main_state result" where
  "ulong_option f a M = ebind (whole_ulong a) (\<lambda>v. Inr (upd_param (f v) M))"

definition time_option :: "(real \<Rightarrow> params \<Rightarrow> params) \<Rightarrow> string \<Rightarrow> main_state \<Rightarrow> main_state result" where
  "time_option f a M = ebind (whole_double a) (\<lambda>x. Inr (upd_param (f x) M))"

text \<open>The size of a buffer: the test of \<open>param.port\<close> stands where one of the size was meant.\<close>

definition buffer_option :: "(u64 \<Rightarrow> params \<Rightarrow> params) \<Rightarrow> string \<Rightarrow> main_state \<Rightarrow> main_state result" where
  "buffer_option f a M =
     ebind (whole_ulong a) (\<lambda>v. if 0xffff < server_port (param (snd M)) then Inl (Exit 1) else Inr (upd_param (f v) M))"

text \<open>A session workload replaces the first generator, leaves \<open>k\<close> of them and adds a collector.\<close>

definition session_option :: "load_generator \<Rightarrow> nat \<Rightarrow> (params \<Rightarrow> params) result \<Rightarrow> main_state \<Rightarrow> main_state result" where
  "session_option g k f = (\<lambda>(m, S).
     ebind (add_collector Session_stat (set_generator 0 g (m\<lparr>num_gen := k\<rparr>))) (\<lambda>m.
     ebind f (\<lambda>f. Inr (upd_param f (m\<lparr>session_workload := True\<rparr>, S)))))"

definition wlog_option :: "string \<Rightarrow> main_state \<Rightarrow> main_state result" where
  "wlog_option a = (\<lambda>(m, S).
     if length a < 2 then Inl Undefined
     else Inr (upd_param (\<lambda>p. p\<lparr>wlog_do_loop := (tolower_c (hd a) = CHR ''y''), wlog_file := Some (drop 2 a)\<rparr>)
                 (set_generator 1 Uri_wlog m, S)))"

text \<open>
  The body of the loop over the options; \<open>n\<close> bounds the loop over a range of local addresses.
  \<open>Invalid\<close> stands for the answers \<open>?\<close> and \<open>:\<close> of \<open>getopt_long\<close>.  An option that needs an argument
  gets one.
\<close>

definition parse_option :: "nat \<Rightarrow> resolver \<Rightarrow> opt \<times> string option \<Rightarrow> main_state \<Rightarrow> main_state result" where
  "parse_option n res = (\<lambda>(x, arg) M.
     let a = (case arg of None \<Rightarrow> [] | Some s \<Rightarrow> s); set = (\<lambda>f. Inr (upd_param f M)) in
     case x of
       Add_header \<Rightarrow> set (\<lambda>p. p\<lparr>additional_header := arg\<rparr>)
     | Add_header_file \<Rightarrow> set (\<lambda>p. p\<lparr>additional_header_file := arg\<rparr>)
     | Burst_length \<Rightarrow> ebind (whole_ulong a) (\<lambda>v. if v < 1 then Inl (Exit 1) else set (\<lambda>p. p\<lparr>burst_len := v\<rparr>))
     | Client \<Rightarrow> ebind (read_client a) (\<lambda>(i, k). set (\<lambda>p. p\<lparr>client_id := i, num_clients := k\<rparr>))
     | Close_with_reset \<Rightarrow> set (\<lambda>p. p\<lparr>close_with_reset := True\<rparr>)
     | Debug \<Rightarrow> Inr M
     | Failure_status \<Rightarrow> ebind (whole_ulong a) (\<lambda>v.
         if int_of_ulong v \<le> 0 then Inl (Exit 1) else set (\<lambda>p. p\<lparr>failure_status := int_of_ulong v\<rparr>))
     | Help \<Rightarrow> Inl (Exit 0)
     | Hog \<Rightarrow> set (\<lambda>p. p\<lparr>hog := True\<rparr>)
     | Http_version \<Rightarrow> ebind (read_version a) (\<lambda>v. set (\<lambda>p. p\<lparr>http_version := v\<rparr>))
     | Max_connections \<Rightarrow> ulong_option (\<lambda>v p. p\<lparr>max_conns := v\<rparr>) a M
     | Max_piped_calls \<Rightarrow> ulong_option (\<lambda>v p. p\<lparr>max_piped := v\<rparr>) a M
     | Method \<Rightarrow> set (\<lambda>p. p\<lparr>req_method := arg\<rparr>)
     | Myaddr \<Rightarrow> (case M of (m, S) \<Rightarrow> ebind (core_add_addresses n res a S) (\<lambda>S. Inr (m, S)))
     | No_host_hdr \<Rightarrow> set (\<lambda>p. p\<lparr>no_host_hdr := True\<rparr>)
     | Num_calls \<Rightarrow> ulong_option (\<lambda>v p. p\<lparr>num_calls := v\<rparr>) a M
     | Num_conns \<Rightarrow> ulong_option (\<lambda>v p. p\<lparr>num_conns := v\<rparr>) a M
     | Period \<Rightarrow> (case M of (m, S) \<Rightarrow> ebind (read_period a (rates_read m) (rate (param S))) (\<lambda>(k, R).
         Inr (upd_param (\<lambda>p. p\<lparr>rate := R\<rparr>) (m\<lparr>rates_read := k\<rparr>, S))))
     | Port \<Rightarrow> ebind (whole_ulong a) (\<lambda>v.
         if 0xffff < (ucast v :: u32) then Inl (Exit 1) else set (\<lambda>p. p\<lparr>server_port := int_of_ulong v\<rparr>))
     | Print_reply \<Rightarrow> set (\<lambda>p. p\<lparr>print_reply := print_flags arg\<rparr>)
     | Print_request \<Rightarrow> set (\<lambda>p. p\<lparr>print_request := print_flags arg\<rparr>)
     | Rate \<Rightarrow> ebind (read_rate a (rate (param (snd M)))) (\<lambda>R. set (\<lambda>p. p\<lparr>rate := R\<rparr>))
     | Recv_buffer \<Rightarrow> buffer_option (\<lambda>v p. p\<lparr>recv_buffer_size := v\<rparr>) a M
     | Retry_on_failure \<Rightarrow> set (\<lambda>p. p\<lparr>retry_on_failure := True\<rparr>)
     | Runtime \<Rightarrow> ebind (whole_double a) (\<lambda>v. if v \<le> 0 then Inl (Exit 1) else set (\<lambda>p. p\<lparr>runtime := v\<rparr>))
     | Send_buffer \<Rightarrow> buffer_option (\<lambda>v p. p\<lparr>send_buffer_size := v\<rparr>) a M
     | Server \<Rightarrow> (case M of (m, S) \<Rightarrow> Inr (upd_param (\<lambda>p. p\<lparr>server := a\<rparr>) (m\<lparr>has_server := True\<rparr>, S)))
     | Server_name \<Rightarrow> set (\<lambda>p. p\<lparr>server_name := arg\<rparr>)
     | Servers \<Rightarrow> set (\<lambda>p. p\<lparr>servers := arg\<rparr>)
     | Uri \<Rightarrow> set (\<lambda>p. p\<lparr>uri := a\<rparr>)
     | Session_cookies \<Rightarrow> set (\<lambda>p. p\<lparr>session_cookies := True\<rparr>)
     | Think_timeout \<Rightarrow> time_option (\<lambda>v p. p\<lparr>think_timeout := v\<rparr>) a M
     | Timeout \<Rightarrow> time_option (\<lambda>v p. p\<lparr>timeout := v\<rparr>) a M
     | Use_timer_cache \<Rightarrow> (case M of (m, S) \<Rightarrow> Inr (m, S\<lparr>use_timer_cache := True\<rparr>))
     | Verbose \<Rightarrow> (case M of (m, S) \<Rightarrow> Inr (m, S\<lparr>verbose := verbose S + 1\<rparr>))
     | Version \<Rightarrow> Inl (Exit 0)
     | Periodic_stats \<Rightarrow> (case M of (m, S) \<Rightarrow> Inr (m, S\<lparr>periodic_stats := periodic_stats S + 1\<rparr>))
     | Wlog_opt \<Rightarrow> wlog_option a M
     | Wsess_opt \<Rightarrow> session_option Wsess 2 (ebind (read_sessions a) (\<lambda>(k, c, t).
         Inr (\<lambda>p. p\<lparr>wsess_num_sessions := k, wsess_num_calls := c, wsess_think_time := t\<rparr>))) M
     | Wsesslog_opt \<Rightarrow> session_option Wsesslog 1 (ebind (read_session_log a) (\<lambda>(k, t, f).
         Inr (\<lambda>p. p\<lparr>wsesslog_num_sessions := k, wsesslog_think_time := t, wsesslog_file := Some f\<rparr>))) M
     | Wsesspage_opt \<Rightarrow> session_option Wsesspage 2 (ebind (read_sessions a) (\<lambda>(k, c, t).
         Inr (\<lambda>p. p\<lparr>wsesspage_num_sessions := k, wsesspage_num_reqs := c, wsesspage_think_time := t\<rparr>))) M
     | Wset_opt \<Rightarrow> (case M of (m, S) \<Rightarrow> ebind (read_working_set a) (\<lambda>(k, x).
         Inr (upd_param (\<lambda>p. p\<lparr>wset_num_files := k, wset_target_miss_rate := x\<rparr>) (set_generator 1 Uri_wset m, S))))
     | Invalid \<Rightarrow> Inl (Exit 1))"

section \<open>The whole command line\<close>

text \<open>What follows the loop: defaults, and the collectors and generators that the parameters ask for.\<close>

definition use_server :: "main_state \<Rightarrow> main_state result" where
  "use_server = (\<lambda>(m, S).
     if has_server m \<and> servers (param S) \<noteq> None then Inl (Exit (- 1))
     else
       let S = (if \<not> has_server m \<and> servers (param S) = None then S\<lparr>param := (param S)\<lparr>server := ''localhost''\<rparr>\<rparr> else S);
           S = (if server_port (param S) < 0 then S\<lparr>param := (param S)\<lparr>server_port := 80\<rparr>\<rparr> else S)
       in Inr (m, S))"

definition use_modules :: "main_state \<Rightarrow> main_state result" where
  "use_modules = (\<lambda>(m, S).
     let p = param S in
     ebind (if print_reply p \<noteq> 0 \<or> print_request p \<noteq> 0 then add_collector Stats_print_reply m else Inr m) (\<lambda>m.
     ebind (if session_cookies p then
              if session_workload m then add_generator Sess_cookie m else Inl (Exit (- 1))
            else Inr m) (\<lambda>m.
     ebind (if additional_header p \<noteq> None \<or> additional_header_file p \<noteq> None \<or> req_method p \<noteq> None
            then add_generator Misc m else Inr m) (\<lambda>m.
       Inr (m, S)))))"

text \<open>Without an option the parameters are the defaults that \<open>main\<close> sets, which \<open>initial_prog\<close> holds.\<close>

definition parse_options :: "nat \<Rightarrow> resolver \<Rightarrow> (opt \<times> string option) list \<Rightarrow> prog \<Rightarrow> main_state result" where
  "parse_options n res opts S =
     ebind (efold (parse_option n res) opts (initial_vars, S)) (\<lambda>M. ebind (use_server M) use_modules)"

end
