(* ===== verification/Options_Text.thy ===== *)
theory Options_Text
  imports Options
begin

text \<open>
  Arguments that are written in decimal are read back: what the shell script or the user asks
  for is what the parameters hold.
\<close>

section \<open>Numbers\<close>

definition stops :: "string \<Rightarrow> bool" where
  "stops rest \<longleftrightarrow> cstr rest = []
     \<or> \<not> is_digit_c 10 (hd (cstr rest)) \<and> tolower_c (hd (cstr rest)) \<notin> {CHR ''x'', CHR ''e'', CHR ''.''}"

lemma stops_simps [simp]: "stops []" "stops (CHR '','' # s)" "stops (CHR ''/'' # s)"
proof -
  have "\<not> is_digit_c 10 (CHR '','')" "tolower_c (CHR '','') \<notin> {CHR ''x'', CHR ''e'', CHR ''.''}"
      "\<not> is_digit_c 10 (CHR ''/'')" "tolower_c (CHR ''/'') \<notin> {CHR ''x'', CHR ''e'', CHR ''.''}" by code_simp+
  then show "stops []" "stops (CHR '','' # s)" "stops (CHR ''/'' # s)"
    by (simp_all add: stops_def cstr_def)
qed

lemma digit_char_0 [simp]: "digit_char 0 = CHR ''0''"
  by code_simp

lemma digits_Cons: "\<exists>c cs. digits 10 n = c # cs \<and> plain_char c \<and> (0 < n \<longrightarrow> c \<noteq> CHR ''0'')"
proof (induction n rule: less_induct)
  case (less n)
  show ?case
  proof (cases "n < 10")
    case True
    then have d: "digits 10 n = [digit_char n]" by (subst digits.simps) simp
    have "digit_char n \<noteq> CHR ''0''" if "0 < n"
    proof
      assume "digit_char n = CHR ''0''"
      moreover have "digit_val (CHR ''0'') = 0" by code_simp
      ultimately show False using digit_val_char [of n] True that by simp
    qed
    then show ?thesis using d digit_char_plain [of n] True by simp
  next
    case False
    then have d: "digits 10 n = digits 10 (n div 10) @ [digit_char (n mod 10)]" by (subst digits.simps) simp
    show ?thesis using less [of "n div 10"] False unfolding d by auto
  qed
qed

lemma cstr_digits: "cstr (digits 10 n @ rest) = digits 10 n @ cstr rest"
  by (rule cstr_append) (use digits_plain [of 10 NUL n] in \<open>auto simp: plain_char_def\<close>)

lemma takeWhile_digits: "stops rest \<Longrightarrow> takeWhile (is_digit_c 10) (digits 10 n @ cstr rest) = digits 10 n"
  by (rule takeWhile_append_stop) (use digits_plain [of 10 _ n] in \<open>auto simp: stops_def\<close>)

lemma auto_base_digits:
  assumes "0 < n"
  shows "auto_base (digits 10 n @ rest) = 10"
proof -
  obtain c cs where c: "digits 10 n = c # cs" "plain_char c" "c \<noteq> CHR ''0''" using digits_Cons [of n] assms by auto
  then have "cstr (digits 10 n @ rest) = c # cs @ cstr rest" using cstr_digits [of n rest] by simp
  then show ?thesis using c by (simp add: auto_base_def Let_def plain_char_def)
qed

lemma strtoul_0:
  assumes "stops rest"
  shows "strtoul (auto_base (CHR ''0'' # rest)) (CHR ''0'' # rest) = (0, 1, False)"
proof -
  have z: "\<not> isspace_c (CHR ''0'')" "is_digit_c 8 (CHR ''0'')" "number 8 ''0'' = 0" by code_simp+
  have 8: "is_digit_c 8 c \<Longrightarrow> is_digit_c 10 c" for c by (auto simp: is_digit_c_def)
  have c: "cstr (CHR ''0'' # rest) = CHR ''0'' # cstr rest" by (simp add: cstr_def)
  have b: "auto_base (CHR ''0'' # rest) = 8"
    using assms z(1) unfolding auto_base_def c Let_def by (cases "cstr rest") (auto simp: stops_def)
  have "takeWhile (is_digit_c 8) (cstr rest) = []"
    using assms 8 by (cases "cstr rest") (auto simp: stops_def)
  then show ?thesis unfolding b strtoul_def c Let_def using z by simp
qed

lemma read_ulong_digits:
  assumes "base = 0 \<or> base = 10" "n < 2 ^ 64" "stops rest"
  shows "read_ulong base (digits 10 n @ rest) = Inr (word_of_nat n, cstr rest)"
proof -
  have ten: "strtoul 10 (digits 10 n @ rest) = (word_of_nat n, length (digits 10 n), False)"
    by (rule strtoul_digits) (use assms in \<open>auto simp: stops_def\<close>)
  have "strtoul (if base = 0 then auto_base (digits 10 n @ rest) else base) (digits 10 n @ rest)
      = (word_of_nat n, length (digits 10 n), False)"
  proof (cases "base = 0 \<and> n = 0")
    case True
    then have "digits 10 n = ''0''" by (subst digits.simps) simp
    then show ?thesis using strtoul_0 [OF assms(3)] True by simp
  next
    case False
    then show ?thesis using assms(1) ten auto_base_digits [of n rest] by auto
  qed
  then show ?thesis by (simp add: read_ulong_def cstr_digits)
qed

lemma read_double_digits:
  assumes "n < 2 ^ 64" "stops rest"
  shows "read_double (digits 10 n @ rest) = Inr (real n, cstr rest)"
proof -
  obtain c cs where c: "digits 10 n = c # cs" "plain_char c" using digits_Cons [of n] by auto
  have len: "real n \<le> dbl_max"
  proof -
    have "real n < 2 ^ 64" using assms(1) by (metis of_nat_less_numeral_power_cancel_iff)
    then show ?thesis by (simp add: dbl_max_def)
  qed
  have dot: "tolower_c (CHR ''.'') = CHR ''.''" by code_simp
  have r: "\<not> (cstr rest \<noteq> [] \<and> hd (cstr rest) = CHR ''.'')" "\<not> (cstr rest \<noteq> [] \<and> tolower_c (hd (cstr rest)) = CHR ''e'')"
    using assms(2) dot by (auto simp: stops_def)
  have "decimal_exponent (cstr rest) = (0, 0)" using r(2) by (auto simp: decimal_exponent_def)
  then have "decimal (digits 10 n @ cstr rest) = (real n, length (digits 10 n))"
    using r(1) takeWhile_digits [OF assms(2), of n] number_digits [of 10 n]
    by (auto simp: decimal_def Let_def number_def [of _ "[]"])
  then have "strtod (digits 10 n @ rest) = (real n, length (digits 10 n))"
    using c unfolding strtod_def cstr_digits by (simp add: Let_def plain_char_def)
  then show ?thesis using len by (simp add: read_double_def cstr_digits not_less)
qed

section \<open>Arguments\<close>

lemma cstr_Cons [simp]: "c \<noteq> NUL \<Longrightarrow> cstr (c # s) = c # cstr s"
  by (simp add: cstr_def)

lemma read_time_digits: "n < 2 ^ 64 \<Longrightarrow> stops rest \<Longrightarrow> read_time (digits 10 n @ rest) = Inr (real n, cstr rest)"
  by (simp add: read_time_def read_double_digits non_negative_def)

lemma cstr_all_digits [simp]: "cstr (digits 10 n) = digits 10 n"
  using cstr_digits [of n "[]"] by (simp add: cstr_def)

lemma ucast_small: "n < 2 ^ 32 \<Longrightarrow> (ucast (word_of_nat n :: u64) :: u32) = word_of_nat n"
  by (simp add: word_unat_eq_iff unsigned_ucast_eq unsigned_of_nat take_bit_nat_eq_self)

lemma read_client_digits:
  assumes "n < 2 ^ 32" "k < 2 ^ 32"
  shows "read_client (digits 10 n @ ''/'' @ digits 10 k) = (if n < k then Inr (word_of_nat n, word_of_nat k) else Inl (Exit 1))"
proof -
  have b: "n < 2 ^ 64" "k < 2 ^ 64" using assms by simp_all
  have less: "(word_of_nat k :: u32) \<le> word_of_nat n \<longleftrightarrow> \<not> n < k"
    using assms by (simp add: word_le_nat_alt unsigned_of_nat take_bit_nat_eq_self not_less)
  have k: "read_ulong 0 (digits 10 k) = Inr (word_of_nat k, [])"
    using read_ulong_digits [OF _ b(2), of 0 "[]"] by (simp add: cstr_def)
  show ?thesis using assms b k by (simp add: read_client_def read_ulong_digits after_def ucast_small less)
qed

text \<open>
  C39: The argument of a session workload and of \<open>--client\<close> is read back from its decimal form:
  the numbers of sessions and of calls, and the think time in seconds; and a client number is accepted only if it is below the number of clients.
\<close>

theorem session_argument_roundtrip:
  assumes "n < 2 ^ 32" "k < 2 ^ 32" "t < 2 ^ 32"
  shows "read_sessions (digits 10 n @ '','' @ digits 10 k @ '','' @ digits 10 t) = Inr (word_of_nat n, word_of_nat k, real t)
    \<and> read_client (digits 10 n @ ''/'' @ digits 10 k) = (if n < k then Inr (word_of_nat n, word_of_nat k) else Inl (Exit 1))"
proof -
  have b: "n < 2 ^ 64" "k < 2 ^ 64" "t < 2 ^ 64" using assms by simp_all
  have t: "read_time (digits 10 t) = Inr (real t, [])"
    using read_time_digits [OF b(3), of "[]"] by (simp add: cstr_def)
  have k: "read_ulong 0 (digits 10 k) = Inr (word_of_nat k, [])"
    using read_ulong_digits [OF _ b(2), of 0 "[]"] by (simp add: cstr_def)
  show ?thesis using assms(1,2) b t k
    by (simp add: read_sessions_def read_ulong_digits read_time_digits cstr_digits after_def at_end_def ucast_small)
      (simp add: read_client_digits [simplified])
qed

theorem session_argument_roundtrip_witness:
  "read_sessions ''10,5,2'' = Inr (10, 5, 2) \<and> read_client ''10/5'' = Inl (Exit 1)"
proof -
  have d: "digits 10 10 = ''10''" "digits 10 5 = ''5''" "digits 10 2 = ''2''" by code_simp+
  show ?thesis using session_argument_roundtrip [of 10 5 2] by (simp add: d)
qed

lemma whole_ulong_digits: "n < 2 ^ 64 \<Longrightarrow> whole_ulong (digits 10 n) = Inr (word_of_nat n)"
  using read_ulong_digits [of 10 n "[]"] by (simp add: whole_ulong_def at_end_def cstr_def)

end
