(* ===== verification/Options_Accepted.thy ===== *)
theory Options_Accepted
  imports Options_Text
begin

text \<open>
  What an accepted command line guarantees: well-formed parameters, arrays of generators and
  collectors that were not overrun, and room in the table of event handlers for all of them.
\<close>

section \<open>Well-formed parameters\<close>

definition steps_ok :: "nat \<Rightarrow> rate_info \<Rightarrow> bool" where
  "steps_ok k R \<longleftrightarrow> length (iats R) = num_rates \<and> length (durations R) = num_rates \<and> k \<le> num_rates
     \<and> (\<forall>x \<in> set (iats R) \<union> set (durations R). 0 \<le> x) \<and> 0 \<le> mean_iat R \<and> 0 \<le> min_iat R \<and> 0 \<le> max_iat R"

definition rate_ok :: "nat \<Rightarrow> rate_info \<Rightarrow> bool" where
  "rate_ok k R \<longleftrightarrow> steps_ok k R \<and> numRates R = int k \<and> (dist R = VARIABLE \<longrightarrow> 0 < k)"

definition params_ok :: "nat \<Rightarrow> params \<Rightarrow> bool" where
  "params_ok k p \<longleftrightarrow> rate_ok k (rate p) \<and> 1 \<le> burst_len p \<and> client_id p < num_clients p
     \<and> - 1 \<le> server_port p \<and> server_port p \<le> 0xffff \<and> 0 \<le> failure_status p \<and> 0 \<le> runtime p
     \<and> 0 \<le> wsess_think_time p \<and> 0 \<le> wsesspage_think_time p \<and> 0 \<le> wsesslog_think_time p
     \<and> 0 \<le> wset_target_miss_rate p \<and> wset_target_miss_rate p \<le> 1
     \<and> print_reply p \<in> {0..3} \<and> print_request p \<in> {0..3}"

lemma params_ok_default: "params_ok 0 default_params"
  by (simp add: params_ok_def rate_ok_def steps_ok_def default_params_def default_rate_def num_rates_def)

lemma returns_any: "(\<And>x. K x) \<Longrightarrow> returns K m"
  by (simp add: returns_def)

lemma read_time_k: "(\<And>x r. 0 \<le> x \<Longrightarrow> K (x, r)) \<Longrightarrow> returns K (read_time s)"
  by (auto simp: read_time_def non_negative_def returns_def Inr_iff split: if_splits)

lemma steps_ok_step:
  assumes "steps_ok k R" "k < num_rates" "0 \<le> v" "0 \<le> d"
  shows "steps_ok (Suc k) (R\<lparr>iats := (iats R)[k := v], durations := (durations R)[k := d], mean_iat := (if k = 0 then v else mean_iat R + v)\<rparr>)"
  using assms set_update_subset_insert [of "iats R" k v] set_update_subset_insert [of "durations R" k d]
  by (auto simp: steps_ok_def)

lemma steps_ok_numRates [simp]: "steps_ok k (R\<lparr>numRates := j\<rparr>) \<longleftrightarrow> steps_ok k R" "steps_ok k (R\<lparr>dist := d\<rparr>) \<longleftrightarrow> steps_ok k R"
  "steps_ok k (R\<lparr>rate_param := x\<rparr>) \<longleftrightarrow> steps_ok k R"
  by (simp_all add: steps_ok_def)

lemma read_time_pos: "read_time s = Inr (x, r) \<Longrightarrow> 0 \<le> x"
  by (auto simp: read_time_def non_negative_def Inr_iff split: if_splits)

lemma read_rates_ok:
  "read_rates k s R = Inr (k', R') \<Longrightarrow> steps_ok k R \<Longrightarrow> steps_ok k' R' \<and> numRates R' = int k' \<and> 0 < k' \<and> dist R' = dist R"
proof (induction k s R arbitrary: k' R' rule: read_rates.induct)
  case (1 k s R)
  let ?R = "\<lambda>v d. R\<lparr>iats := (iats R)[k := v], durations := (durations R)[k := d], mean_iat := (if k = 0 then v else mean_iat R + v)\<rparr>"
  have k: "\<not> num_rates \<le> k" using "1.prems"(1) by (subst (asm) read_rates.simps) (auto split: if_splits)
  obtain v r r1 d r2 where run: "read_time s = Inr (v, r)" "after CHR '','' r = Inr r1" "read_time r1 = Inr (d, r2)"
    and rest: "(if r2 \<noteq> [] \<and> hd r2 = CHR '','' then read_rates (k + 1) (tl r2) (?R v d)
        else Inr (k + 1, (?R v d)\<lparr>numRates := int (k + 1)\<rparr>)) = Inr (k', R')"
    using "1.prems"(1) k by (subst (asm) read_rates.simps) (simp only: if_False ebind_Inr_iff Let_def split_paired_Ex prod.case, blast)
  have ok: "steps_ok (k + 1) (?R v d)"
    using steps_ok_step [OF "1.prems"(2)] k read_time_pos run(1,3) by simp
  show ?case
  proof (cases "r2 \<noteq> [] \<and> hd r2 = CHR '',''")
    case True
    then show ?thesis using "1.IH" [OF k run(1) refl run(2,3) refl refl True _ ok, of k' R'] rest by simp
  next
    case False
    then have "k' = k + 1" "R' = (?R v d)\<lparr>numRates := int (k + 1)\<rparr>" using rest by auto
    then show ?thesis using ok by simp
  qed
qed

lemma read_period_ok:
  assumes "rate_ok k R" "read_period s k R = Inr (k', R')"
  shows "rate_ok k' R'"
proof -
  obtain d r R1 where d: "read_dist s = Inr (d, r)" and m: "read_mean d r k (R\<lparr>dist := d\<rparr>) = Inr (k', R1)"
    and R': "R' = R1\<lparr>rate_param := (if mean_iat R1 \<le> 0 then 0 else 1 / mean_iat R1)\<rparr>"
    using assms(2) by (auto simp: read_period_def Inr_iff)
  have st: "steps_ok k (R\<lparr>dist := d\<rparr>)" "numRates R = int k" using assms(1) by (simp_all add: rate_ok_def)
  have "rate_ok k' R1"
  proof (cases "d = VARIABLE")
    case True
    then obtain R2 where R2: "read_rates k r (R\<lparr>dist := d\<rparr>) = Inr (k', R2)" "R1 = R2\<lparr>mean_iat := mean_iat R2 / real k'\<rparr>"
      using m by (auto simp: read_mean_def Inr_iff)
    then show ?thesis using read_rates_ok [OF R2(1) st(1)] by (simp add: rate_ok_def steps_ok_def)
  next
    case False
    then show ?thesis
      using m st read_time_pos by (cases d) (auto simp: read_mean_def Inr_iff rate_ok_def steps_ok_def)
  qed
  then show ?thesis by (simp add: R' rate_ok_def)
qed

lemma read_rate_ok: "rate_ok k R \<Longrightarrow> read_rate s R = Inr R' \<Longrightarrow> rate_ok k R'"
  by (auto simp: read_rate_def Inr_iff rate_ok_def steps_ok_def)

lemma read_sessions_ok: "read_sessions s = Inr (n, k, x) \<Longrightarrow> 0 \<le> x"
  by (auto simp: read_sessions_def Inr_iff dest: read_time_pos)

lemma read_session_log_ok: "read_session_log s = Inr (n, x, f) \<Longrightarrow> 0 \<le> x"
  by (auto simp: read_session_log_def Inr_iff dest: read_time_pos split: option.splits)

lemma read_working_set_ok: "read_working_set s = Inr (n, x) \<Longrightarrow> 0 \<le> x \<and> x \<le> 1"
  by (auto simp: read_working_set_def Inr_iff dest: read_time_pos split: if_splits)

lemma read_client_ok: "read_client s = Inr (i, n) \<Longrightarrow> i < n"
  by (auto simp: read_client_def Inr_iff not_le split: if_splits)

lemma print_flags_ok: "0 \<le> print_flags a \<and> print_flags a \<le> 3"
  by (auto simp: print_flags_def split: option.split list.split)

lemma port_ok: "\<not> 0xffff < (ucast v :: u32) \<Longrightarrow> 0 \<le> int_of_ulong v \<and> int_of_ulong v \<le> 0xffff"
proof -
  assume "\<not> 0xffff < (ucast v :: u32)"
  then have u: "uint (ucast v :: u32) \<le> 65535" by (simp add: not_less word_le_def)
  have "signed_take_bit 31 (uint (ucast v :: u32)) = uint (ucast v :: u32)"
  proof (rule signed_take_bit_int_eq_self)
    show "- (2 ^ 31) \<le> uint (ucast v :: u32)" by (rule order_trans [of _ 0]) simp_all
    show "uint (ucast v :: u32) < 2 ^ 31" by (rule le_less_trans [OF u]) simp
  qed
  then have "sint (ucast v :: u32) = uint (ucast v :: u32)" by (simp add: sint_uint)
  then show ?thesis using u by (simp add: int_of_ulong_def)
qed

text \<open>The arrays of generators and collectors while the options are read.\<close>

definition vars_ok :: "main_vars \<Rightarrow> bool" where
  "vars_ok m \<longleftrightarrow> (\<exists>a b. gen_arr m = [Some a, Some b, Some Conn_rate, None, None] \<and> b \<in> {Uri_fixed, Uri_wlog, Uri_wset}
     \<and> (if session_workload m then (a, num_gen m) \<in> {(Wsess, 2), (Wsesspage, 2), (Wsesslog, 1)} \<and> 1 < num_stats m
        else a = Call_seq \<and> num_gen m = 3 \<and> num_stats m = 1)
     \<and> num_stats m \<le> 3
     \<and> stat_arr m = Some Stats_basic # replicate (num_stats m - 1) (Some Session_stat) @ replicate (3 - num_stats m) None)"

lemma vars_ok_initial: "vars_ok initial_vars"
  by (simp add: vars_ok_def initial_vars_def numeral_2_eq_2)

definition options_ok :: "main_state \<Rightarrow> bool" where
  "options_ok M \<longleftrightarrow> params_ok (rates_read (fst M)) (param (snd M)) \<and> vars_ok (fst M)"

lemma session_option_ok:
  assumes "options_ok (m, S)" "session_option g k f (m, S) = Inr M'" "(g, k) \<in> {(Wsess, 2), (Wsesspage, 2), (Wsesslog, 1)}"
    and "\<And>h. f = Inr h \<Longrightarrow> params_ok (rates_read m) (h (param S))"
  shows "options_ok M'"
proof -
  obtain m' h where m': "add_collector Session_stat (set_generator 0 g (m\<lparr>num_gen := k\<rparr>)) = Inr m'" "f = Inr h"
    and M': "M' = upd_param h (m'\<lparr>session_workload := True\<rparr>, S)"
    using assms(2) by (auto simp: session_option_def Inr_iff)
  obtain a b where v: "gen_arr m = [Some a, Some b, Some Conn_rate, None, None]" "b \<in> {Uri_fixed, Uri_wlog, Uri_wset}"
      "1 \<le> num_stats m" "num_stats m \<le> 3"
      "stat_arr m = Some Stats_basic # replicate (num_stats m - 1) (Some Session_stat) @ replicate (3 - num_stats m) None"
    using assms(1) by (auto simp: options_ok_def vars_ok_def split: if_splits)
  consider "num_stats m = 1" | "num_stats m = 2" | "num_stats m = 3" using v(3,4) by linarith
  then have "vars_ok (m'\<lparr>session_workload := True\<rparr>) \<and> rates_read m' = rates_read m"
    using m'(1) v assms(3)
    by cases (auto simp: add_collector_def set_generator_def Inr_iff vars_ok_def numeral_2_eq_2 numeral_3_eq_3)
  then show ?thesis using assms(4) [OF m'(2)] by (simp add: M' options_ok_def upd_param_def)
qed

lemma core_add_addresses_param:
  fixes S T :: "('a, 'b, 'c) core_scheme"
  shows "core_add_addresses n res spec S = Inr T \<Longrightarrow> param T = param S"
proof -
  have one: "core_add_address addr U = Inr V \<Longrightarrow> param V = param U" for addr and U V :: "('a, 'b, 'c) core_scheme"
    by (auto simp: core_add_address_def malloc_def Inr_iff Let_def split: if_splits prod.splits option.splits)
  have range: "range_loop k addr end_addr U = Inr V \<Longrightarrow> param V = param U" for k addr end_addr and U V :: "('a, 'b, 'c) core_scheme"
    by (induction k arbitrary: addr U) (auto simp: Inr_iff split: if_splits dest: one)
  show "core_add_addresses n res spec S = Inr T \<Longrightarrow> param T = param S"
    by (auto simp: core_add_addresses_def Inr_iff split: option.splits) (metis one range)+
qed

text \<open>The parameters that may have any value, and the rest of the arrays' record.\<close>

lemma params_ok_any [simp]:
  "params_ok k (p\<lparr>additional_header := x0\<rparr>) \<longleftrightarrow> params_ok k p"
  "params_ok k (p\<lparr>additional_header_file := x1\<rparr>) \<longleftrightarrow> params_ok k p"
  "params_ok k (p\<lparr>close_with_reset := x2\<rparr>) \<longleftrightarrow> params_ok k p"
  "params_ok k (p\<lparr>hog := x3\<rparr>) \<longleftrightarrow> params_ok k p"
  "params_ok k (p\<lparr>http_version := x4\<rparr>) \<longleftrightarrow> params_ok k p"
  "params_ok k (p\<lparr>max_conns := x5\<rparr>) \<longleftrightarrow> params_ok k p"
  "params_ok k (p\<lparr>max_piped := x6\<rparr>) \<longleftrightarrow> params_ok k p"
  "params_ok k (p\<lparr>req_method := x7\<rparr>) \<longleftrightarrow> params_ok k p"
  "params_ok k (p\<lparr>no_host_hdr := x8\<rparr>) \<longleftrightarrow> params_ok k p"
  "params_ok k (p\<lparr>num_calls := x9\<rparr>) \<longleftrightarrow> params_ok k p"
  "params_ok k (p\<lparr>num_conns := x10\<rparr>) \<longleftrightarrow> params_ok k p"
  "params_ok k (p\<lparr>recv_buffer_size := x11\<rparr>) \<longleftrightarrow> params_ok k p"
  "params_ok k (p\<lparr>retry_on_failure := x12\<rparr>) \<longleftrightarrow> params_ok k p"
  "params_ok k (p\<lparr>send_buffer_size := x13\<rparr>) \<longleftrightarrow> params_ok k p"
  "params_ok k (p\<lparr>server := x14\<rparr>) \<longleftrightarrow> params_ok k p"
  "params_ok k (p\<lparr>server_name := x15\<rparr>) \<longleftrightarrow> params_ok k p"
  "params_ok k (p\<lparr>servers := x16\<rparr>) \<longleftrightarrow> params_ok k p"
  "params_ok k (p\<lparr>uri := x17\<rparr>) \<longleftrightarrow> params_ok k p"
  "params_ok k (p\<lparr>session_cookies := x18\<rparr>) \<longleftrightarrow> params_ok k p"
  "params_ok k (p\<lparr>think_timeout := x19\<rparr>) \<longleftrightarrow> params_ok k p"
  "params_ok k (p\<lparr>timeout := x20\<rparr>) \<longleftrightarrow> params_ok k p"
  by (simp_all add: params_ok_def)

lemma vars_ok_has_server [simp]: "vars_ok (m\<lparr>has_server := b\<rparr>) \<longleftrightarrow> vars_ok m"
  by (simp add: vars_ok_def)

lemma parse_option_ok:
  assumes ok: "options_ok (m, S)" and run: "parse_option n res (x, arg) (m, S) = Inr M'"
  shows "options_ok M'"
proof -
  have p: "params_ok (rates_read m) (param S)" and v: "vars_ok m" using ok by (simp_all add: options_ok_def)
  have gen: "vars_ok (set_generator 1 Uri_wlog m)" "vars_ok (set_generator 1 Uri_wset m)"
    using v by (auto simp: vars_ok_def set_generator_def)
  have rr: "rates_read (set_generator 1 g m) = rates_read m" for g by (simp add: set_generator_def)
  have one: "w \<noteq> 0 \<Longrightarrow> 1 \<le> w" for w :: u64 by (simp flip: not_less)
  note body = run [unfolded parse_option_def prod.case Let_def]
  note simple = ulong_option_def time_option_def buffer_option_def Inr_iff options_ok_def upd_param_def
  note defs = simple params_ok_def
  show ?thesis
  proof (cases x)
    case Wsess_opt
    then have r: "session_option Wsess 2 (ebind (read_sessions (case arg of None \<Rightarrow> [] | Some s \<Rightarrow> s)) (\<lambda>(k, c, t).
        Inr (\<lambda>p. p\<lparr>wsess_num_sessions := k, wsess_num_calls := c, wsess_think_time := t\<rparr>))) (m, S) = Inr M'"
      using body by (simp only: opt.case)
    show ?thesis by (rule session_option_ok [OF ok r]) (use p in \<open>auto simp: defs dest: read_sessions_ok\<close>)
  next
    case Wsesspage_opt
    then have r: "session_option Wsesspage 2 (ebind (read_sessions (case arg of None \<Rightarrow> [] | Some s \<Rightarrow> s)) (\<lambda>(k, c, t).
        Inr (\<lambda>p. p\<lparr>wsesspage_num_sessions := k, wsesspage_num_reqs := c, wsesspage_think_time := t\<rparr>))) (m, S) = Inr M'"
      using body by (simp only: opt.case)
    show ?thesis by (rule session_option_ok [OF ok r]) (use p in \<open>auto simp: defs dest: read_sessions_ok\<close>)
  next
    case Wsesslog_opt
    then have r: "session_option Wsesslog 1 (ebind (read_session_log (case arg of None \<Rightarrow> [] | Some s \<Rightarrow> s)) (\<lambda>(k, t, f).
        Inr (\<lambda>p. p\<lparr>wsesslog_num_sessions := k, wsesslog_think_time := t, wsesslog_file := Some f\<rparr>))) (m, S) = Inr M'"
      using body by (simp only: opt.case)
    show ?thesis by (rule session_option_ok [OF ok r]) (use p in \<open>auto simp: defs dest: read_session_log_ok\<close>)
  next
    case Print_reply
    then show ?thesis using body p v print_flags_ok [of arg] by (simp only: opt.case) (auto simp: defs)
  next
    case Print_request
    then show ?thesis using body p v print_flags_ok [of arg] by (simp only: opt.case) (auto simp: defs)
  next
    case Burst_length
    then show ?thesis using body p v by (simp only: opt.case) (auto simp: defs split: if_splits intro!: one)
  next
    case Client
    then show ?thesis using body p v by (simp only: opt.case) (auto simp: defs dest: read_client_ok)
  next
    case Period
    then show ?thesis using body p v by (simp only: opt.case) (auto simp: defs vars_ok_def dest: read_period_ok)
  next
    case Port
    then show ?thesis using body p v by (simp only: opt.case) (auto simp: defs dest: port_ok split: if_splits)
  next
    case Rate
    then show ?thesis using body p v by (simp only: opt.case) (auto simp: defs dest: read_rate_ok)
  next
    case Failure_status
    then show ?thesis using body p v by (simp only: opt.case) (auto simp: defs split: if_splits)
  next
    case Runtime
    then show ?thesis using body p v by (simp only: opt.case) (auto simp: defs split: if_splits)
  next
    case Wlog_opt
    then show ?thesis using body p by (simp only: opt.case) (auto simp del: One_nat_def simp: gen rr defs wlog_option_def split: if_splits)
  next
    case Wset_opt
    then show ?thesis using body p by (simp only: opt.case) (auto simp del: One_nat_def simp: gen rr defs dest: read_working_set_ok)
  next
    case Myaddr
    then show ?thesis using body ok core_add_addresses_param by (simp only: opt.case) (fastforce simp: Inr_iff options_ok_def)
  qed (insert body p v, simp_all only: opt.case, auto simp: simple split: if_splits)
qed

text \<open>What the modules that follow the loop add.\<close>

lemma use_server_ok:
  assumes "options_ok (m, S)" "use_server (m, S) = Inr (m', T)"
  shows "m' = m" "params_ok (rates_read m) (param T)" "0 \<le> server_port (param T)"
    and "has_server m \<Longrightarrow> servers (param T) = None"
  using assms by (auto simp: use_server_def options_ok_def Let_def params_ok_def split: if_splits)

definition filled :: "nat \<Rightarrow> 'a option list \<Rightarrow> bool" where
  "filled k xs \<longleftrightarrow> k \<le> length xs \<and> None \<notin> set (take k xs)"

lemma filled_Suc: "filled k xs \<Longrightarrow> k < length xs \<Longrightarrow> filled (Suc k) (xs[k := Some x])"
  by (auto simp: filled_def take_Suc_conv_app_nth)

definition arrays_ok :: "main_vars \<Rightarrow> bool" where
  "arrays_ok m \<longleftrightarrow> length (gen_arr m) = 5 \<and> length (stat_arr m) = 3
     \<and> filled (num_gen m) (gen_arr m) \<and> filled (num_stats m) (stat_arr m)"

lemma add_collector_arrays: "add_collector c m = Inr m' \<Longrightarrow> arrays_ok m \<Longrightarrow> arrays_ok m'"
  by (auto simp: add_collector_def Inr_iff arrays_ok_def intro!: filled_Suc)

lemma add_generator_arrays: "add_generator c m = Inr m' \<Longrightarrow> arrays_ok m \<Longrightarrow> arrays_ok m'"
  by (auto simp: add_generator_def Inr_iff arrays_ok_def intro!: filled_Suc)

lemma vars_ok_arrays:
  assumes "vars_ok m"
  shows "arrays_ok m"
proof -
  have "1 \<le> num_stats m" "num_stats m \<le> 3" "filled (num_gen m) (gen_arr m)" "length (gen_arr m) = 5"
    and stat: "stat_arr m = Some Stats_basic # replicate (num_stats m - 1) (Some Session_stat) @ replicate (3 - num_stats m) None"
    using assms by (auto simp: vars_ok_def filled_def numeral_2_eq_2 numeral_3_eq_3 split: if_splits)
  then consider "num_stats m = 1" | "num_stats m = 2" | "num_stats m = 3" by linarith
  then have "filled (num_stats m) (stat_arr m) \<and> length (stat_arr m) = 3"
    unfolding stat by cases (simp_all add: filled_def numeral_2_eq_2 numeral_3_eq_3)
  then show ?thesis using \<open>filled (num_gen m) (gen_arr m)\<close> \<open>length (gen_arr m) = 5\<close> by (simp add: arrays_ok_def)
qed

lemma use_modules_ok:
  assumes "arrays_ok m" "use_modules (m, S) = Inr (m', T)"
  shows "arrays_ok m' \<and> T = S"
proof -
  obtain m1 m2 where "(if print_reply (param S) \<noteq> 0 \<or> print_request (param S) \<noteq> 0 then add_collector Stats_print_reply m else Inr m) = Inr m1"
      "(if session_cookies (param S) then if session_workload m1 then add_generator Sess_cookie m1 else Inl (Exit (- 1)) else Inr m1) = Inr m2"
      "(if additional_header (param S) \<noteq> None \<or> additional_header_file (param S) \<noteq> None \<or> req_method (param S) \<noteq> None
        then add_generator Misc m2 else Inr m2) = Inr m'" "T = S"
    using assms(2) by (simp only: use_modules_def Let_def prod.case ebind_Inr_iff) blast
  then show ?thesis using assms(1) by (auto split: if_splits dest!: add_collector_arrays add_generator_arrays)
qed

text \<open>The array \<open>stat\<close> has room for two session workloads, or for one and the printing collector.\<close>

definition session_opts :: "opt list" where
  "session_opts = [Wsess_opt, Wsesslog_opt, Wsesspage_opt]"

definition asks :: "opt set \<Rightarrow> (opt \<times> 'a) list \<Rightarrow> nat" where
  "asks A opts = length (filter (\<lambda>x. fst x \<in> A) opts)"

definition seen :: "main_state \<Rightarrow> stat_collector option list \<times> nat \<times> bool \<times> int \<times> int \<times> bool" where
  "seen = (\<lambda>(m, S). (stat_arr m, num_stats m, session_workload m, print_reply (param S), print_request (param S),
     session_cookies (param S)))"

definition read_so_far :: "(opt \<times> 'a) list \<Rightarrow> main_state \<Rightarrow> bool" where
  "read_so_far opts M \<longleftrightarrow>
     (case seen M of (cs, k, workload, reply, request, cookies) \<Rightarrow>
        length cs = 3 \<and> k = 1 + asks (set session_opts) opts \<and> (workload \<longleftrightarrow> asks (set session_opts) opts \<noteq> 0)
        \<and> (asks {Print_reply, Print_request} opts \<noteq> 0 \<longrightarrow> reply \<noteq> 0 \<or> request \<noteq> 0)
        \<and> (asks {Session_cookies} opts \<noteq> 0 \<longrightarrow> cookies))"

lemma asks_snoc: "asks A (opts @ [x]) = (if fst x \<in> A then Suc (asks A opts) else asks A opts)"
  by (simp add: asks_def)

lemma session_option_seen:
  assumes "session_option g k f (m, S) = Inr M'"
    and "\<And>h p. f = Inr h \<Longrightarrow> print_reply (h p) = print_reply p \<and> print_request (h p) = print_request p
      \<and> session_cookies (h p) = session_cookies p"
  shows "\<exists>cs. seen M' = (cs, Suc (num_stats m), True, print_reply (param S), print_request (param S), session_cookies (param S))
     \<and> length cs = length (stat_arr m)"
  using assms by (auto simp: session_option_def add_collector_def set_generator_def upd_param_def Inr_iff seen_def)

lemma seen_other:
  assumes run: "parse_option n res (x, arg) (m, S) = Inr M'"
    and "x \<notin> set session_opts \<union> {Print_reply, Print_request, Session_cookies}"
  shows "seen M' = seen (m, S)"
proof -
  note body = run [unfolded parse_option_def prod.case Let_def]
  note defs = seen_def session_opts_def ulong_option_def time_option_def buffer_option_def Inr_iff upd_param_def
    set_generator_def wlog_option_def
  show ?thesis using body assms(2)
    by (cases x; simp only: opt.case; auto simp: defs dest: core_add_addresses_param split: if_splits)
qed

lemma seen_special:
  assumes run: "parse_option n res (x, arg) (m, S) = Inr M'"
  shows "x \<in> set session_opts \<Longrightarrow>
      \<exists>cs. seen M' = (cs, Suc (num_stats m), True, print_reply (param S), print_request (param S), session_cookies (param S))
     \<and> length cs = length (stat_arr m)"
    and "x = Print_reply \<Longrightarrow> seen M' = (stat_arr m, num_stats m, session_workload m, print_flags arg, print_request (param S), session_cookies (param S))"
    and "x = Print_request \<Longrightarrow> seen M' = (stat_arr m, num_stats m, session_workload m, print_reply (param S), print_flags arg, session_cookies (param S))"
    and "x = Session_cookies \<Longrightarrow> seen M' = (stat_arr m, num_stats m, session_workload m, print_reply (param S), print_request (param S), True)"
proof -
  note body = run [unfolded parse_option_def prod.case Let_def]
  show "\<exists>cs. seen M' = (cs, Suc (num_stats m), True, print_reply (param S), print_request (param S), session_cookies (param S))
     \<and> length cs = length (stat_arr m)" if x: "x \<in> set session_opts"
  proof -
    consider "x = Wsess_opt" | "x = Wsesslog_opt" | "x = Wsesspage_opt" using x by (auto simp: session_opts_def)
    then show ?thesis
      by cases (use body in \<open>simp_all only: opt.case\<close>, (erule session_option_seen, force simp: Inr_iff)+)
  qed
qed (use run [unfolded parse_option_def prod.case Let_def] in \<open>simp_all only: opt.case\<close>, auto simp: seen_def upd_param_def)

lemma print_flags_pos: "print_flags a \<noteq> 0"
  by (auto simp: print_flags_def split: option.split list.split)

lemma read_so_far_step:
  assumes so_far: "read_so_far opts (m, S)" and run: "parse_option n res (x, arg) (m, S) = Inr M'"
  shows "read_so_far (opts @ [(x, arg)]) M'"
proof -
  note so = so_far [unfolded read_so_far_def seen_def prod.case]
  consider "x \<notin> set session_opts \<union> {Print_reply, Print_request, Session_cookies}" | "x \<in> set session_opts" | "x = Print_reply" | "x = Print_request" | "x = Session_cookies"
    by auto
  then show ?thesis
  proof cases
    case 1
    then show ?thesis using seen_other [OF run 1] so_far by (simp add: read_so_far_def asks_snoc)
  next
    case 2
    then obtain cs where cs: "seen M' = (cs, Suc (num_stats m), True, print_reply (param S), print_request (param S), session_cookies (param S))"
        "length cs = length (stat_arr m)"
      using seen_special(1) [OF run] by blast
    show ?thesis using 2 so by (auto simp: read_so_far_def asks_snoc cs session_opts_def)
  next
    case 3
    show ?thesis using so by (auto simp: read_so_far_def asks_snoc 3 seen_special(2) [OF run 3] print_flags_pos session_opts_def)
  next
    case 4
    show ?thesis using so by (auto simp: read_so_far_def asks_snoc 4 seen_special(3) [OF run 4] print_flags_pos session_opts_def)
  next
    case 5
    show ?thesis using so by (auto simp: read_so_far_def asks_snoc 5 seen_special(4) [OF run 5] session_opts_def)
  qed
qed

lemma options_read:
  "efold (parse_option n res) opts M = Inr M' \<Longrightarrow> options_ok M \<Longrightarrow> read_so_far before M \<Longrightarrow>
   options_ok M' \<and> read_so_far (before @ opts) M'"
proof (induction opts arbitrary: M before)
  case (Cons o' opts)
  obtain x arg m S where x: "o' = (x, arg)" "M = (m, S)" by fastforce
  obtain M1 where M1: "parse_option n res (x, arg) (m, S) = Inr M1" "efold (parse_option n res) opts M1 = Inr M'"
    using Cons.prems(1) unfolding x by (auto simp: Inr_iff)
  show ?case using Cons.IH [OF M1(2) parse_option_ok [OF _ M1(1)] read_so_far_step [OF _ M1(1)]] Cons.prems(2,3) by (simp add: x)
qed simp

lemma parse_options_steps:
  assumes "parse_options n res opts S = Inr (m', T)" "param S = default_params"
  obtains m S1 where "options_ok (m, S1)" "read_so_far opts (m, S1)" "use_server (m, S1) = Inr (m, T)" "use_modules (m, T) = Inr (m', T)"
    "arrays_ok m'"
proof -
  obtain M1 M2 where run: "efold (parse_option n res) opts (initial_vars, S) = Inr M1" "use_server M1 = Inr M2" "use_modules M2 = Inr (m', T)"
    using assms(1) unfolding parse_options_def by (auto simp: Inr_iff)
  obtain m S1 m2 S2 where M: "M1 = (m, S1)" "M2 = (m2, S2)" by (cases M1, cases M2) auto
  have start: "options_ok (initial_vars, S)" "read_so_far ([] :: (opt \<times> string option) list) (initial_vars, S)"
    using vars_ok_initial params_ok_default
    by (simp_all add: options_ok_def read_so_far_def seen_def assms(2) initial_vars_def asks_def)
  have ok: "options_ok (m, S1)" "read_so_far opts (m, S1)"
    using options_read [OF run(1) start] by (simp_all add: M)
  have m: "m2 = m" "arrays_ok m" using use_server_ok(1) [OF ok(1)] run(2) ok(1) by (auto simp: M options_ok_def vars_ok_arrays)
  have "arrays_ok m'" "T = S2" using use_modules_ok [OF m(2)] run(3) by (auto simp: M m)
  then show ?thesis using that ok run by (simp add: M m)
qed

lemma initial_prog_param: "param initial_prog = default_params"
  by (simp add: initial_prog_def core.defs initial_state_def)

text \<open>A resolver that knows no names, for the examples.\<close>

definition offline_resolver :: resolver where
  "offline_resolver = \<lparr>gethostbyname = (\<lambda>_. None), inet_aton = (\<lambda>_. None)\<rparr>"

text \<open>
  C37: An accepted command line leaves well-formed parameters: a client number below the number of
  clients, a port that fits 16 bits, a burst length of at least 1, think times and miss rate in
  range, a schedule of rates whose steps fit its arrays, not both a server and a list of servers;
  and the arrays of load generators and statistics collectors hold an entry below their counts.
\<close>

theorem accepted_options_wellformed:
  assumes "parse_options n res opts S = Inr (m, T)" "param S = default_params"
  shows "params_ok (rates_read m) (param T) \<and> 0 \<le> server_port (param T)
    \<and> (has_server m \<longrightarrow> servers (param T) = None)
    \<and> num_gen m \<le> 5 \<and> None \<notin> set (take (num_gen m) (gen_arr m))
    \<and> num_stats m \<le> 3 \<and> None \<notin> set (take (num_stats m) (stat_arr m))"
proof -
  obtain m1 S1 where ok: "options_ok (m1, S1)" "use_server (m1, S1) = Inr (m1, T)" "use_modules (m1, T) = Inr (m, T)" "arrays_ok m"
    using parse_options_steps [OF assms] by blast
  have "rates_read m = rates_read m1 \<and> has_server m = has_server m1"
    using ok(3) by (auto simp: use_modules_def add_collector_def add_generator_def Inr_iff Let_def split: if_splits)
  then show ?thesis using use_server_ok(2-4) [OF ok(1,2)] ok(4) by (simp add: arrays_ok_def filled_def)
qed

theorem accepted_options_wellformed_witness:
  "\<exists>m T. parse_options 9 offline_resolver [(Client, Some ''0/4''), (Port, Some ''90'')] initial_prog = Inr (m, T)
     \<and> params_ok (rates_read m) (param T) \<and> server_port (param T) = 90"
proof -
  have d: "digits 10 0 = ''0''" "digits 10 4 = ''4''" "digits 10 90 = ''90''" by code_simp+
  have "read_client ''0/4'' = Inr (0, 4)" "whole_ulong ''90'' = Inr 90"
    using read_client_digits [of 0 4] whole_ulong_digits [of 90] by (simp_all add: d)
  then have run: "efold (parse_option 9 offline_resolver) [(Client, Some ''0/4''), (Port, Some ''90'')] (initial_vars, initial_prog)
      = Inr (upd_param (\<lambda>p. p\<lparr>client_id := 0, num_clients := 4, server_port := 90\<rparr>) (initial_vars, initial_prog))"
    by (simp only: efold.simps parse_option_def Let_def prod.case opt.case option.case)
      (simp add: upd_param_def int_of_ulong_def)
  have "\<exists>m T. parse_options 9 offline_resolver [(Client, Some ''0/4''), (Port, Some ''90'')] initial_prog = Inr (m, T) \<and> server_port (param T) = 90"
    by (simp add: parse_options_def run del: efold.simps) (simp add: upd_param_def use_server_def use_modules_def initial_vars_def initial_prog_param default_params_def)
  then show ?thesis using accepted_options_wellformed [OF _ initial_prog_param] by blast
qed

text \<open>
  C38: A command line that asks for more than the program has room for is not accepted: two session
  workloads with the printing of replies or requests, or three of them, overrun the array of
  statistics collectors, and cookies without a session workload are refused.
\<close>

theorem too_many_workloads:
  assumes "param S = default_params"
    and "2 < asks (set session_opts) opts + (if asks {Print_reply, Print_request} opts = 0 then 0 else 1)
       \<or> asks {Session_cookies} opts \<noteq> 0 \<and> asks (set session_opts) opts = 0"
  shows "\<exists>e. parse_options n res opts S = Inl e"
proof (cases "parse_options n res opts S")
  case (Inr M)
  obtain m T where M: "M = (m, T)" by (cases M)
  obtain m1 S1 where ok: "read_so_far opts (m1, S1)" "use_server (m1, S1) = Inr (m1, T)" "use_modules (m1, T) = Inr (m, T)" "arrays_ok m"
    using parse_options_steps [OF Inr [unfolded M] assms(1)] by blast
  have T: "print_reply (param T) = print_reply (param S1)" "print_request (param T) = print_request (param S1)"
      "session_cookies (param T) = session_cookies (param S1)"
    using ok(2) by (auto simp: use_server_def Let_def split: if_splits)
  have "num_stats m = num_stats m1 + (if print_reply (param T) \<noteq> 0 \<or> print_request (param T) \<noteq> 0 then 1 else 0)"
      "session_cookies (param T) \<Longrightarrow> session_workload m1"
    using ok(3) by (auto simp: use_modules_def add_collector_def add_generator_def Inr_iff Let_def split: if_splits)
  moreover have "num_stats m \<le> 3" using ok(4) by (simp add: arrays_ok_def filled_def)
  ultimately show ?thesis using assms(2) ok(1) by (auto simp: read_so_far_def seen_def T split: if_splits)
qed simp

theorem too_many_workloads_witness:
  "\<exists>e. parse_options 1 offline_resolver [(Wsess_opt, Some ''10,5,2''), (Wsesslog_opt, Some ''10,2,log''), (Print_reply, None)] initial_prog = Inl e"
  by (rule too_many_workloads [OF initial_prog_param]) (simp add: asks_def session_opts_def)

end
