(* ===== verification/Httperf_Main.thy ===== *)
theory Httperf_Main
  imports Options
begin

text \<open>
  The rest of \<^verbatim>\<open>main\<close> of \<^verbatim>\<open>src/src/httperf.c\<close>: the structures \<open>Load_Generator\<close> and
  \<open>Stat_Collector\<close> that each module exports, and the program from the initialisation of the
  timers to the reports.  The echo of the command line, the signal handler for \<open>SIGINT\<close> and
  \<open>getrusage\<close>, whose results are parameters, are left out.
\<close>

section \<open>Modules\<close>

definition collector_init :: "stat_collector \<Rightarrow> prog \<Rightarrow> prog result" where
  "collector_init c =
     (case c of Stats_basic \<Rightarrow> basic_init | Session_stat \<Rightarrow> sess_stat_init | Stats_print_reply \<Rightarrow> print_init)"

definition generator_init :: "load_generator \<Rightarrow> prog \<Rightarrow> prog result" where
  "generator_init g =
     (case g of
        Uri_fixed \<Rightarrow> uri_fixed_init | Uri_wlog \<Rightarrow> uri_wlog_init | Uri_wset \<Rightarrow> uri_wset_init
      | Conn_rate \<Rightarrow> conn_rate_init | Call_seq \<Rightarrow> call_seq_init
      | Wsess \<Rightarrow> wsess_init | Wsesslog \<Rightarrow> wsesslog_init | Wsesspage \<Rightarrow> page_init
      | Sess_cookie \<Rightarrow> cookie_init | Misc \<Rightarrow> misc_init)"

definition generator_start :: "nat \<Rightarrow> psignal \<Rightarrow> load_generator \<Rightarrow> prog \<Rightarrow> prog result" where
  "generator_start n sig g =
     (case g of
        Conn_rate \<Rightarrow> conn_rate_start (run_tick n sig)
      | Wsess \<Rightarrow> wsess_start (run_tick n sig)
      | Wsesslog \<Rightarrow> wsesslog_start (run_tick n sig)
      | Wsesspage \<Rightarrow> page_start (run_tick n sig)
      | _ \<Rightarrow> Inr)"

text \<open>\<open>stop_wlog\<close> unmaps the file.\<close>

definition generator_stop :: "load_generator \<Rightarrow> prog \<Rightarrow> prog" where
  "generator_stop g S = (if g = Uri_wlog then S\<lparr>wlog_file_map := []\<rparr> else S)"

datatype report = Basic_report basic_report | Session_report sess_report | No_report

definition collector_dump :: "real \<Rightarrow> real \<Rightarrow> stat_collector \<Rightarrow> prog \<Rightarrow> report" where
  "collector_dump user sys c S =
     (case c of
        Stats_basic \<Rightarrow> Basic_report (basic_dump user sys S)
      | Session_stat \<Rightarrow> Session_report (sess_stat_dump S)
      | Stats_print_reply \<Rightarrow> No_report)"

section \<open>The program\<close>

text \<open>A loop \<open>for (i = 0; i < k; ++i) (*a[i]->f) ()\<close>; an unset entry is a null pointer.\<close>

definition for_modules :: "nat \<Rightarrow> 'm option list \<Rightarrow> ('m \<Rightarrow> prog \<Rightarrow> prog result) \<Rightarrow> prog \<Rightarrow> prog result" where
  "for_modules k ms f = efold (\<lambda>i S. ebind (nth_c ms i) (\<lambda>p. ebind (deref p) (\<lambda>md. f md S))) [0..<k]"

definition main_init :: "nat \<Rightarrow> mapped_file \<Rightarrow> resolver \<Rightarrow> main_vars \<Rightarrow> prog \<Rightarrow> prog result" where
  "main_init n file res m S =
     (case timer_init S of
        (False, S) \<Rightarrow> Inl (Exit 1)
      | (True, S) \<Rightarrow>
          ebind (core_init file res (program_signal n) S) (\<lambda>S.
          ebind (for_modules (num_stats m) (stat_arr m) collector_init S)
            (for_modules (num_gen m) (gen_arr m) generator_init)))"

text \<open>
  The call of \<open>timer_now_forced\<close> reads the clock, but does not store the time.  The first sample
  of the rate is staggered among the clients; that its timer could not be had is not tested.
\<close>

definition main_start :: "nat \<Rightarrow> main_vars \<Rightarrow> prog \<Rightarrow> prog result" where
  "main_start n m S =
     (let S = snd (timer_now_forced S);
          t = (real_of (client_id (param S)) + 1) * rate_interval / real_of (num_clients (param S));
          S = snd (timer_schedule Perf_sample 0 t S);
          (t0, S) = timer_now S
      in ebind (for_modules (num_gen m) (gen_arr m) (generator_start n (program_signal n)) (S\<lparr>perf_sample_start := t0\<rparr>)) (\<lambda>S.
         let (t1, S) = timer_now S in Inr (S\<lparr>test_time_start := t1\<rparr>)))"

definition main_stop :: "nat \<Rightarrow> main_vars \<Rightarrow> prog \<Rightarrow> prog result" where
  "main_stop n m S =
     (let (t, S) = timer_now S in
      for_modules (num_gen m) (gen_arr m) (\<lambda>g S. Inr (generator_stop g S)) (S\<lparr>test_time_stop := t\<rparr>))"

definition main_reports :: "real \<Rightarrow> real \<Rightarrow> main_vars \<Rightarrow> prog \<Rightarrow> report list result" where
  "main_reports user sys m S =
     efold (\<lambda>i rs. ebind (nth_c (stat_arr m) i) (\<lambda>p. ebind (deref p) (\<lambda>c. Inr (rs @ [collector_dump user sys c S]))))
       [0..<num_stats m] []"

text \<open>
  \<open>main\<close>: at most \<open>k\<close> rounds of the main loop, and nested events and loops inside a round up to
  the bound \<open>n\<close>; the bound \<open>r\<close> is for the range of \<open>--myaddr\<close>.
\<close>

definition httperf_main :: "nat \<Rightarrow> nat \<Rightarrow> nat \<Rightarrow> mapped_file \<Rightarrow> resolver \<Rightarrow> real \<Rightarrow> real \<Rightarrow> (opt \<times> string option) list
    \<Rightarrow> prog \<Rightarrow> (report list \<times> prog) result" where
  "httperf_main r k n file res user sys opts S =
     ebind (parse_options r res opts S) (\<lambda>(m, S).
     ebind (main_init n file res m S) (\<lambda>S.
     ebind (main_start n m S) (\<lambda>S.
     ebind (program_loop k n S) (\<lambda>S.
     ebind (main_stop n m S) (\<lambda>S.
     ebind (main_reports user sys m S) (\<lambda>rs. Inr (rs, timer_free_all S)))))))"

end
