(* ===== verification/Brief_Run.thy ===== *)
theory Brief_Run
  imports Httperf_Main Options_Accepted Program_Inv
begin

text \<open>
  A concrete run of the whole program, from its command line to the end of the main loop: a second
  of run time, no connections, the cached time, and a clock that moves on a second whenever it is
  read.  The steps are lemmas of their own: options, timers, core, collectors, generators, loop.
\<close>

section \<open>The command line and the environment\<close>

definition brief_opts :: "(opt \<times> string option) list" where
  "brief_opts = [(Use_timer_cache, None), (Runtime, Some ''1''), (Num_conns, Some ''0'')]"

definition brief_resolver :: resolver where
  "brief_resolver = \<lparr>gethostbyname = (\<lambda>_. Some (Some 0x7f000001)), inet_aton = (\<lambda>_. None)\<rparr>"

definition brief_start :: prog where
  "brief_start = initial_prog\<lparr>clock := real, sysc := (\<lambda>_. (0, 0))\<rparr>"

definition brief_params :: params where
  "brief_params = default_params\<lparr>runtime := 1, num_conns := 0, server := ''localhost'', server_port := 80\<rparr>"

lemma brief_parsed:
  "parse_options 9 res brief_opts brief_start = Inr (initial_vars, brief_start\<lparr>param := brief_params, use_timer_cache := True\<rparr>)"
proof -
  have d: "digits 10 (Suc 0) = ''1''" "digits 10 0 = ''0''" by code_simp+
  have a: "whole_double ''1'' = Inr 1" "whole_ulong ''0'' = Inr 0"
    using read_double_digits [of 1 "[]"] whole_ulong_digits [of 0] by (simp_all add: d whole_double_def at_end_def cstr_def)
  have p: "param brief_start = default_params" by (simp add: brief_start_def initial_prog_param)
  have "efold (parse_option 9 res) brief_opts (initial_vars, brief_start)
      = Inr (initial_vars, brief_start\<lparr>param := default_params\<lparr>runtime := 1, num_conns := 0\<rparr>, use_timer_cache := True\<rparr>)"
    by (simp only: brief_opts_def efold.simps parse_option_def Let_def prod.case opt.case option.case)
      (simp add: upd_param_def ulong_option_def a p)
  then show ?thesis
    by (simp add: parse_options_def del: efold.simps)
      (simp add: use_server_def use_modules_def initial_vars_def default_params_def brief_params_def)
qed

section \<open>Initialisation\<close>

lemma init_pool_run:
  fixes s :: prog
  assumes "\<And>i. malloc_ok s i"
  shows "\<exists>tm ps k. init_pool n s = (True, s\<lparr>tmr := tm, passive_timers := ps, mallocs := k\<rparr>) \<and> length ps = n + length (passive_timers s)"
  using assms
proof (induction n arbitrary: s)
  case 0
  have "init_pool 0 s = (True, s\<lparr>tmr := tmr s, passive_timers := passive_timers s, mallocs := mallocs s\<rparr>)" by simp
  then show ?case
    by (intro exI [of _ "tmr s"] exI [of _ "passive_timers s"] exI [of _ "mallocs s"]) simp
next
  case (Suc n)
  let ?s = "s\<lparr>tmr := (tmr s)(mallocs s \<mapsto> zero_timer), mallocs := Suc (Suc (mallocs s)), passive_timers := mallocs s # passive_timers s\<rparr>"
  have "malloc_ok ?s i" for i using Suc.prems by simp
  from Suc.IH [of ?s, OF this] show ?case using Suc.prems by (auto simp: malloc_def push_timer_eq)
qed

lemma timer_init_run:
  fixes S :: prog
  assumes ok: "\<And>i. malloc_ok S i"
  shows "\<exists>tm t u ps k. timer_init S = (True, S\<lparr>passive_timers := t # u # ps, active_timers := [], persistent_timers := [],
     mallocs := k, tmr := tm, clock_reads := Suc (clock_reads S), now := clock S (clock_reads S)\<rparr>)"
proof -
  let ?S = "S\<lparr>passive_timers := [], active_timers := [], persistent_timers := []\<rparr>"
  obtain j where lists: "init_lists 3 ?S = (True, ?S\<lparr>mallocs := j\<rparr>)"
    using ok by (simp add: numeral_3_eq_3 malloc_def)
  obtain tm ps k where pool: "init_pool num_timers (?S\<lparr>mallocs := j\<rparr>) = (True, ?S\<lparr>mallocs := j, tmr := tm, passive_timers := ps, mallocs := k\<rparr>)"
    and len: "length ps = num_timers"
    using init_pool_run [of "?S\<lparr>mallocs := j\<rparr>" num_timers] ok by auto
  obtain t u qs where "ps = t # u # qs"
    using len by (cases ps; cases "tl ps") (auto simp: num_timers_def)
  then have "timer_init S = (True, S\<lparr>passive_timers := t # u # qs, active_timers := [], persistent_timers := [],
     mallocs := k, tmr := tm, clock_reads := Suc (clock_reads S), now := clock S (clock_reads S)\<rparr>)"
    by (simp add: timer_init_def lists pool timer_now_forced_def)
  then show ?thesis by blast
qed

lemma core_init_run:
  fixes S :: prog
  assumes "\<And>i. malloc_ok S i" "\<And>i. sysc S i = (0, 0)" "addresses S = []" "servers (param S) = None" "runtime (param S) = r" "r \<noteq> 0"
    and "action S = (\<lambda>_. [])" "use_timer_cache S" "passive_timers S = t # ps"
    and key: "0 \<le> hash_index (server (param S)) (server_port (param S))" "hash_index (server (param S)) (server_port (param S)) < int hash_table_size"
  shows "\<exists>tab ads k s. core_init file brief_resolver (program_signal 1) S
     = Inr (S\<lparr>addresses := ads, sysc_done := s, hash_table := tab, passive_timers := ps,
          tmr := (tmr S)(t \<mapsto> zero_timer\<lparr>time_started := now S, timeout_delay := r, timeout_callback := Some Core_runtime_timer\<rparr>),
          mallocs := k, active_timers := t # active_timers S\<rparr>)"
proof -
  let ?he = "\<lparr>he_hostname = None, he_port = 0, he_sin = (0, 0)\<rparr>"
  let ?i = "nat (hash_index (server (param S)) (server_port (param S)))"
  have i: "?i < hash_table_size" using key by simp
  have loop: "0 < k \<Longrightarrow> j < n \<Longrightarrow> enter_loop k (replicate n ?he) j = Inr j" for k n j by (cases k) simp_all
  have enter: "hash_enter hash_table_size (server (param S)) (server_port (param S)) a (replicate hash_table_size ?he)
      = Inr ((replicate hash_table_size ?he)[?i := \<lparr>he_hostname = Some (server (param S)), he_port = server_port (param S), he_sin = a\<rparr>])" for a
    using key i loop [of hash_table_size ?i hash_table_size] by (simp add: hash_enter_def)
  show ?thesis
    using assms(1-9) by (intro exI, simp add: core_init_def Let_def core_add_address_def malloc_def syscall_def numeral_2_eq_2 core_addr_intern_def event_signal_def
        brief_resolver_def enter timer_schedule_def timer_now_def push_timer_eq zero_timer_def)
qed

lemma brief_collectors:
  fixes S :: prog
  assumes "action S = (\<lambda>_. [])" "periodic_stats S = 0"
  shows "\<exists>b act. for_modules (num_stats initial_vars) (stat_arr initial_vars) collector_init S = Inr (S\<lparr>basic := b, action := act\<rparr>)
    \<and> (\<forall>ev. length (act ev) \<le> 1)"
proof -
  let ?b = "(basic S)\<lparr>conn_lifetime_min := dbl_max, reply_rate_min := dbl_max\<rparr>"
  let ?act = "\<lambda>ev. map snd (filter (\<lambda>r. fst r = ev) basic_handlers)"
  have "?act = (\<lambda>_. [])(EV_PERF_SAMPLE := [(Basic_perf_sample, Lng 0)], EV_CONN_FAILED := [(Basic_conn_fail, Lng 0)],
     EV_CONN_TIMEOUT := [(Basic_conn_timeout, Lng 0)], EV_CONN_NEW := [(Basic_conn_created, Lng 0)],
     EV_CONN_CONNECTING := [(Basic_conn_connecting, Lng 0)], EV_CONN_CONNECTED := [(Basic_conn_connected, Lng 0)],
     EV_CONN_DESTROYED := [(Basic_conn_destroyed, Lng 0)], EV_CALL_SEND_START := [(Basic_send_start, Lng 0)],
     EV_CALL_SEND_STOP := [(Basic_send_stop, Lng 0)], EV_CALL_RECV_START := [(Basic_recv_start, Lng 0)],
     EV_CALL_RECV_STOP := [(Basic_recv_stop, Lng 0)])"
    by (rule ext) (simp add: basic_handlers_def)
  then have "for_modules (num_stats initial_vars) (stat_arr initial_vars) collector_init S = Inr (S\<lparr>basic := ?b, action := ?act\<rparr>)"
    using assms by (simp add: initial_vars_def for_modules_def collector_init_def basic_init_def basic_handlers_def
        event_register_handler_def max_num_ops_def upd_basic_def)
  moreover have "length (?act ev) \<le> 1" for ev by (cases ev) (simp_all add: basic_handlers_def)
  ultimately show ?thesis by blast
qed

lemma brief_generators:
  fixes S :: prog
  assumes "\<And>ev. length (action S ev) \<le> 1"
  shows "\<exists>ts act l rg. for_modules (num_gen initial_vars) (gen_arr initial_vars) generator_init S
      = Inr (S\<lparr>type_size := ts, fixed_uri_len := l, rate_gens := rg, action := act\<rparr>)
    \<and> rg_tick (rg rg_conn_rate) = Make_conn \<and> length (act EV_CONN_DESTROYED) \<le> 2"
proof -
  have l: "\<not> 4 \<le> length (action S ev)" "length (action S ev) \<le> Suc 0" for ev
    using assms [of ev] by simp_all
  show ?thesis
    by (simp add: initial_vars_def for_modules_def numeral_3_eq_3 generator_init_def event_register_handler_def max_num_ops_def
        call_seq_init_def uri_fixed_init_def conn_rate_init_def object_expand_def Let_def upd_rg_def l)
      (intro exI conjI, rule refl, simp_all add: l)
qed

section \<open>The main loop\<close>

lemma brief_loop:
  fixes S :: prog
  assumes "use_timer_cache S" "passive_timers S = u # ps" "active_timers S = [t]" "t \<noteq> u" "\<And>i. malloc_ok S i"
    and "tmr S t = Some (zero_timer\<lparr>time_started := 0, timeout_delay := 1, timeout_callback := Some Core_runtime_timer\<rparr>)"
    and "param S = brief_params" "rg_tick (rate_gens S rg_conn_rate) = Make_conn" "length (action S EV_CONN_DESTROYED) \<le> 2"
    and "now S = 0" "clock S = real" "clock_reads S = 1" "num_conns_generated S = 0" "\<not> paused S" "running S" "waits S (waits_done S) = Ready []"
  shows "\<exists>S3 T. main_start 1 initial_vars S = Inr S3 \<and> program_loop 1 1 S3 = Inr T"
proof -
  have p: "rate_param (rate brief_params) = 0" "num_conns brief_params = 0" "client_id brief_params = 0" "num_clients brief_params = 1"
    by (simp_all add: brief_params_def default_params_def default_rate_def)
  show ?thesis
    using assms
    by (simp add: main_start_def initial_vars_def for_modules_def numeral_3_eq_3 generator_start_def conn_rate_start_def
        rate_generator_start_def timer_now_forced_def timer_now_def timer_schedule_def push_timer_eq zero_timer_def Let_def upd_rg_def
        event_register_handler_def max_num_ops_def call_tick_def run_tick_def make_conn_def as_ulong_def p rate_interval_def
        program_loop_def core_step_def timer_tick_def timer_has_expired_def run_callback_def core_runtime_timer_def core_exit_def
        timer_deactivate_def)
qed

lemma brief_start_fields:
  "param brief_start = default_params" "action brief_start = (\<lambda>_. [])" "tmr brief_start = (\<lambda>_. None)"
  "sess_priv brief_start = (\<lambda>_. zero_sess_private)" "malloc_ok brief_start i" "sysc brief_start i = (0, 0)" "addresses brief_start = []"
  "periodic_stats brief_start = 0" "clock brief_start = real" "clock_reads brief_start = 0" "num_conns_generated brief_start = 0"
  "\<not> paused brief_start" "running brief_start" "waits brief_start = (\<lambda>_. Ready [])"
  by (simp_all add: brief_start_def initial_prog_def initial_state_def core.defs)

lemma brief_run:
  "\<exists>S2 S3 T. main_init 1 Not_opened brief_resolver initial_vars (brief_start\<lparr>param := brief_params, use_timer_cache := True\<rparr>) = Inr S2
     \<and> main_start 1 initial_vars S2 = Inr S3 \<and> program_loop 1 1 S3 = Inr T"
proof -
  let ?S1 = "brief_start\<lparr>param := brief_params, use_timer_cache := True\<rparr>"
  have p: "servers brief_params = None" "runtime brief_params = 1" "server brief_params = ''localhost''" "server_port brief_params = 80"
    by (simp_all add: brief_params_def default_params_def)
  obtain tm t u ps k where A: "timer_init ?S1 = (True, ?S1\<lparr>passive_timers := t # u # ps, active_timers := [], persistent_timers := [],
      mallocs := k, tmr := tm, clock_reads := 1, now := 0\<rparr>)" (is "_ = (True, ?A)")
    using timer_init_run [of ?S1] by (auto simp: brief_start_fields)
  have "timers_inv ?A" using timer_init_inv [OF _ A] by (simp add: timers_inv_def brief_start_fields)
  then have tu: "t \<noteq> u" by (auto simp: timers_inv_def)
  have "valid_key ''localhost'' 80" by (simp add: valid_key_def)
  note key = hash_index_range [OF this]
  obtain tab ads j s where B: "core_init Not_opened brief_resolver (program_signal 1) ?A
      = Inr (?A\<lparr>addresses := ads, sysc_done := s, hash_table := tab, passive_timers := u # ps,
          tmr := tm(t \<mapsto> zero_timer\<lparr>time_started := 0, timeout_delay := 1, timeout_callback := Some Core_runtime_timer\<rparr>),
          mallocs := j, active_timers := [t]\<rparr>)" (is "_ = Inr ?B")
    using core_init_run [of ?A 1 t "u # ps" Not_opened] key by (auto simp: brief_start_fields p)
  obtain b act where C: "for_modules (num_stats initial_vars) (stat_arr initial_vars) collector_init ?B = Inr (?B\<lparr>basic := b, action := act\<rparr>)" (is "_ = Inr ?C")
    and C2: "\<forall>ev. length (act ev) \<le> 1"
    using brief_collectors [of ?B] by (auto simp: brief_start_fields)
  obtain ts act' l rg where D: "for_modules (num_gen initial_vars) (gen_arr initial_vars) generator_init ?C
      = Inr (?C\<lparr>type_size := ts, fixed_uri_len := l, rate_gens := rg, action := act'\<rparr>)" (is "_ = Inr ?D")
    and D2: "rg_tick (rg rg_conn_rate) = Make_conn" "length (act' EV_CONN_DESTROYED) \<le> 2"
    using brief_generators [of ?C] C2 by auto
  have "main_init 1 Not_opened brief_resolver initial_vars ?S1 = Inr ?D"
    by (simp only: main_init_def A B C D prod.case bool.case ebind_simps)
  moreover have "\<exists>S3 T. main_start 1 initial_vars ?D = Inr S3 \<and> program_loop 1 1 S3 = Inr T"
    by (rule brief_loop [of _ u ps t]) (use tu D2 in \<open>simp_all add: brief_start_fields\<close>)
  ultimately show ?thesis by blast
qed

end
