(* ===== verification/Startup.thy ===== *)
theory Startup
  imports Brief_Run
begin

text \<open>
  From the command line to the main loop.  The modules that an accepted command line asks for
  register their handlers, the statistics collectors before the load generators; the table has
  room for all of them; and the program enters its main loop with the invariants that theory
  \<open>Program_Inv\<close> follows through it.
\<close>

section \<open>The handlers of a module\<close>

definition collector_handlers :: "params \<Rightarrow> stat_collector \<Rightarrow> (event_type \<times> handler \<times> any_type) list" where
  "collector_handlers p c =
     (case c of Stats_basic \<Rightarrow> basic_handlers | Session_stat \<Rightarrow> sess_stat_handlers | Stats_print_reply \<Rightarrow> print_handlers p)"

definition session_handlers :: "(event_type \<times> handler \<times> any_type) list" where
  "session_handlers =
     [(EV_SESS_DESTROYED, Session_sess_destroyed, Lng 0), (EV_CONN_CONNECTED, Session_conn_connected, Lng 0),
      (EV_CONN_FAILED, Session_conn_failed, Lng 0), (EV_CONN_TIMEOUT, Session_conn_timeout, Lng 0),
      (EV_CALL_RECV_STOP, Session_call_done, Lng 0)]"

definition generator_handlers :: "load_generator \<Rightarrow> (event_type \<times> handler \<times> any_type) list" where
  "generator_handlers g =
     (case g of
        Uri_fixed \<Rightarrow> [(EV_CALL_NEW, Uri_fixed_set_uri, Lng 0)]
      | Uri_wlog \<Rightarrow> [(EV_CALL_NEW, Uri_wlog_set_uri, Lng 0)]
      | Uri_wset \<Rightarrow> [(EV_CALL_NEW, Uri_wset_set_uri, Lng 0)]
      | Conn_rate \<Rightarrow> [(EV_CONN_DESTROYED, Conn_rate_destroyed, Lng 0)]
      | Call_seq \<Rightarrow> [(EV_CONN_CONNECTED, Call_seq_conn_connected, Lng 0), (EV_CALL_RECV_STOP, Call_seq_call_done, Lng 0),
                    (EV_CALL_DESTROYED, Call_seq_call_destroyed, Lng 0)]
      | Wsess \<Rightarrow> session_handlers @ [(EV_SESS_DESTROYED, Wsess_sess_destroyed, Lng 0), (EV_CALL_DESTROYED, Wsess_call_destroyed, Lng 0)]
      | Wsesslog \<Rightarrow> [(EV_SESS_DESTROYED, Wsesslog_sess_destroyed, Lng 0), (EV_CALL_DESTROYED, Wsesslog_call_destroyed, Lng 0)]
                   @ session_handlers
      | Wsesspage \<Rightarrow> session_handlers
          @ [(EV_CALL_RECV_HDR, Wsesspage_call_recv_hdr, Lng 0), (EV_CALL_RECV_DATA, Wsesspage_call_recv_data, Lng 0),
             (EV_SESS_DESTROYED, Wsesspage_sess_destroyed, Lng 0), (EV_CALL_DESTROYED, Wsesspage_call_destroyed, Lng 0)]
      | Sess_cookie \<Rightarrow> [(EV_CALL_ISSUE, Cookie_call_issue, Lng 0), (EV_CALL_RECV_HDR, Cookie_call_recv_hdr, Lng 0)]
      | Misc \<Rightarrow> [(EV_CALL_NEW, Misc_call_created, Lng 0)])"

text \<open>The handlers of the modules that \<open>main\<close> has selected, in the order of their initialisation.\<close>

definition startup_handlers :: "params \<Rightarrow> main_vars \<Rightarrow> (event_type \<times> handler \<times> any_type) list" where
  "startup_handlers p m =
     concat (map (collector_handlers p \<circ> the) (take (num_stats m) (stat_arr m)))
     @ concat (map (generator_handlers \<circ> the) (take (num_gen m) (gen_arr m)))"

section \<open>What the initialisation of a module does\<close>

definition readies :: "(event_type \<times> handler \<times> any_type) list \<Rightarrow> prog \<Rightarrow> prog \<Rightarrow> bool" where
  "readies hs S T \<longleftrightarrow>
     (\<forall>et. action T et = action S et @ map snd (filter (\<lambda>r. fst r = et) hs))
     \<and> (handlers_inv S \<longrightarrow> handlers_inv T) \<and> (timers_inv S \<longrightarrow> timers_inv T)
     \<and> sess_priv T = sess_priv S \<and> print_reply (param T) = print_reply (param S) \<and> print_request (param T) = print_request (param S)"

lemma readies_trans: "readies hs S T \<Longrightarrow> readies hs' T U \<Longrightarrow> readies (hs @ hs') S U"
  by (auto simp: readies_def)

lemma readies_register:
  "event_register_handler et h a S = Inr T \<Longrightarrow> readies [(et, h, a)] S T"
  by (auto simp: readies_def event_register_handler_def timers_inv_def handlers_inv_def max_num_ops_def split: if_splits)

lemma readies_register_all: "register_all hs S = Inr T \<Longrightarrow> readies hs S T"
proof (induction hs S rule: register_all.induct)
  case (2 et h a rs s)
  then obtain s1 where s1: "event_register_handler et h a s = Inr s1" "register_all rs s1 = Inr T"
    by (auto simp: Inr_iff)
  show ?case using readies_trans [OF readies_register [OF s1(1)] "2.IH" [OF s1(1,2)]] by simp
qed (simp add: readies_def)

text \<open>Changes that concern neither the table nor the timers.\<close>

definition aside :: "prog \<Rightarrow> prog \<Rightarrow> bool" where
  "aside S T \<longleftrightarrow>
     tmr T = tmr S \<and> passive_timers T = passive_timers S \<and> active_timers T = active_timers S
     \<and> persistent_timers T = persistent_timers S \<and> mallocs S \<le> mallocs T \<and> action T = action S \<and> sess_priv T = sess_priv S
     \<and> print_reply (param T) = print_reply (param S) \<and> print_request (param T) = print_request (param S)"

lemma aside_readies: "aside S T \<Longrightarrow> readies [] S T"
  unfolding aside_def readies_def timers_inv_def handlers_inv_def by (auto intro: less_le_trans)

lemma readies_aside: "aside S T \<Longrightarrow> readies hs T U \<Longrightarrow> readies hs S U"
  using readies_trans [OF aside_readies] by fastforce

lemma readies_schedule: "timer_schedule f x d S = (w, T) \<Longrightarrow> readies [] S T"
  using timer_schedule_inv [of S f x d w T] more_fields [OF schedule_fields, of f x d S w T]
  by (auto simp: readies_def handlers_inv_def)

lemma aside_expand [simp]: "aside S (snd (object_expand t k S))"
  by (simp add: aside_def object_expand_def Let_def)

lemma aside_refl: "aside S S"
  by (simp add: aside_def)

lemma aside_trans: "aside S T \<Longrightarrow> aside T U \<Longrightarrow> aside S U"
  by (auto simp: aside_def)

lemma register_seq:
  "ebind (event_register_handler et h a S) f = Inr U \<Longrightarrow> (\<And>T. f T = Inr U \<Longrightarrow> readies hs T U) \<Longrightarrow> readies ((et, h, a) # hs) S U"
  using readies_trans [OF readies_register] by (fastforce simp: Inr_iff)

lemma register_after:
  "event_register_handler et h a U = Inr T \<Longrightarrow> aside S U \<Longrightarrow> readies [(et, h, a)] S T"
  by (rule readies_aside [OF _ readies_register])

lemma basic_init_readies: "basic_init S = Inr T \<Longrightarrow> readies basic_handlers S T"
proof -
  assume run: "basic_init S = Inr T"
  let ?S = "upd_basic (\<lambda>b. b\<lparr>conn_lifetime_min := dbl_max, reply_rate_min := dbl_max\<rparr>) S"
  obtain U where U: "register_all basic_handlers ?S = Inr U"
      "T = (if periodic_stats U \<noteq> 0 then snd (timer_schedule One_second_timer 0 1 U) else U)"
    using run by (auto simp: basic_init_def Inr_iff)
  have "aside S ?S" by (simp add: aside_def upd_basic_def)
  from readies_aside [OF this readies_register_all [OF U(1)]] have R: "readies basic_handlers S U" .
  have "readies [] U T"
    unfolding U(2) using aside_readies [OF aside_refl] readies_schedule [OF prod.collapse [symmetric]] by simp
  from readies_trans [OF R this] show ?thesis by simp
qed

lemma sess_stat_init_readies: "sess_stat_init S = Inr T \<Longrightarrow> readies sess_stat_handlers S T"
proof -
  assume run: "sess_stat_init S = Inr T"
  obtain p U where U: "malloc (snd (object_expand OBJ_SESS 16 S)) = (Some p, U)"
      "register_all sess_stat_handlers (upd_st (\<lambda>s. s\<lparr>len_hist := replicate 16 0, rate_min := dbl_max\<rparr>) U) = Inr T"
    using run by (auto simp: sess_stat_init_def split: prod.splits option.splits)
  have "aside S (upd_st (\<lambda>s. s\<lparr>len_hist := replicate 16 0, rate_min := dbl_max\<rparr>) U)"
    using U(1) by (auto simp: aside_def upd_st_def malloc_def object_expand_def Let_def split: if_splits)
  then show ?thesis using U(2) by (rule readies_aside [OF _ readies_register_all])
qed

lemma print_init_readies: "print_init S = Inr T \<Longrightarrow> readies (print_handlers (param S)) S T"
  unfolding print_init_def by (rule readies_aside [OF aside_expand readies_register_all])

lemma session_init_readies: "session_init S = Inr T \<Longrightarrow> readies session_handlers S T"
  unfolding session_init_def session_handlers_def Let_def
  by (auto split: if_splits intro!: readies_aside [OF _ register_seq, rotated] readies_register
      simp: aside_def object_expand_def Let_def)

text \<open>The generators.\<close>

lemma aside_upd_rg [simp]: "aside S (upd_rg g f S)"
  by (simp add: aside_def upd_rg_def)

lemma call_seq_init_readies: "call_seq_init S = Inr T \<Longrightarrow> readies (generator_handlers Call_seq) S T"
  unfolding call_seq_init_def generator_handlers_def load_generator.case
  by (rule readies_aside [OF aside_expand], erule register_seq, erule register_seq, erule readies_register)

lemma conn_rate_init_readies: "conn_rate_init S = Inr T \<Longrightarrow> readies (generator_handlers Conn_rate) S T"
  unfolding conn_rate_init_def generator_handlers_def load_generator.case
  by (rule readies_aside [OF aside_upd_rg], erule readies_register)

lemma uri_fixed_init_readies: "uri_fixed_init S = Inr T \<Longrightarrow> readies (generator_handlers Uri_fixed) S T"
  unfolding uri_fixed_init_def generator_handlers_def load_generator.case
  by (erule register_after) (simp add: aside_def)

lemma uri_wlog_init_readies: "uri_wlog_init S = Inr T \<Longrightarrow> readies (generator_handlers Uri_wlog) S T"
  unfolding uri_wlog_init_def generator_handlers_def load_generator.case
  by (auto split: option.splits if_splits simp: aside_def elim!: register_after)

lemma uri_wset_init_readies: "uri_wset_init S = Inr T \<Longrightarrow> readies (generator_handlers Uri_wset) S T"
  unfolding uri_wset_init_def generator_handlers_def load_generator.case
  by (auto simp: aside_def object_expand_def drand48_def Let_def split: if_splits elim!: register_after)

lemma cookie_init_readies: "cookie_init S = Inr T \<Longrightarrow> readies (generator_handlers Sess_cookie) S T"
  unfolding cookie_init_def generator_handlers_def load_generator.case Let_def
  by (rule readies_aside [OF aside_trans [OF aside_expand aside_expand]], erule register_seq, erule readies_register)

lemma misc_init_readies:
  assumes "misc_init S = Inr T"
  shows "readies (generator_handlers Misc) S T"
proof -
  obtain S1 where S1: "(case additional_header (param S) of None \<Rightarrow> Inr S
      | Some h \<Rightarrow> (case malloc S of (None, S) \<Rightarrow> Inl (Exit 1)
          | (Some _, S) \<Rightarrow> ebind (unescape (cstr h)) (\<lambda>t. Inr (S\<lparr>misc_extra := t, misc_extra_len := length t\<rparr>)))) = Inr S1"
    using assms unfolding misc_init_def by (auto simp: Inr_iff)
  have a: "aside S S1"
    using S1 by (auto simp: aside_def malloc_def Inr_iff split: option.splits if_splits)
  let ?F = "case additional_header_file (param S1) of None \<Rightarrow> S1
    | Some f \<Rightarrow> (case files S1 f of None \<Rightarrow> S1 | Some t \<Rightarrow> S1\<lparr>misc_extra_file := t, misc_file_len := length t\<rparr>)"
  let ?U = "case req_method (param ?F) of None \<Rightarrow> ?F | Some m \<Rightarrow> ?F\<lparr>misc_method_len := length (cstr m)\<rparr>"
  have "event_register_handler EV_CALL_NEW Misc_call_created (Lng 0) ?U = Inr T"
    using assms unfolding misc_init_def Let_def S1 by simp
  moreover have "aside S1 ?U" by (simp add: aside_def split: option.split)
  ultimately show ?thesis unfolding generator_handlers_def load_generator.case
    using aside_trans [OF a] by (blast intro: register_after)
qed

lemma wsess_init_readies:
  assumes "wsess_init S = Inr T"
  shows "readies (generator_handlers Wsess) S T"
proof -
  obtain S1 where S1: "session_init S = Inr S1"
    and rest: "ebind (event_register_handler EV_SESS_DESTROYED Wsess_sess_destroyed (Lng 0)
        (upd_rg rg_wsess (\<lambda>r. r\<lparr>rg_tick := Wsess_sess_create\<rparr>) (snd (object_expand OBJ_SESS 24 S1))))
      (event_register_handler EV_CALL_DESTROYED Wsess_call_destroyed (Lng 0)) = Inr T"
    using assms by (simp only: wsess_init_def Let_def ebind_Inr_iff [of "session_init S"]) blast
  have "readies [(EV_SESS_DESTROYED, Wsess_sess_destroyed, Lng 0), (EV_CALL_DESTROYED, Wsess_call_destroyed, Lng 0)] S1 T"
    by (rule readies_aside [OF aside_trans [OF aside_expand aside_upd_rg] register_seq [OF rest]]) (erule readies_register)
  from readies_trans [OF session_init_readies [OF S1] this] show ?thesis
    by (simp add: generator_handlers_def)
qed

lemma page_init_readies:
  assumes "page_init S = Inr T"
  shows "readies (generator_handlers Wsesspage) S T"
proof -
  let ?S = "S\<lparr>page_prefix := rev (dropWhile (\<lambda>d. d \<noteq> CHR ''/'') (rev (cstr (uri (param S)))))\<rparr>"
  have slash: "CHR ''/'' \<in> set (cstr (uri (param S)))"
  proof (rule ccontr)
    assume "CHR ''/'' \<notin> set (cstr (uri (param S)))"
    then show False using assms by (simp add: page_init_def)
  qed
  obtain S1 where S1: "session_init ?S = Inr S1"
    and rest: "ebind (event_register_handler EV_CALL_RECV_HDR Wsesspage_call_recv_hdr (Lng 0)
        (upd_rg rg_wsesspage (\<lambda>r. r\<lparr>rg_tick := Wsesspage_sess_create\<rparr>) (snd (object_expand OBJ_SESS 32 (snd (object_expand OBJ_CALL 1040 S1)))))) (\<lambda>S.
      ebind (event_register_handler EV_CALL_RECV_DATA Wsesspage_call_recv_data (Lng 0) S) (\<lambda>S.
      ebind (event_register_handler EV_SESS_DESTROYED Wsesspage_sess_destroyed (Lng 0) S)
        (event_register_handler EV_CALL_DESTROYED Wsesspage_call_destroyed (Lng 0)))) = Inr T"
    using assms by (simp only: page_init_def Let_def slash not_not if_False simp_thms ebind_Inr_iff [of "session_init ?S"]) blast
  have "aside S ?S" by (simp add: aside_def)
  note first = readies_aside [OF this session_init_readies [OF S1]]
  have "readies [(EV_CALL_RECV_HDR, Wsesspage_call_recv_hdr, Lng 0), (EV_CALL_RECV_DATA, Wsesspage_call_recv_data, Lng 0),
     (EV_SESS_DESTROYED, Wsesspage_sess_destroyed, Lng 0), (EV_CALL_DESTROYED, Wsesspage_call_destroyed, Lng 0)] S1 T"
    by (rule readies_aside [OF aside_trans [OF aside_trans [OF aside_expand aside_expand] aside_upd_rg] register_seq [OF rest]],
        erule register_seq, erule register_seq, erule readies_register)
  from readies_trans [OF first this] show ?thesis by (simp add: generator_handlers_def)
qed

lemma wsesslog_init_readies:
  assumes "wsesslog_init S = Inr T"
  shows "readies (generator_handlers Wsesslog) S T"
proof -
  obtain S1 where S1: "parse_config S = Inr S1" using assms by (auto simp: wsesslog_init_def Inr_iff)
  have a: "aside S S1" using S1 by (auto simp: parse_config_def aside_def Inr_iff split: option.splits)
  obtain S2 S3 where S2: "event_register_handler EV_SESS_DESTROYED Wsesslog_sess_destroyed (Lng 0)
        (upd_rg rg_wsesslog (\<lambda>r. r\<lparr>rg_tick := Wsesslog_sess_create\<rparr>) (snd (object_expand OBJ_SESS 48 S1))) = Inr S2"
      "event_register_handler EV_CALL_DESTROYED Wsesslog_call_destroyed (Lng 0) S2 = Inr S3" "session_init S3 = Inr T"
    using assms by (simp only: wsesslog_init_def S1 Let_def ebind_simps ebind_Inr_iff) blast
  have "readies [(EV_SESS_DESTROYED, Wsesslog_sess_destroyed, Lng 0)] S1 S2"
    by (rule register_after [OF S2(1)]) (rule aside_trans [OF aside_expand aside_upd_rg])
  from readies_aside [OF a readies_trans [OF readies_trans [OF this readies_register [OF S2(2)]] session_init_readies [OF S2(3)]]]
  show ?thesis by (simp add: generator_handlers_def)
qed

section \<open>The initialisation of the program\<close>

lemma print_handlers_cong:
  "print_reply p = print_reply q \<Longrightarrow> print_request p = print_request q \<Longrightarrow> print_handlers p = print_handlers q"
  by (simp add: print_handlers_def)

lemma collector_init_readies: "collector_init c S = Inr T \<Longrightarrow> readies (collector_handlers (param S) c) S T"
  by (cases c) (simp_all add: collector_init_def collector_handlers_def basic_init_readies sess_stat_init_readies print_init_readies)

lemma generator_init_readies: "generator_init g S = Inr T \<Longrightarrow> readies (generator_handlers g) S T"
  by (cases g) (simp_all add: generator_init_def uri_fixed_init_readies uri_wlog_init_readies uri_wset_init_readies
      conn_rate_init_readies call_seq_init_readies wsess_init_readies wsesslog_init_readies page_init_readies
      cookie_init_readies misc_init_readies)

lemma for_modules_Suc:
  "for_modules (Suc k) ms f S = ebind (for_modules k ms f S) (\<lambda>S. ebind (nth_c ms k) (\<lambda>p. ebind (deref p) (\<lambda>md. f md S)))"
proof -
  have "efold g [] = Inr" for g :: "nat \<Rightarrow> prog \<Rightarrow> prog result" by (rule ext) simp
  then have "efold g [x] = g x" for g :: "nat \<Rightarrow> prog \<Rightarrow> prog result" and x by (intro ext) simp
  then show ?thesis by (simp add: for_modules_def efold_append)
qed

lemma for_modules_readies:
  assumes step: "\<And>md U V. f md U = Inr V \<Longrightarrow> print_reply (param U) = a \<Longrightarrow> print_request (param U) = b \<Longrightarrow> readies (hs md) U V"
    and "print_reply (param S) = a" "print_request (param S) = b" "for_modules k ms f S = Inr T"
  shows "readies (concat (map (hs \<circ> the) (take k ms))) S T"
  using assms(4)
proof (induction k arbitrary: T)
  case 0
  then show ?case by (simp add: for_modules_def aside_readies aside_refl)
next
  case (Suc k)
  then obtain U md where U: "for_modules k ms f S = Inr U" "k < length ms" "ms ! k = Some md" "f md U = Inr T"
    by (auto simp: for_modules_Suc Inr_iff)
  have R: "readies (concat (map (hs \<circ> the) (take k ms))) S U" by (rule Suc.IH [OF U(1)])
  then have "readies (hs md) U T" by (intro step [OF U(4)]) (simp_all add: readies_def assms(2,3))
  from readies_trans [OF R this] show ?case by (simp add: take_Suc_conv_app_nth U(2,3) o_def)
qed

text \<open>As long as no handler is registered, a signal does nothing.\<close>

lemma no_handlers: "action S ev = [] \<Longrightarrow> program_signal n ev x a S = Inr T \<Longrightarrow> T = S"
  by (cases n) (simp_all add: event_signal_def)

lemma aside_intern:
  assumes "core_addr_intern res (program_signal n) host prt S = Inr T" "action S = (\<lambda>_. [])"
  shows "aside S T"
proof -
  obtain S1 S2 tab where S1: "program_signal n EV_HOSTNAME_LOOKUP_START 0 (Bytes host) S = Inr S1"
    and S2: "program_signal n EV_HOSTNAME_LOOKUP_STOP 0 (Bytes host) S1 = Inr S2" and T: "T = S2\<lparr>hash_table := tab\<rparr>"
    using assms(1) unfolding core_addr_intern_def by (auto simp: Inr_iff)
  have "S1 = S" using no_handlers [OF _ S1] assms(2) by simp
  moreover from this have "S2 = S" using no_handlers [OF _ S2] assms(2) by simp
  ultimately show ?thesis by (simp add: aside_def T)
qed

lemma aside_servers:
  assumes "conn_add_servers file res (program_signal n) S = Inr T" "action S = (\<lambda>_. [])"
  shows "aside S T"
proof -
  obtain f U where U: "efold (\<lambda>name S. core_addr_intern res (program_signal n) name (server_port (param S)) S) (server_names f)
      (S\<lparr>srv_file := f\<rparr>) = Inr U" "T = U\<lparr>srvcurrent := 0\<rparr>"
    using assms(1) unfolding conn_add_servers_def by (auto simp: Inr_iff split: mapped_file.splits if_splits)
  have "returns (aside S) (efold (\<lambda>name S. core_addr_intern res (program_signal n) name (server_port (param S)) S) (server_names f)
      (S\<lparr>srv_file := f\<rparr>))"
  proof (rule returns_efold)
    show "aside S (S\<lparr>srv_file := f\<rparr>)" by (simp add: aside_def)
    show "returns (aside S) (core_addr_intern res (program_signal n) name (server_port (param V)) V)" if V: "aside S V" for name V
    proof -
      have "action V = (\<lambda>_. [])" using V assms(2) by (simp add: aside_def)
      then show ?thesis using aside_trans [OF V aside_intern] unfolding returns_def by blast
    qed
  qed
  then show ?thesis using U by (simp add: returns_def aside_def)
qed

lemma ebind_InrE:
  assumes "ebind m f = Inr y"
  obtains x where "m = Inr x" "f x = Inr y"
  using assms by (auto simp: Inr_iff)

lemma core_init_readies:
  assumes run: "core_init file res (program_signal n) S = Inr T" and act: "action S = (\<lambda>_. [])"
  shows "readies [] S T"
proof -
  let ?S = "S\<lparr>hash_table := replicate hash_table_size \<lparr>he_hostname = None, he_port = 0, he_sin = (0, 0)\<rparr>\<rparr>"
  obtain S1 where S1: "(if addresses ?S = [] then core_add_address 0 ?S else Inr ?S) = Inr S1"
    using run unfolding core_init_def Let_def by (auto simp: Inr_iff)
  have a1: "aside S S1" using S1 by (auto simp: core_add_address_def malloc_def aside_def split: if_splits)
  obtain fd S2 where S2: "syscall S1 = (fd, S2)" by fastforce
  obtain p S3 where S3: "malloc S2 = (p, S3)" by fastforce
  obtain b S4 where S4: "all_succeed 2 S3 = (b, S4)" by fastforce
  have env: "aside U V" if "internal U V" for U V using that by (simp add: internal_def aside_def)
  have a4: "aside S S4"
    using aside_trans [OF a1] aside_trans env internal_syscall [OF S2] internal_malloc [OF S3] internal_all_succeed [OF S4] by blast
  note run4 = run [unfolded core_init_def Let_def S1 ebind_simps S2 prod.case S3 S4]
  obtain q where ok: "\<not> fd < 0" "p = Some q" b
    using run4 by (cases "fd < 0"; cases p; cases b) simp_all
  obtain S5 where S5: "(if servers (param S4) \<noteq> None then conn_add_servers file res (program_signal n) S4
        else core_addr_intern res (program_signal n) (server (param S4)) (server_port (param S4)) S4) = Inr S5"
    and T: "T = (if runtime (param S5) \<noteq> 0 then snd (timer_schedule Core_runtime_timer 0 (runtime (param S5)) S5) else S5)"
  proof -
    have "ebind (if servers (param S4) \<noteq> None then conn_add_servers file res (program_signal n) S4
        else core_addr_intern res (program_signal n) (server (param S4)) (server_port (param S4)) S4)
        (\<lambda>S. if runtime (param S) \<noteq> 0 then Inr (snd (timer_schedule Core_runtime_timer 0 (runtime (param S)) S)) else Inr S) = Inr T"
      using run4 ok by simp
    then show thesis using that by (cases rule: ebind_InrE) (simp split: if_splits)
  qed
  have "action S4 = (\<lambda>_. [])" using a4 act by (simp add: aside_def)
  then have "aside S4 S5" using S5 aside_servers aside_intern by (auto split: if_splits)
  then have "readies [] S S5" using aside_readies aside_trans [OF a4] by blast
  moreover have "readies [] S5 T"
    unfolding T using aside_readies [OF aside_refl] readies_schedule [OF prod.collapse [symmetric]] by simp
  ultimately show ?thesis using readies_trans by fastforce
qed

lemma timer_init_fields:
  fixes S T :: prog
  assumes "timer_init S = (True, T)"
  shows "tstate.more T = tstate.more S"
proof -
  have lists: "init_lists k U = (b, V) \<Longrightarrow> tstate.more V = tstate.more U" for k b and U V :: prog
    by (induction k arbitrary: U) (auto simp: malloc_def split: if_splits prod.splits)
  have pool: "init_pool k U = (b, V) \<Longrightarrow> tstate.more V = tstate.more U" for k b and U V :: prog
    by (induction k arbitrary: U) (auto simp: malloc_def push_timer_eq split: if_splits prod.splits)
  let ?S = "S\<lparr>passive_timers := [], active_timers := [], persistent_timers := []\<rparr>"
  obtain b U where U: "init_lists 3 ?S = (b, U)" by fastforce
  obtain c V where V: "init_pool num_timers U = (c, V)" by fastforce
  have b: b c using assms by (auto simp: timer_init_def U V split: bool.splits)
  have "T = V\<lparr>clock_reads := Suc (clock_reads V), now := clock V (clock_reads V)\<rparr>"
    using assms b by (simp add: timer_init_def U V timer_now_forced_def)
  then show ?thesis using lists [OF U] pool [OF V] by simp
qed

lemma main_init_steps:
  assumes "main_init n file res m S = Inr T"
  obtains S1 S2 S3 where "timer_init S = (True, S1)" "core_init file res (program_signal n) S1 = Inr S2"
    "for_modules (num_stats m) (stat_arr m) collector_init S2 = Inr S3" "for_modules (num_gen m) (gen_arr m) generator_init S3 = Inr T"
  using assms unfolding main_init_def by (auto simp: Inr_iff split: prod.splits bool.splits)

lemma main_init_readies:
  assumes run: "main_init n file res m S = Inr T" and act: "action S = (\<lambda>_. [])" and S: "tmr S = (\<lambda>_. None)"
  shows "(\<forall>ev. action T ev = map snd (filter (\<lambda>r. fst r = ev) (startup_handlers (param S) m)))
     \<and> handlers_inv T \<and> timers_inv T \<and> sess_priv T = sess_priv S"
proof -
  obtain S1 S2 S3 where S1: "timer_init S = (True, S1)" and S2: "core_init file res (program_signal n) S1 = Inr S2"
    and S3: "for_modules (num_stats m) (stat_arr m) collector_init S2 = Inr S3"
    and T: "for_modules (num_gen m) (gen_arr m) generator_init S3 = Inr T"
    by (rule main_init_steps [OF run])
  have f1: "action S1 = (\<lambda>_. [])" "param S1 = param S" "sess_priv S1 = sess_priv S"
    using more_fields [OF timer_init_fields [OF S1]] act by auto
  have t1: "timers_inv S1" using timer_init_inv [OF _ S1] S by (simp add: timers_inv_def)
  have hi: "handlers_inv S1" by (simp add: handlers_inv_def f1)
  have r2: "readies [] S1 S2" by (rule core_init_readies [OF S2 f1(1)])
  let ?cs = "concat (map (collector_handlers (param S) \<circ> the) (take (num_stats m) (stat_arr m)))"
  have r3: "readies ?cs S2 S3"
  proof (rule for_modules_readies [OF _ _ _ S3])
    show "readies (collector_handlers (param S) c) U V"
      if "collector_init c U = Inr V" "print_reply (param U) = print_reply (param S)" "print_request (param U) = print_request (param S)"
      for c U V using collector_init_readies [OF that(1)] print_handlers_cong [OF that(2,3)] by (cases c) (simp_all add: collector_handlers_def)
  qed (use r2 f1(2) in \<open>simp_all add: readies_def\<close>)
  have r4: "readies (concat (map (generator_handlers \<circ> the) (take (num_gen m) (gen_arr m)))) S3 T"
    by (rule for_modules_readies [OF _ refl refl T]) (rule generator_init_readies)
  from readies_trans [OF readies_trans [OF r2 r3] r4] show ?thesis
    using f1 t1 hi by (simp add: readies_def startup_handlers_def)
qed

section \<open>The start of the generators\<close>

text \<open>
  Besides what the handlers do, starting a rate generator may register \<open>Rate_done\<close>: an
  invariant that survives this, too, holds when the main loop is entered.
\<close>

locale start_inv = closed_inv +
  assumes C_done: "I S \<Longrightarrow> event_register_handler et Rate_done (Ptr g) S = Inr T \<Longrightarrow> I T"
begin

lemma start_timer_keeps:
  assumes "I S"
  shows "returns I (ebind (next_interarrival d g S) (\<lambda>(delay, S).
      let (t, S) = timer_now S; S = upd_rg g (\<lambda>r. r\<lparr>next_time := t + delay\<rparr>) S; (w, S) = timer_schedule Rate_tick g delay S
      in Inr (upd_rg g (\<lambda>r. r\<lparr>rg_timer := w\<rparr>) S)))"
proof -
  have step: "I (upd_rg g h V)" if "I U" "timer_now U = (t, U')" "timer_schedule Rate_tick g delay (upd_rg g f U') = (w, V)" for f h U U' V t w delay
    using that program.I_results(5) program.I_results(9) program.I_module_simps(11) by metis
  show ?thesis using assms by (auto simp: Let_def split: prod.split intro: step)
qed

lemma rate_start_keeps:
  assumes S: "I S" and run: "rate_generator_start (run_tick n (program_signal n)) g ev S = Inr T"
  shows "I T"
proof -
  let ?S = "upd_rg g (\<lambda>r. r\<lparr>xsubi := rate_seed (client_id (param S))\<rparr>) S"
  obtain U where U: "(if 0 < rate_param (rate (param ?S)) then
       ebind (next_interarrival (dist (rate (param ?S))) g (upd_rg g (\<lambda>r. r\<lparr>next_interarrival_time := dist (rate (param ?S))\<rparr>) ?S)) (\<lambda>(delay, S).
         let (t, S) = timer_now S; S = upd_rg g (\<lambda>r. r\<lparr>next_time := t + delay\<rparr>) S; (w, S) = timer_schedule Rate_tick g delay S
         in Inr (upd_rg g (\<lambda>r. r\<lparr>rg_timer := w\<rparr>) S))
      else event_register_handler ev Rate_done (Ptr g) ?S) = Inr U"
    and T: "(let (t, S) = timer_now U in call_tick (run_tick n (program_signal n)) g (upd_rg g (\<lambda>r. r\<lparr>rg_start := t\<rparr>) S)) = Inr T"
    using run unfolding rate_generator_start_def Let_def by (rule ebind_InrE)
  have "I ?S" using S by simp
  have "I U"
  proof (cases "0 < rate_param (rate (param ?S))")
    case True
    show ?thesis
      by (rule returnsD [OF start_timer_keeps U [unfolded if_P [OF True]]]) (rule program.I_module_simps(11) [OF \<open>I ?S\<close>])
  next
    case False
    show ?thesis by (rule C_done [OF \<open>I ?S\<close> U [unfolded if_not_P [OF False]]])
  qed
  then have "returns I (let (t, S) = timer_now U in call_tick (run_tick n (program_signal n)) g (upd_rg g (\<lambda>r. r\<lparr>rg_start := t\<rparr>) S))"
    using program.I_results(5) [of U] by (auto simp: Let_def split: prod.split)
  then show ?thesis using T by (rule returnsD)
qed

lemma generator_start_keeps: "I S \<Longrightarrow> generator_start n (program_signal n) g S = Inr T \<Longrightarrow> I T"
  by (cases g) (auto simp: generator_start_def conn_rate_start_def wsess_start_def wsesslog_start_def page_start_def
      dest: rate_start_keeps)

lemma for_modules_keeps:
  assumes "I S" "for_modules k ms (generator_start n (program_signal n)) S = Inr T"
  shows "I T"
  using assms(2) by (induction k arbitrary: T)
    (use assms(1) in \<open>auto simp: for_modules_Suc Inr_iff intro: generator_start_keeps, simp add: for_modules_def\<close>)

lemma main_start_keeps:
  assumes "I S" "main_start n m S = Inr T"
  shows "I T"
proof -
  have q: "quiet U (U\<lparr>perf_sample_start := t\<rparr>)" "quiet U (U\<lparr>test_time_start := t\<rparr>)" "quiet U (snd (timer_now_forced U))" for U :: prog and t
    by (simp_all add: quiet_def timer_now_forced_def)
  let ?S = "snd (timer_now_forced S)"
  obtain w S1 where S1: "timer_schedule Perf_sample 0
      ((real_of (client_id (param ?S)) + 1) * rate_interval / real_of (num_clients (param ?S))) ?S = (w, S1)" by fastforce
  obtain t0 S2 where S2: "timer_now S1 = (t0, S2)" by fastforce
  have "ebind (for_modules (num_gen m) (gen_arr m) (generator_start n (program_signal n)) (S2\<lparr>perf_sample_start := t0\<rparr>))
      (\<lambda>S. case timer_now S of (t1, S) \<Rightarrow> Inr (S\<lparr>test_time_start := t1\<rparr>)) = Inr T"
    using assms(2) by (simp only: main_start_def Let_def S1 S2 snd_conv prod.case)
  then obtain S3 where S3: "for_modules (num_gen m) (gen_arr m) (generator_start n (program_signal n)) (S2\<lparr>perf_sample_start := t0\<rparr>) = Inr S3"
      "T = (snd (timer_now S3))\<lparr>test_time_start := fst (timer_now S3)\<rparr>"
    by (rule ebind_InrE) (simp add: split_def)
  have "I (S2\<lparr>perf_sample_start := t0\<rparr>)"
    using C_quiet [OF _ q(1)] C_quiet [OF assms(1) q(3)] C_schedule [OF _ S1] C_internal [OF _ internal_now [OF S2]] by blast
  then have "I S3" by (rule for_modules_keeps [OF _ S3(1)])
  then show ?thesis unfolding S3(2) using C_quiet [OF _ q(2)] C_internal [OF _ internal_now [OF prod.collapse [symmetric]]] by blast
qed

end

section \<open>The modules of an accepted command line\<close>

definition session_gens :: "load_generator list" where
  "session_gens = [Wsess, Wsesspage, Wsesslog]"

definition workload_gens :: "bool \<Rightarrow> load_generator list list" where
  "workload_gens sessions =
     (if sessions then [Wsesslog] # concat (map (\<lambda>b. [[Wsess, b], [Wsesspage, b]]) [Uri_fixed, Uri_wlog, Uri_wset])
      else map (\<lambda>b. [Call_seq, b, Conn_rate]) [Uri_fixed, Uri_wlog, Uri_wset])"

lemma add_collector_take:
  "add_collector c m = Inr m' \<Longrightarrow> take (num_stats m') (stat_arr m') = take (num_stats m) (stat_arr m) @ [Some c]
     \<and> gen_arr m' = gen_arr m \<and> num_gen m' = num_gen m \<and> session_workload m' = session_workload m"
  by (auto simp: add_collector_def Inr_iff take_Suc_conv_app_nth)

lemma add_generator_take:
  "add_generator c m = Inr m' \<Longrightarrow> take (num_gen m') (gen_arr m') = take (num_gen m) (gen_arr m) @ [Some c]
     \<and> stat_arr m' = stat_arr m \<and> num_stats m' = num_stats m \<and> session_workload m' = session_workload m"
  by (auto simp: add_generator_def Inr_iff take_Suc_conv_app_nth)

lemma use_modules_take:
  assumes "use_modules (m, S) = Inr (m', T)"
  obtains pr ck ms where "take (num_stats m') (stat_arr m') = take (num_stats m) (stat_arr m) @ (if pr then [Some Stats_print_reply] else [])"
    "take (num_gen m') (gen_arr m') = take (num_gen m) (gen_arr m) @ (if ck then [Some Sess_cookie] else []) @ (if ms then [Some Misc] else [])"
    "ck \<longrightarrow> session_workload m" "session_workload m' = session_workload m"
proof -
  let ?pr = "print_reply (param S) \<noteq> 0 \<or> print_request (param S) \<noteq> 0"
  let ?ck = "session_cookies (param S)"
  let ?ms = "additional_header (param S) \<noteq> None \<or> additional_header_file (param S) \<noteq> None \<or> req_method (param S) \<noteq> None"
  obtain m1 m2 where m: "(if ?pr then add_collector Stats_print_reply m else Inr m) = Inr m1"
      "(if ?ck then if session_workload m1 then add_generator Sess_cookie m1 else Inl (Exit (- 1)) else Inr m1) = Inr m2"
      "(if ?ms then add_generator Misc m2 else Inr m2) = Inr m'"
    using assms by (simp only: use_modules_def Let_def prod.case ebind_Inr_iff) blast
  have m1: "take (num_stats m1) (stat_arr m1) = take (num_stats m) (stat_arr m) @ (if ?pr then [Some Stats_print_reply] else [])"
      "gen_arr m1 = gen_arr m" "num_gen m1 = num_gen m" "session_workload m1 = session_workload m"
    using m(1) by (auto dest: add_collector_take split: if_splits)
  have m2: "take (num_gen m2) (gen_arr m2) = take (num_gen m1) (gen_arr m1) @ (if ?ck then [Some Sess_cookie] else [])"
      "stat_arr m2 = stat_arr m1" "num_stats m2 = num_stats m1" "session_workload m2 = session_workload m1" "?ck \<longrightarrow> session_workload m1"
    using m(2) by (auto dest: add_generator_take split: if_splits)
  have m3: "take (num_gen m') (gen_arr m') = take (num_gen m2) (gen_arr m2) @ (if ?ms then [Some Misc] else [])"
      "stat_arr m' = stat_arr m2" "num_stats m' = num_stats m2" "session_workload m' = session_workload m2"
    using m(3) by (auto dest: add_generator_take split: if_splits)
  show thesis by (rule that [of ?pr ?ck ?ms]) (simp_all add: m1 m2 m3, use m1(4) m2(5) in simp)
qed

lemma vars_ok_modules:
  assumes "vars_ok m"
  shows "take (num_stats m) (stat_arr m) = Some Stats_basic # replicate (num_stats m - 1) (Some Session_stat)"
    and "\<exists>gs \<in> set (workload_gens (session_workload m)). take (num_gen m) (gen_arr m) = map Some gs"
proof -
  have n: "1 \<le> num_stats m" "num_stats m \<le> 3"
    and stat: "stat_arr m = Some Stats_basic # replicate (num_stats m - 1) (Some Session_stat) @ replicate (3 - num_stats m) None"
    using assms by (auto simp: vars_ok_def split: if_splits)
  show "take (num_stats m) (stat_arr m) = Some Stats_basic # replicate (num_stats m - 1) (Some Session_stat)"
    unfolding stat using n(1) by (simp add: take_Cons')
  show "\<exists>gs \<in> set (workload_gens (session_workload m)). take (num_gen m) (gen_arr m) = map Some gs"
    using assms by (auto simp: vars_ok_def workload_gens_def numeral_2_eq_2 numeral_3_eq_3 split: if_splits)
qed

definition count :: "event_type \<Rightarrow> (event_type \<times> 'h \<times> any_type) list \<Rightarrow> nat" where
  "count ev hs = length (filter (\<lambda>r. fst r = ev) hs)"

lemma count_append [simp]: "count ev (xs @ ys) = count ev xs + count ev ys"
  by (simp add: count_def)

lemma accepted_modules:
  assumes "parse_options n res opts S = Inr (m, T)" "param S = default_params"
  obtains s pr ck ms gs where "s = asks (set session_opts) opts" "session_workload m \<longleftrightarrow> s \<noteq> 0"
    "take (num_stats m) (stat_arr m) = map Some (Stats_basic # replicate s Session_stat @ (if pr then [Stats_print_reply] else []))"
    "take (num_gen m) (gen_arr m) = map Some (gs @ (if ck then [Sess_cookie] else []) @ (if ms then [Misc] else []))"
    "gs \<in> set (workload_gens (s \<noteq> 0))" "ck \<longrightarrow> s \<noteq> 0"
proof -
  obtain m1 S1 where ok: "options_ok (m1, S1)" "read_so_far opts (m1, S1)" "use_modules (m1, T) = Inr (m, T)"
    using parse_options_steps [OF assms] by blast
  let ?s = "asks (set session_opts) opts"
  have s: "num_stats m1 = Suc ?s" "session_workload m1 \<longleftrightarrow> ?s \<noteq> 0"
    using ok(2) by (simp_all add: read_so_far_def seen_def)
  have v: "vars_ok m1" using ok(1) by (simp add: options_ok_def)
  obtain gs where gs: "gs \<in> set (workload_gens (?s \<noteq> 0))" "take (num_gen m1) (gen_arr m1) = map Some gs"
    using vars_ok_modules(2) [OF v] s(2) by auto
  obtain pr ck ms where u: "take (num_stats m) (stat_arr m) = take (num_stats m1) (stat_arr m1) @ (if pr then [Some Stats_print_reply] else [])"
    "take (num_gen m) (gen_arr m) = take (num_gen m1) (gen_arr m1) @ (if ck then [Some Sess_cookie] else []) @ (if ms then [Some Misc] else [])"
    "ck \<longrightarrow> session_workload m1" "session_workload m = session_workload m1"
    by (rule use_modules_take [OF ok(3)])
  show thesis
    by (rule that [of ?s pr gs ck ms]) (use u gs s vars_ok_modules(1) [OF v] in \<open>simp_all add: map_replicate\<close>)
qed

section \<open>Room for the handlers\<close>

definition all_events :: "event_type list" where
  "all_events = [EV_NULL, EV_PERF_SAMPLE, EV_HOSTNAME_LOOKUP_START, EV_HOSTNAME_LOOKUP_STOP, EV_SESS_NEW, EV_SESS_FAILED,
     EV_SESS_DESTROYED, EV_CONN_NEW, EV_CONN_CONNECTING, EV_CONN_CONNECTED, EV_CONN_CLOSE, EV_CONN_DESTROYED, EV_CONN_FAILED,
     EV_CONN_TIMEOUT, EV_CALL_NEW, EV_CALL_ISSUE, EV_CALL_SEND_START, EV_CALL_SEND_RAW_DATA, EV_CALL_SEND_STOP,
     EV_CALL_RECV_START, EV_CALL_RECV_HDR, EV_CALL_RECV_RAW_DATA, EV_CALL_RECV_DATA, EV_CALL_RECV_FOOTER, EV_CALL_RECV_STOP,
     EV_CALL_DESTROYED]"

lemma all_events: "ev \<in> set all_events"
  by (cases ev) (simp_all add: all_events_def)

text \<open>An event at whose signal \<open>Rate_done\<close> may be registered when the generators start.\<close>

definition rate_done_slot :: "event_type \<Rightarrow> nat" where
  "rate_done_slot ev = (if ev = EV_SESS_DESTROYED \<or> ev = EV_CONN_DESTROYED then 1 else 0)"

definition print_events :: "event_type list" where
  "print_events = [EV_CALL_SEND_RAW_DATA, EV_CALL_RECV_RAW_DATA, EV_CALL_RECV_DATA, EV_CALL_RECV_STOP, EV_CALL_DESTROYED]"

lemma print_count: "count ev (print_handlers p) \<le> (if ev \<in> set print_events then 1 else 0)"
  by (auto simp: count_def print_handlers_def print_events_def)

definition most_handlers :: "bool \<Rightarrow> load_generator list \<Rightarrow> event_type \<Rightarrow> nat" where
  "most_handlers sessions gs ev =
     count ev basic_handlers + (if sessions then count ev sess_stat_handlers else 0) + (if ev \<in> set print_events then 1 else 0)
     + count ev (concat (map generator_handlers (gs @ (if sessions then [Sess_cookie] else []) @ [Misc]))) + rate_done_slot ev"

lemma most_handlers_fit: "gs \<in> set (workload_gens b) \<Longrightarrow> most_handlers b gs ev \<le> max_num_ops"
proof -
  have "list_all (\<lambda>b. list_all (\<lambda>gs. list_all (\<lambda>ev. most_handlers b gs ev \<le> max_num_ops) all_events) (workload_gens b)) [False, True]"
    by code_simp
  then show "gs \<in> set (workload_gens b) \<Longrightarrow> most_handlers b gs ev \<le> max_num_ops"
    using all_events by (cases b) (auto simp: list_all_iff)
qed

lemma startup_count:
  assumes "take (num_stats m) (stat_arr m) = map Some cs" "take (num_gen m) (gen_arr m) = map Some gs"
  shows "count ev (startup_handlers p m) = count ev (concat (map (collector_handlers p) cs)) + count ev (concat (map generator_handlers gs))"
  by (simp add: startup_handlers_def assms o_def)

lemma session_slots: "gs \<in> set (workload_gens True) \<Longrightarrow> 2 \<le> count EV_SESS_DESTROYED (concat (map generator_handlers gs))"
proof -
  have "list_all (\<lambda>gs. 2 \<le> count EV_SESS_DESTROYED (concat (map generator_handlers gs))) (workload_gens True)" by code_simp
  then show "gs \<in> set (workload_gens True) \<Longrightarrow> 2 \<le> count EV_SESS_DESTROYED (concat (map generator_handlers gs))"
    by (simp add: list_all_iff)
qed

lemma count_replicate: "count ev (concat (replicate s hs)) = s * count ev hs"
  by (induction s) (simp_all add: count_def)

lemma count_Nil [simp]: "count ev [] = 0"
  by (simp add: count_def)



section \<open>The state of the main loop\<close>

interpretation started_timers: start_inv "\<lambda>S. timers_inv S \<and> grows S0 S" for S0
proof
  fix S T :: prog and et g
  assume I: "timers_inv S \<and> grows S0 S" and reg: "event_register_handler et Rate_done (Ptr g) S = Inr T"
  have "tmr T = tmr S" "passive_timers T = passive_timers S" "active_timers T = active_timers S"
    "persistent_timers T = persistent_timers S" "mallocs S \<le> mallocs T" "now T = now S" "use_timer_cache T = use_timer_cache S"
    using reg by (auto simp: event_register_handler_def split: if_splits)
  from timers_cong [OF this] I show "timers_inv T \<and> grows S0 T" using grows_trans by blast
qed

interpretation started_rings: start_inv "rings_ok m" for m
proof
  fix S T :: prog and et g
  assume I: "rings_ok m S" and reg: "event_register_handler et Rate_done (Ptr g) S = Inr T"
  show "rings_ok m T" by (rule rings_ok_cong [OF I]) (use reg in \<open>auto simp: event_register_handler_def split: if_splits\<close>)
qed

text \<open>Behind the handlers of the modules stands at most \<open>Rate_done\<close>.\<close>

definition extends_table :: "(event_type \<Rightarrow> (handler \<times> any_type) list) \<Rightarrow> prog \<Rightarrow> bool" where
  "extends_table tab S \<longleftrightarrow> (\<forall>ev. \<exists>rs. action S ev = tab ev @ rs \<and> (\<forall>r \<in> set rs. fst r = Rate_done))"

lemma extends_table_cong: "action T = action S \<Longrightarrow> extends_table tab S \<Longrightarrow> extends_table tab T"
  by (simp add: extends_table_def)

interpretation start_table: closed_loop_inv "extends_table tab" for tab
proof
  fix S T :: prog and f x d w tm
  assume I: "extends_table tab S"
  show "internal S T \<Longrightarrow> extends_table tab T" "quiet S T \<Longrightarrow> extends_table tab T"
    by (rule extends_table_cong [OF _ I]; simp add: internal_def quiet_def)+
  show more: "tstate.more T = tstate.more S \<Longrightarrow> extends_table tab T" using extends_table_cong [OF _ I] more_fields by metis
  show "timer_schedule f x d S = (w, T) \<Longrightarrow> extends_table tab T" using more schedule_fields by metis
  show "timer_cancel tm S = Inr T \<Longrightarrow> extends_table tab T" using more cancel_fields by metis
  show "extends_table tab (clear_object t a S)" for t a by (rule extends_table_cong [OF _ I]) simp
  show "extends_table tab (upd_ci y i g S)" for y i g by (rule extends_table_cong [OF _ I]) simp
qed

interpretation started_table: start_inv "extends_table tab" for tab
proof
  fix S T :: prog and et g
  assume I: "extends_table tab S" and reg: "event_register_handler et Rate_done (Ptr g) S = Inr T"
  have T: "action T = (action S)(et := action S et @ [(Rate_done, Ptr g)])"
    using reg by (auto simp: event_register_handler_def split: if_splits)
  show "extends_table tab T" unfolding extends_table_def
  proof
    fix ev
    obtain rs where rs: "action S ev = tab ev @ rs" "\<forall>r \<in> set rs. fst r = Rate_done" using I by (auto simp: extends_table_def)
    then show "\<exists>rs. action T ev = tab ev @ rs \<and> (\<forall>r \<in> set rs. fst r = Rate_done)"
      by (intro exI [of _ "if ev = et then rs @ [(Rate_done, Ptr g)] else rs"]) (auto simp: T)
  qed
qed

section \<open>The limit on pipelined calls\<close>

text \<open>What the options leave alone, and the limit that a session workload sets.\<close>

definition untouched :: "prog \<Rightarrow> prog \<Rightarrow> bool" where
  "untouched S T \<longleftrightarrow> tmr T = tmr S \<and> action T = action S \<and> sess_priv T = sess_priv S"

lemma untouched_trans: "untouched S T \<Longrightarrow> untouched T U \<Longrightarrow> untouched S U"
  by (simp add: untouched_def)

lemma untouched_param [simp]: "untouched S (S\<lparr>param := p\<rparr>)" "untouched S (snd (upd_param f (m, S)))" "untouched S S"
  by (simp_all add: untouched_def upd_param_def)

lemma core_add_addresses_untouched:
  fixes S T :: prog
  shows "core_add_addresses n res spec S = Inr T \<Longrightarrow> untouched S T"
proof -
  have one: "core_add_address addr U = Inr V \<Longrightarrow> untouched U V" for addr and U V :: prog
    by (auto simp: core_add_address_def malloc_def untouched_def split: if_splits)
  have range: "range_loop k addr end_addr U = Inr V \<Longrightarrow> untouched U V" for k addr end_addr and U V :: prog
    by (induction k arbitrary: addr U) (auto simp: Inr_iff split: if_splits dest: one intro: untouched_trans)
  show "core_add_addresses n res spec S = Inr T \<Longrightarrow> untouched S T"
    by (auto simp: core_add_addresses_def Inr_iff Let_def split: option.splits if_splits prod.splits dest: one range intro: untouched_trans)
qed

lemma parse_option_untouched:
  assumes run: "parse_option n res (x, arg) (m, S) = Inr M'"
  shows "untouched S (snd M')"
proof -
  note body = run [unfolded parse_option_def prod.case Let_def]
  note defs = ulong_option_def time_option_def buffer_option_def Inr_iff upd_param_def wlog_option_def session_option_def untouched_def
  show ?thesis using body
    by (cases x; simp only: opt.case; auto simp: defs dest: core_add_addresses_untouched [unfolded untouched_def] split: if_splits)
qed

lemma parse_options_untouched:
  assumes "parse_options n res opts S = Inr (m, T)"
  shows "untouched S T"
proof -
  have fold: "efold (parse_option n res) opts M = Inr M' \<Longrightarrow> untouched (snd M) (snd M')" for M M'
  proof (induction opts arbitrary: M)
    case (Cons p opts)
    obtain M1 where M1: "parse_option n res p M = Inr M1" "efold (parse_option n res) opts M1 = Inr M'"
      using Cons.prems by (auto simp: Inr_iff)
    have "untouched (snd M) (snd M1)" using parse_option_untouched [of n res "fst p" "snd p" "fst M" "snd M" M1] M1(1) by simp
    then show ?case using Cons.IH [OF M1(2)] untouched_trans by blast
  qed simp
  obtain M1 M2 where M: "efold (parse_option n res) opts (initial_vars, S) = Inr M1" "use_server M1 = Inr M2" "use_modules M2 = Inr (m, T)"
    using assms unfolding parse_options_def by (auto simp: Inr_iff)
  have "untouched (snd M1) (snd M2)"
    using M(2) by (cases M1) (auto simp: use_server_def Let_def untouched_def split: if_splits)
  moreover have "T = snd M2" using M(3) by (cases M2) (auto simp: use_modules_def Let_def Inr_iff split: if_splits)
  ultimately show ?thesis using fold [OF M(1)] untouched_trans by simp
qed

lemma register_param [simp]: "event_register_handler et h a S = Inr T \<Longrightarrow> param T = param S"
  by (auto simp: event_register_handler_def split: if_splits)

lemma expand_param [simp]: "param (snd (object_expand t k S)) = param S"
  by (simp add: object_expand_def Let_def)

lemma upd_rg_param [simp]: "param (upd_rg g f S) = param S"
  by (simp add: upd_rg_def)

lemma session_init_piped: "session_init S = Inr T \<Longrightarrow> max_piped (param T) \<le> 32"
  by (auto simp: session_init_def Let_def Inr_iff not_less split: if_splits dest!: register_param)

lemma generator_init_piped:
  assumes run: "generator_init g S = Inr T" and start: "g \<in> set session_gens \<or> max_piped (param S) \<le> 32"
  shows "max_piped (param T) \<le> 32"
proof (cases g)
  case Wsess
  then show ?thesis using run by (auto simp: generator_init_def wsess_init_def Inr_iff Let_def dest!: session_init_piped register_param)
next
  case Wsesslog
  then show ?thesis using run by (auto simp: generator_init_def wsesslog_init_def Inr_iff Let_def dest!: session_init_piped)
next
  case Wsesspage
  then show ?thesis using run
    by (auto simp: generator_init_def page_init_def Inr_iff Let_def dest!: session_init_piped register_param split: if_splits)
next
  case Uri_wset
  then have "max_piped (param T) = max_piped (param S)" using run
    by (auto simp: generator_init_def uri_wset_init_def drand48_def object_expand_def Let_def dest!: register_param split: if_splits)
  then show ?thesis using start Uri_wset by (simp add: session_gens_def)
next
  case Misc
  then have "param T = param S" using run
    by (auto simp: generator_init_def misc_init_def malloc_def Inr_iff Let_def dest!: register_param split: if_splits option.splits)
  then show ?thesis using start Misc by (simp add: session_gens_def)
qed (use run start in \<open>auto simp: generator_init_def session_gens_def uri_fixed_init_def uri_wlog_init_def conn_rate_init_def
    call_seq_init_def cookie_init_def Inr_iff Let_def dest!: register_param split: option.splits if_splits\<close>)


lemma for_modules_piped:
  assumes "for_modules k ms generator_init S = Inr T" "0 < k" "ms ! 0 = Some g" "g \<in> set session_gens"
  shows "max_piped (param T) \<le> 32"
  using assms(1,2)
proof (induction k arbitrary: T)
  case (Suc k)
  then obtain U md where U: "for_modules k ms generator_init S = Inr U" "ms ! k = Some md" "generator_init md U = Inr T"
    by (auto simp: for_modules_Suc Inr_iff)
  have "md \<in> set session_gens \<or> max_piped (param U) \<le> 32"
  proof (cases "k = 0")
    case True
    then show ?thesis using U(2) assms(3,4) by simp
  next
    case False
    then show ?thesis using Suc.IH [OF U(1)] by simp
  qed
  then show ?case by (rule generator_init_piped [OF U(3)])
qed simp

lemma main_init_piped:
  assumes "main_init n file res m S = Inr T" "take (num_gen m) (gen_arr m) = map Some (g # gs)" "g \<in> set session_gens"
  shows "max_piped (param T) \<le> 32"
proof -
  obtain S1 S2 S3 where "for_modules (num_gen m) (gen_arr m) generator_init S3 = Inr T"
    by (rule main_init_steps [OF assms(1)])
  moreover have n: "0 < num_gen m" using assms(2) by (cases "num_gen m") simp_all
  moreover have "gen_arr m ! 0 = Some g" using assms(2) n by (cases "gen_arr m") (simp_all add: take_Cons')
  ultimately show ?thesis by (rule for_modules_piped [OF _ _ _ assms(3)])
qed

lemma session_first:
  assumes "parse_options n res opts S = Inr (m, T)" "param S = default_params" "session_workload m"
  obtains g gs where "take (num_gen m) (gen_arr m) = map Some (g # gs)" "g \<in> set session_gens"
proof -
  obtain s pr ck ms gs where "s = asks (set session_opts) opts" and s: "session_workload m \<longleftrightarrow> s \<noteq> 0"
    and "take (num_stats m) (stat_arr m) = map Some (Stats_basic # replicate s Session_stat @ (if pr then [Stats_print_reply] else []))"
    and m: "take (num_gen m) (gen_arr m) = map Some (gs @ (if ck then [Sess_cookie] else []) @ (if ms then [Misc] else []))"
    and gs: "gs \<in> set (workload_gens (s \<noteq> 0))" and "ck \<longrightarrow> s \<noteq> 0"
    by (rule accepted_modules [OF assms(1,2)])
  have "list_all (\<lambda>gs. gs \<noteq> [] \<and> hd gs \<in> set session_gens) (workload_gens True)" by code_simp
  then have "gs \<noteq> []" "hd gs \<in> set session_gens" using s gs assms(3) by (auto simp: list_all_iff)
  then show thesis using that [of "hd gs" "tl gs @ (if ck then [Sess_cookie] else []) @ (if ms then [Misc] else [])"] m
    by (cases gs) simp_all
qed

section \<open>Properties of a run\<close>

text \<open>
  C1: From the command line to any moment of the main loop: the handlers of an event are those of
  the selected modules, the statistics collectors before the load generators, and behind them at
  most the one that creates the load at once; the timer pool is well-formed; and with a session
  workload no connection of a session has more than 32 calls pending in its ring buffer.
\<close>

theorem run_from_command_line:
  assumes options: "parse_options r res opts S = Inr (m, S1)" "param S = default_params"
    and fresh: "action S = (\<lambda>_. [])" "tmr S = (\<lambda>_. None)" "sess_priv S = (\<lambda>_. zero_sess_private)"
    and run: "main_init n file res m S1 = Inr S2" "main_start n m S2 = Inr S3" "program_loop k n S3 = Inr T"
  shows "(\<exists>rs. action T ev = map snd (filter (\<lambda>h. fst h = ev) (startup_handlers (param S1) m)) @ rs \<and> (\<forall>h \<in> set rs. fst h = Rate_done))
    \<and> timers_inv T
    \<and> (session_workload m \<longrightarrow> i < max_conn \<longrightarrow> ring_inv (max_piped (param S2)) (ci_of x i T) \<and> unat (max_piped (param S2)) \<le> 32)"
proof -
  have S1: "tmr S1 = (\<lambda>_. None)" "action S1 = (\<lambda>_. [])" "sess_priv S1 = (\<lambda>_. zero_sess_private)"
    using parse_options_untouched [OF options(1)] fresh by (simp_all add: untouched_def)
  let ?tab = "\<lambda>ev. map snd (filter (\<lambda>h. fst h = ev) (startup_handlers (param S1) m))"
  have S2: "action S2 = ?tab" "timers_inv S2" "sess_priv S2 = (\<lambda>_. zero_sess_private)"
    using main_init_readies [OF run(1) S1(2,1)] S1(3) by auto
  have "extends_table ?tab S2" by (simp add: extends_table_def S2(1))
  then have "extends_table ?tab T"
    using started_table.main_start_keeps [OF _ run(2)] start_table.program_loop_keeps [OF _ run(3)] by blast
  moreover have "timers_inv T"
    using started_timers.main_start_keeps [of S2 S2, OF _ run(2)] S2(2) program_loop_timers [OF _ run(3)] by simp
  moreover have rings: "ring_inv (max_piped (param S2)) (ci_of x i T) \<and> unat (max_piped (param S2)) \<le> 32" if sw: "session_workload m" and i: "i < max_conn"
  proof -
    obtain g ms where g: "take (num_gen m) (gen_arr m) = map Some (g # ms)" "g \<in> set session_gens"
      by (rule session_first [OF options sw])
    have piped: "max_piped (param S2) \<le> 32" by (rule main_init_piped [OF run(1) g])
    then have "rings_ok (max_piped (param S2)) S2"
      using ring_inv_zero by (simp add: rings_ok_def S2(3) zero_sess_private_def word_le_nat_alt)
    then have "rings_ok (max_piped (param S2)) T"
      using started_rings.main_start_keeps [OF _ run(2)] ring_buffers.program_loop_keeps [OF _ run(3)] by blast
    then show ?thesis using rings_okD [OF _ i] piped by (simp add: word_le_nat_alt)
  qed
  ultimately show ?thesis by (simp add: extends_table_def)
qed

theorem run_from_command_line_witness:
  "\<exists>S1 S2 S3 T. parse_options 9 brief_resolver brief_opts brief_start = Inr (initial_vars, S1)
     \<and> main_init 1 Not_opened brief_resolver initial_vars S1 = Inr S2 \<and> main_start 1 initial_vars S2 = Inr S3
     \<and> program_loop 1 1 S3 = Inr T \<and> timers_inv T"
  using brief_parsed [of brief_resolver] brief_run run_from_command_line [OF brief_parsed brief_start_fields(1-4)] by blast

end
