(* ===== verification/Spec2Isabelle.thy ===== *)
theory Spec2Isabelle
  imports Prelude Linked_List Ring_Queue Binary_Heap Timer Private_Data Data_Model Events Objects
    C_String Http Http_Stream Http_Reply Core_Addr Core_Engine Engine_Send Engine_Close
    Program_State Gen_Rate Gen_Uri Engine_Frame Gen_Session Gen_Wsess Wsesslog_Config Gen_Wsesspage
    Stat_Basic Stat_Sess Print_Reply Program Program_Frame Program_Inv Collectors
    Options Options_Text Options_Accepted Httperf_Main Brief_Run Startup
begin

section \<open>The program\<close>

text \<open>
  \<^verbatim>\<open>httperf\<close> (the directory \<^verbatim>\<open>src/src\<close> of the repository) measures the performance of a web
  server: it opens connections at a chosen rate, sends HTTP requests on them, reads the replies
  and reports statistics.  It is one process with one thread.

  The \<^emph>\<open>core\<close> (\<^verbatim>\<open>core.c\<close>, \<^verbatim>\<open>http.c\<close>, \<^verbatim>\<open>object.c\<close>, \<^verbatim>\<open>call.c\<close>, \<^verbatim>\<open>conn.c\<close>, \<^verbatim>\<open>sess.c\<close>) owns
  the sockets and the reference counted objects: sessions, connections and calls.  Whatever
  happens to an object is announced as an \<^emph>\<open>event\<close> (\<^verbatim>\<open>localevent.c\<close>), and runs the handlers that
  the modules have registered for it.  The modules are the \<^emph>\<open>load generators\<close> of \<^verbatim>\<open>gen/\<close>, which
  create connections, calls and sessions, fill in requests and issue the next call when one is
  destroyed, and the \<^emph>\<open>statistics collectors\<close> of \<^verbatim>\<open>stat/\<close>.  \<^emph>\<open>Timers\<close> (\<^verbatim>\<open>timer.c\<close>) drive the
  generators of arrivals (\<^verbatim>\<open>gen/rate.c\<close>), the watchdogs of the connections, the think times and
  the sampling of the rates.  \<^verbatim>\<open>httperf.c\<close> reads the command line, selects and initialises the
  modules, starts them, runs the main loop of the core, stops them and has them report.
\<close>

section \<open>Which theory models what\<close>

text \<open>
  Every definition has the name of its C function, type or variable where HOL leaves that name free.

  \<^bold>\<open>Library.\<close>  \<open>Prelude\<close>: results of functions that may stop the process.  \<open>Linked_List\<close>
  (\<^verbatim>\<open>lib/list.c\<close>): a store of nodes; the lists are disjoint chains in it.  \<open>Ring_Queue\<close>
  (\<^verbatim>\<open>lib/queue.c\<close>) and \<open>Binary_Heap\<close> (\<^verbatim>\<open>lib/heap.c\<close>): arrays with their counters.  \<open>Timer\<close>
  (\<^verbatim>\<open>timer.c\<close>): the pool, the free and the active list, \<open>timer_tick\<close> and the cached time.

  \<^bold>\<open>Core.\<close>  \<open>Data_Model\<close> and \<open>Private_Data\<close>: the structures of the header files, the file-scope
  variables of the core (record \<open>core\<close>) and the private areas of the modules.  \<open>Events\<close>
  (\<^verbatim>\<open>localevent.c\<close>), \<open>Objects\<close> (\<^verbatim>\<open>object.c\<close>, \<^verbatim>\<open>call.c\<close>, \<^verbatim>\<open>conn.c\<close>, \<^verbatim>\<open>sess.c\<close>), \<open>C_String\<close> (the
  string functions of the C library), \<open>Http\<close> (\<^verbatim>\<open>http.c\<close>) with \<open>Http_Stream\<close> and \<open>Http_Reply\<close>,
  \<open>Core_Addr\<close> (\<^verbatim>\<open>core.c\<close>: servers, local addresses, ports) and \<open>Core_Engine\<close> (\<^verbatim>\<open>core.c\<close>:
  connecting, sending, receiving, closing, the main loop) with \<open>Engine_Send\<close>, \<open>Engine_Close\<close> and
  \<open>Engine_Frame\<close>.

  \<^bold>\<open>Modules.\<close>  \<open>Program_State\<close> extends the state of the core by the variables of the modules (record
  \<open>prog\<close>).  \<open>Gen_Rate\<close> (\<^verbatim>\<open>gen/rate.c\<close>, \<^verbatim>\<open>gen/conn_rate.c\<close>), \<open>Gen_Uri\<close> (\<^verbatim>\<open>gen/misc.c\<close>,
  \<^verbatim>\<open>gen/uri_fixed.c\<close>, \<^verbatim>\<open>gen/uri_wlog.c\<close>, \<^verbatim>\<open>gen/uri_wset.c\<close>), \<open>Gen_Session\<close> (\<^verbatim>\<open>gen/call_seq.c\<close>,
  \<^verbatim>\<open>gen/session.c\<close>, \<^verbatim>\<open>gen/sess_cookie.c\<close>), \<open>Gen_Wsess\<close> (\<^verbatim>\<open>gen/wsess.c\<close>, \<^verbatim>\<open>gen/wsesslog.c\<close>),
  \<open>Wsesslog_Config\<close> (the file that \<^verbatim>\<open>gen/wsesslog.c\<close> reads), \<open>Gen_Wsesspage\<close>
  (\<^verbatim>\<open>gen/wsesspage.c\<close>), \<open>Stat_Basic\<close>, \<open>Stat_Sess\<close> and \<open>Print_Reply\<close> (\<^verbatim>\<open>stat/\<close>).

  \<^bold>\<open>The whole program.\<close>  \<open>Program\<close> says what each handler and callback is and ties the knot between
  events and handlers.  \<open>Program_Frame\<close>, \<open>Program_Inv\<close> and \<open>Collectors\<close> follow invariants through
  it.  \<open>Options\<close>, \<open>Options_Text\<close> and \<open>Options_Accepted\<close> (the command line), \<open>Httperf_Main\<close>
  (initialisation, loop and reports), \<open>Startup\<close> and \<open>Brief_Run\<close> model \<^verbatim>\<open>httperf.c\<close>.
\<close>

section \<open>How C is modelled\<close>

text \<open>
  \<^bold>\<open>State.\<close>  A function of the program maps a state to a \<open>result\<close>: \<open>Inr\<close> its value and the new state, or
  \<open>Inl\<close> the way it ends the process: \<open>Exit\<close> with a code, a failed \<open>Assertion\<close>, or \<open>Undefined\<close>
  behaviour such as an access out of bounds or a use of NULL.  \<open>ebind\<close> composes such functions.
  An object or timer is an address, its fields are the value of a map at that address.  Unsigned
  integers are words of their width; a signed integer is an \<open>int\<close> where the code keeps it in
  range; \<open>double\<close> is \<open>real\<close>, so that rounding is not modelled.

  \<^bold>\<open>Environment.\<close>  What the kernel and the C library answer (times, results of \<open>connect\<close>,
  \<open>writev\<close>, \<open>recv\<close>, \<open>epoll_wait\<close>, random numbers) is taken from streams in the state: a theorem about
  every state is one about every behaviour of the environment.  Name resolution, the contents of files and
  the options that \<^verbatim>\<open>getopt_long\<close> recognises are parameters.

  \<^bold>\<open>Handlers.\<close>  The functions of the core take the signal, the function that runs the handlers of an
  event, as a parameter.  In \<open>Program\<close> it becomes \<open>program_signal n\<close>: handlers signal further
  events, and \<open>n\<close> bounds how deep.  The callbacks of timers and of rate generators are
  datatypes, one constructor for a C function pointer, and \<open>run_callback\<close> calls the function.

  \<^bold>\<open>Loops.\<close>  A loop over data is recursion over it.  A loop that may go on takes a number of rounds as its first
  argument; \<open>Out_of_fuel\<close> says that they were not enough.  Where the number matters it is shown to be
  enough: \<open>hash_table_size\<close> rounds for the hash table and the words of the port map for
  \<open>port_get\<close>, twice the calls to be sent and once those that wait for
  a reply for \<open>do_send\<close>, the elements for the chains and the heap.  Two loops of the program do not end on some inputs, a full hash table and a range of
  addresses that leaves its network: this is shown for every number of rounds.  In \<open>httperf_main r k n\<close>, \<open>r\<close> bounds the range of addresses
  of \<^verbatim>\<open>--myaddr\<close>, \<open>k\<close> the rounds of the main loop, whose length is decided by the clock and the
  server, and \<open>n\<close> the nesting of events and the loops inside one round.  The theorems about whole runs hold for all
  \<open>r\<close>, \<open>k\<close> and \<open>n\<close>; that there are such runs is shown on a command line in \<open>Brief_Run\<close>.
\<close>

section \<open>What is shown\<close>

text \<open>
  \<^bold>\<open>Contracts.\<close>  \<open>lifo_list\<close> and \<open>bounded_fifo\<close> are the contracts of the containers; the second holds of
  \<^verbatim>\<open>lib/queue.c\<close> and of the ring of pending calls in \<^verbatim>\<open>gen/session.c\<close>.  \<open>timer_callbacks\<close> is
  what \<open>timer_tick\<close> asks of the callbacks that it runs, and the callbacks of the program provide it.
  \<open>handler_table\<close>, \<open>object_handlers\<close>, \<open>observer\<close>, \<open>reader\<close> and \<open>collectors\<close> with its two extensions are what the
  theorems on dispatch, objects, parsing, sending and closing ask of the handlers, and the statistics
  collectors provide the ones of them that are about the core.  \<open>engine_inv\<close>, \<open>object_inv\<close>, \<open>loop_inv\<close>,
  \<open>quiet_inv\<close>, \<open>module_inv\<close>, \<open>closed_inv\<close>, \<open>closed_loop_inv\<close> and \<open>start_inv\<close> follow a property
  from the core through the modules to the whole program: what survives the few steps that they name
  survives every function.  They are instantiated with the table of handlers, the well-formedness of
  the timers and the rings of the sessions.

  \<^bold>\<open>Components.\<close>  The containers refine lists; a tick of the timers runs what is due, once and in
  order, also when the callbacks schedule and cancel timers; references are never lost and an object in use is never
  handed out; the reply parser gives back what the server sent, however the network cuts it; what a
  connection sends is what the calls say, and closing it releases everything once; the server table is a
  map; ports are not used twice; URIs, cookies and headers arrive as written; the file of sessions and the arguments
  of the options are read back; the statistics agree with each other.

  \<^bold>\<open>The program.\<close>  An accepted command line has well-formed parameters; the modules register
  exactly their handlers, collectors before generators; and at every end of the main loop
  the handlers are still these, the timers are well-formed and the rings are within their bounds.

  \<^bold>\<open>Defects.\<close>  Some theorems show that the code does something other than it means to; they say so.
\<close>

section \<open>What is not modelled\<close>

text \<open>
  The build is the one of Linux with \<open>epoll\<close> and without SSL and debugging: the event loops on
  \<open>select\<close> and \<open>kqueue\<close>, \<^verbatim>\<open>lib/ssl_writev.c\<close> and the debugging output are left out.
  \<^verbatim>\<open>lib/getopt.c\<close> is a copy of a library and \<^verbatim>\<open>idleconn.c\<close> is another program.  The echo of the
  command line and the usage message are text only; the signal handler for \<open>SIGINT\<close> and the call of
  \<open>getrusage\<close>, whose results are parameters, are left out.  The reports are modelled by the numbers that they
  print, not by their layout.
\<close>

end
